(* ===== verification/Prelude.thy ===== *)
theory Prelude
  imports Main "HOL-Library.Word" "HOL-Library.Monad_Syntax"
begin

text \<open>
  Shared vocabulary of the development: the machine types of the C sources, the two ways
  the C code can go wrong (an \<open>ASSERT\<close> that does not hold, a memory access outside its
  object), both written as \<^term>\<open>None\<close>, and generic lemmas on words, lists and options.
\<close>

unbundle bit_operations_syntax

section \<open>Machine types\<close>

type_synonym u8 = "8 word"
type_synonym u16 = "16 word"
type_synonym u32 = "32 word"
type_synonym u64 = "64 word"
type_synonym bytes = "8 word list"

abbreviation INT_MAX :: int where "INT_MAX \<equiv> 2147483647"
abbreviation UINT16_MAX :: int where "UINT16_MAX \<equiv> 65535"

definition int32 :: "int \<Rightarrow> int" where
  \<comment> \<open>the conversion to \<open>int\<close>\<close>
  "int32 x = sint (word_of_int x :: u32)"

lemma int32_id: "- 2147483648 \<le> x \<Longrightarrow> x \<le> INT_MAX \<Longrightarrow> int32 x = x"
  by (simp add: int32_def sint_sbintrunc' signed_take_bit_int_eq_self)

named_theorems wire_simps "decoding what was encoded"
named_theorems inv_intros "introduction rules for component invariants"

section \<open>Assertions and reads\<close>

text \<open>
  The \<open>tun2socks\<close> library is built without \<open>NDEBUG\<close>, so a failed \<open>ASSERT\<close> aborts the process:
  \<open>cassert\<close> is \<^term>\<open>None\<close> then. \<open>byte_at\<close> reads one byte of an object and is
  \<^term>\<open>None\<close> outside of it.
\<close>

definition cassert :: "bool \<Rightarrow> unit option" where
  "cassert b = (if b then Some () else None)"

definition byte_at :: "'a list \<Rightarrow> nat \<Rightarrow> 'a option" where
  "byte_at xs i = (if i < length xs then Some (xs ! i) else None)"

definition subbytes :: "'a list \<Rightarrow> nat \<Rightarrow> nat \<Rightarrow> 'a list option" where
  \<comment> \<open>\<open>n\<close> elements from position \<open>i\<close>, as a \<open>memcpy\<close> out of an object reads them\<close>
  "subbytes xs i n = (if i + n \<le> length xs then Some (take n (drop i xs)) else None)"

definition overwrite :: "'a list \<Rightarrow> nat \<Rightarrow> 'a list \<Rightarrow> 'a list option" where
  \<comment> \<open>\<open>memcpy\<close> of \<open>ys\<close> into an object at position \<open>i\<close>\<close>
  "overwrite xs i ys =
     (if i + length ys \<le> length xs then Some (take i xs @ ys @ drop (i + length ys) xs) else None)"

lemma cassert_simps [simp]:
  "cassert True = Some ()" "cassert False = None"
  by (simp_all add: cassert_def)

lemma cassert_Some_iff [simp]: "cassert b = Some u \<longleftrightarrow> b"
  by (simp add: cassert_def)

lemma byte_at_Some_iff: "byte_at xs i = Some b \<longleftrightarrow> i < length xs \<and> xs ! i = b"
  by (auto simp: byte_at_def)

lemma subbytes_length: "subbytes xs i n = Some ys \<Longrightarrow> length ys = n"
  by (auto simp: subbytes_def split: if_splits)

lemma subbytes_total: "i + n \<le> length xs \<Longrightarrow> subbytes xs i n = Some (take n (drop i xs))"
  by (simp add: subbytes_def)

lemma overwrite_length: "overwrite xs i ys = Some zs \<Longrightarrow> length zs = length xs"
  by (auto simp: overwrite_def split: if_splits)

lemma overwrite_total:
  "i + length ys \<le> length xs \<Longrightarrow> overwrite xs i ys = Some (take i xs @ ys @ drop (i + length ys) xs)"
  by (simp add: overwrite_def)

lemma overwrite_drop: "overwrite xs i ys = Some zs \<Longrightarrow> i + length ys \<le> k \<Longrightarrow> drop k zs = drop k xs"
  by (auto simp: overwrite_def min_def split: if_splits)

lemma overwrite_take: "overwrite xs i ys = Some zs \<Longrightarrow> k \<le> i \<Longrightarrow> take k zs = take k xs"
  by (auto simp: overwrite_def min_def split: if_splits)

lemma take_overwrite: "overwrite b n d = Some b' \<Longrightarrow> take (n + length d) b' = take n b @ d"
  by (auto simp: overwrite_def split: if_splits)

lemma bind_Some_iff: "Option.bind m f = Some y \<longleftrightarrow> (\<exists>x. m = Some x \<and> f x = Some y)"
  by (cases m) auto

section \<open>Transition systems\<close>

text \<open>
  The state machines of the development (the SOCKS client, the relay of one TCP
  connection, the packet buffer) share one argument: an invariant that holds at the start
  and is kept by every step holds in every reachable state.
\<close>

inductive reachable_from :: "('s \<Rightarrow> bool) \<Rightarrow> ('s \<Rightarrow> 's \<Rightarrow> bool) \<Rightarrow> 's \<Rightarrow> bool"
  for init :: "'s \<Rightarrow> bool" and step :: "'s \<Rightarrow> 's \<Rightarrow> bool" where
  reach_init: "init s \<Longrightarrow> reachable_from init step s"
| reach_step: "reachable_from init step s \<Longrightarrow> step s t \<Longrightarrow> reachable_from init step t"

locale inductive_invariant =
  fixes init :: "'s \<Rightarrow> bool" and step :: "'s \<Rightarrow> 's \<Rightarrow> bool" and inv :: "'s \<Rightarrow> bool"
  assumes inv_init: "init s \<Longrightarrow> inv s"
    and inv_step: "inv s \<Longrightarrow> step s t \<Longrightarrow> inv t"
begin

lemma inv_reachable: "reachable_from init step s \<Longrightarrow> inv s"
proof (induction rule: reachable_from.induct)
  case (reach_init s)
  then show ?case by (rule inv_init)
next
  case (reach_step s t)
  show ?case using reach_step.IH reach_step.hyps(2) by (rule inv_step)
qed

end

end
