(* ===== verification/Byte_Order.thy ===== *)
theory Byte_Order
  imports Prelude
begin

text \<open>
  Byte order (\<open>misc/byteorder.h\<close>) and fixed-width integer access (\<open>misc/read_write_int.h\<close>).
  The host's byte order is a parameter, as the preprocessor makes it in the source: a
  value of type \<open>uint16_t\<close>, \<open>uint32_t\<close> or \<open>uint64_t\<close> is laid out in memory by
  \<open>mem16\<close>, \<open>mem32\<close>, \<open>mem64\<close> and read back by \<open>load16\<close>, \<open>load32\<close>, \<open>load64\<close>.
\<close>

section \<open>Memory images\<close>

datatype endian = LittleEndian | BigEndian

fun mem16 :: "endian \<Rightarrow> u16 \<Rightarrow> bytes" where
  "mem16 LittleEndian x = [ucast x, ucast (drop_bit 8 x)]"
| "mem16 BigEndian x = [ucast (drop_bit 8 x), ucast x]"

fun mem32 :: "endian \<Rightarrow> u32 \<Rightarrow> bytes" where
  "mem32 LittleEndian x =
     [ucast x, ucast (drop_bit 8 x), ucast (drop_bit 16 x), ucast (drop_bit 24 x)]"
| "mem32 BigEndian x =
     [ucast (drop_bit 24 x), ucast (drop_bit 16 x), ucast (drop_bit 8 x), ucast x]"

fun mem64 :: "endian \<Rightarrow> u64 \<Rightarrow> bytes" where
  "mem64 LittleEndian x =
     [ucast x, ucast (drop_bit 8 x), ucast (drop_bit 16 x), ucast (drop_bit 24 x),
      ucast (drop_bit 32 x), ucast (drop_bit 40 x), ucast (drop_bit 48 x), ucast (drop_bit 56 x)]"
| "mem64 BigEndian x =
     [ucast (drop_bit 56 x), ucast (drop_bit 48 x), ucast (drop_bit 40 x), ucast (drop_bit 32 x),
      ucast (drop_bit 24 x), ucast (drop_bit 16 x), ucast (drop_bit 8 x), ucast x]"

section \<open>Reading and writing integers\<close>

fun badvpn_read_le8 :: "bytes \<Rightarrow> u8 option" where
  "badvpn_read_le8 (p0 # _) = Some p0"
| "badvpn_read_le8 _ = None"

fun badvpn_read_le16 :: "bytes \<Rightarrow> u16 option" where
  "badvpn_read_le16 (p0 # p1 # _) = Some (push_bit 8 (ucast p1) OR ucast p0)"
| "badvpn_read_le16 _ = None"

fun badvpn_read_le32 :: "bytes \<Rightarrow> u32 option" where
  "badvpn_read_le32 (p0 # p1 # p2 # p3 # _) =
     Some (push_bit 24 (ucast p3) OR push_bit 16 (ucast p2) OR push_bit 8 (ucast p1) OR ucast p0)"
| "badvpn_read_le32 _ = None"

fun badvpn_read_le64 :: "bytes \<Rightarrow> u64 option" where
  "badvpn_read_le64 (p0 # p1 # p2 # p3 # p4 # p5 # p6 # p7 # _) =
     Some (push_bit 56 (ucast p7) OR push_bit 48 (ucast p6) OR push_bit 40 (ucast p5) OR
           push_bit 32 (ucast p4) OR push_bit 24 (ucast p3) OR push_bit 16 (ucast p2) OR
           push_bit 8 (ucast p1) OR ucast p0)"
| "badvpn_read_le64 _ = None"

fun badvpn_read_be8 :: "bytes \<Rightarrow> u8 option" where
  "badvpn_read_be8 (p0 # _) = Some p0"
| "badvpn_read_be8 _ = None"

fun badvpn_read_be16 :: "bytes \<Rightarrow> u16 option" where
  "badvpn_read_be16 (p0 # p1 # _) = Some (push_bit 8 (ucast p0) OR ucast p1)"
| "badvpn_read_be16 _ = None"

fun badvpn_read_be32 :: "bytes \<Rightarrow> u32 option" where
  "badvpn_read_be32 (p0 # p1 # p2 # p3 # _) =
     Some (push_bit 24 (ucast p0) OR push_bit 16 (ucast p1) OR push_bit 8 (ucast p2) OR ucast p3)"
| "badvpn_read_be32 _ = None"

fun badvpn_read_be64 :: "bytes \<Rightarrow> u64 option" where
  "badvpn_read_be64 (p0 # p1 # p2 # p3 # p4 # p5 # p6 # p7 # _) =
     Some (push_bit 56 (ucast p0) OR push_bit 48 (ucast p1) OR push_bit 40 (ucast p2) OR
           push_bit 32 (ucast p3) OR push_bit 24 (ucast p4) OR push_bit 16 (ucast p5) OR
           push_bit 8 (ucast p6) OR ucast p7)"
| "badvpn_read_be64 _ = None"

definition badvpn_write_le8 :: "u8 \<Rightarrow> bytes" where
  "badvpn_write_le8 x = [x]"

definition badvpn_write_le16 :: "u16 \<Rightarrow> bytes" where
  "badvpn_write_le16 x = [ucast x, ucast (drop_bit 8 x)]"

definition badvpn_write_le32 :: "u32 \<Rightarrow> bytes" where
  "badvpn_write_le32 x =
     [ucast x, ucast (drop_bit 8 x), ucast (drop_bit 16 x), ucast (drop_bit 24 x)]"

definition badvpn_write_le64 :: "u64 \<Rightarrow> bytes" where
  "badvpn_write_le64 x =
     [ucast x, ucast (drop_bit 8 x), ucast (drop_bit 16 x), ucast (drop_bit 24 x),
      ucast (drop_bit 32 x), ucast (drop_bit 40 x), ucast (drop_bit 48 x), ucast (drop_bit 56 x)]"

definition badvpn_write_be8 :: "u8 \<Rightarrow> bytes" where
  "badvpn_write_be8 x = [x]"

definition badvpn_write_be16 :: "u16 \<Rightarrow> bytes" where
  "badvpn_write_be16 x = [ucast (drop_bit 8 x), ucast x]"

definition badvpn_write_be32 :: "u32 \<Rightarrow> bytes" where
  "badvpn_write_be32 x =
     [ucast (drop_bit 24 x), ucast (drop_bit 16 x), ucast (drop_bit 8 x), ucast x]"

definition badvpn_write_be64 :: "u64 \<Rightarrow> bytes" where
  "badvpn_write_be64 x =
     [ucast (drop_bit 56 x), ucast (drop_bit 48 x), ucast (drop_bit 40 x), ucast (drop_bit 32 x),
      ucast (drop_bit 24 x), ucast (drop_bit 16 x), ucast (drop_bit 8 x), ucast x]"

section \<open>Loading a memory image\<close>

fun load16 :: "endian \<Rightarrow> bytes \<Rightarrow> u16 option" where
  "load16 LittleEndian bs = badvpn_read_le16 bs"
| "load16 BigEndian bs = badvpn_read_be16 bs"

fun load32 :: "endian \<Rightarrow> bytes \<Rightarrow> u32 option" where
  "load32 LittleEndian bs = badvpn_read_le32 bs"
| "load32 BigEndian bs = badvpn_read_be32 bs"

fun load64 :: "endian \<Rightarrow> bytes \<Rightarrow> u64 option" where
  "load64 LittleEndian bs = badvpn_read_le64 bs"
| "load64 BigEndian bs = badvpn_read_be64 bs"

section \<open>Byte reversal and the conversion functions\<close>

text \<open>
  The C functions copy the bytes of the argument's memory image, in reverse, into the
  image of the result. The image always has the right length, so the load never fails.
\<close>

definition badvpn_reverse16 :: "endian \<Rightarrow> u16 \<Rightarrow> u16" where
  "badvpn_reverse16 e x =
     (let m = mem16 e x in the (load16 e [m ! 1, m ! 0]))"

definition badvpn_reverse32 :: "endian \<Rightarrow> u32 \<Rightarrow> u32" where
  "badvpn_reverse32 e x =
     (let m = mem32 e x in the (load32 e [m ! 3, m ! 2, m ! 1, m ! 0]))"

definition badvpn_reverse64 :: "endian \<Rightarrow> u64 \<Rightarrow> u64" where
  "badvpn_reverse64 e x =
     (let m = mem64 e x in
      the (load64 e [m ! 7, m ! 6, m ! 5, m ! 4, m ! 3, m ! 2, m ! 1, m ! 0]))"

definition hton8 :: "u8 \<Rightarrow> u8" where "hton8 x = x"
definition htol8 :: "u8 \<Rightarrow> u8" where "htol8 x = x"

fun hton16 :: "endian \<Rightarrow> u16 \<Rightarrow> u16" where
  "hton16 LittleEndian x = badvpn_reverse16 LittleEndian x"
| "hton16 BigEndian x = x"

fun hton32 :: "endian \<Rightarrow> u32 \<Rightarrow> u32" where
  "hton32 LittleEndian x = badvpn_reverse32 LittleEndian x"
| "hton32 BigEndian x = x"

fun hton64 :: "endian \<Rightarrow> u64 \<Rightarrow> u64" where
  "hton64 LittleEndian x = badvpn_reverse64 LittleEndian x"
| "hton64 BigEndian x = x"

fun htol16 :: "endian \<Rightarrow> u16 \<Rightarrow> u16" where
  "htol16 LittleEndian x = x"
| "htol16 BigEndian x = badvpn_reverse16 BigEndian x"

fun htol32 :: "endian \<Rightarrow> u32 \<Rightarrow> u32" where
  "htol32 LittleEndian x = x"
| "htol32 BigEndian x = badvpn_reverse32 BigEndian x"

fun htol64 :: "endian \<Rightarrow> u64 \<Rightarrow> u64" where
  "htol64 LittleEndian x = x"
| "htol64 BigEndian x = badvpn_reverse64 BigEndian x"

definition ntoh8 :: "u8 \<Rightarrow> u8" where "ntoh8 x = hton8 x"
definition ntoh16 :: "endian \<Rightarrow> u16 \<Rightarrow> u16" where "ntoh16 e x = hton16 e x"
definition ntoh32 :: "endian \<Rightarrow> u32 \<Rightarrow> u32" where "ntoh32 e x = hton32 e x"
definition ntoh64 :: "endian \<Rightarrow> u64 \<Rightarrow> u64" where "ntoh64 e x = hton64 e x"
definition ltoh8 :: "u8 \<Rightarrow> u8" where "ltoh8 x = htol8 x"
definition ltoh16 :: "endian \<Rightarrow> u16 \<Rightarrow> u16" where "ltoh16 e x = htol16 e x"
definition ltoh32 :: "endian \<Rightarrow> u32 \<Rightarrow> u32" where "ltoh32 e x = htol32 e x"
definition ltoh64 :: "endian \<Rightarrow> u64 \<Rightarrow> u64" where "ltoh64 e x = htol64 e x"

section \<open>Codecs\<close>

text \<open>
  What every pair of a read and a write function promises: reading what was written gives
  the value back, whatever follows it; writing what was read gives the bytes back; the
  read fails exactly on a buffer that is too short.
\<close>

locale int_codec =
  fixes rd :: "bytes \<Rightarrow> 'a option" and wr :: "'a \<Rightarrow> bytes" and width :: nat
  assumes rd_wr: "rd (wr x @ rest) = Some x"
    and wr_rd: "rd bs = Some x \<Longrightarrow> wr x = take width bs"
    and wr_length: "length (wr x) = width"
    and rd_None_iff: "rd bs = None \<longleftrightarrow> length bs < width"
begin

lemma wr_inj: "wr x = wr y \<Longrightarrow> x = y"
  using rd_wr [of x "[]"] rd_wr [of y "[]"] by simp

lemma rd_total: "width \<le> length bs \<Longrightarrow> \<exists>x. rd bs = Some x"
  by (cases "rd bs") (auto simp: rd_None_iff)

lemma rd_take: "width \<le> length bs \<Longrightarrow> rd (take width bs) = rd bs"
proof -
  assume "width \<le> length bs"
  then obtain x where x: "rd bs = Some x" using rd_total by blast
  then have "take width bs = wr x" by (rule wr_rd [symmetric])
  then show ?thesis using rd_wr [of x "[]"] x by simp
qed

lemma concat_wr_length: "length (concat (map wr xs)) = width * length xs"
  by (induction xs) (auto simp: wr_length)

lemma rd_concat_nth:
  "i < length xs \<Longrightarrow> rd (drop (width * i) (concat (map wr xs))) = Some (xs ! i)"
proof (induction xs arbitrary: i)
  case (Cons x xs)
  show ?case
  proof (cases i)
    case 0
    then show ?thesis by (simp add: rd_wr)
  next
    case (Suc j)
    then have IH: "rd (drop (width * j) (concat (map wr xs))) = Some (xs ! j)"
      using Cons.prems by (intro Cons.IH) simp
    have "drop (width * i) (concat (map wr (x # xs))) = drop (width * j) (concat (map wr xs))"
      using Suc by (simp add: wr_length)
    then show ?thesis using Suc IH by (simp only: nth_Cons_Suc)
  qed
qed simp

end

text \<open>The bytes of a word, put back together from the lowest, are the word.\<close>

lemma byte_step:
  "push_bit k (ucast (ucast (drop_bit k x) :: u8)) OR take_bit k x = take_bit (k + 8) (x :: 'a::len word)"
proof (rule bit_word_eqI)
  fix n
  show "bit (push_bit k (ucast (ucast (drop_bit k x) :: u8)) OR take_bit k x) n = bit (take_bit (k + 8) x) n"
    by (cases "n < k") (auto simp: bit_simps dest: bit_imp_le_length)
qed

lemma low_byte: "ucast (ucast x :: u8) = take_bit 8 (x :: 'a::len word)"
  by (rule bit_word_eqI) (auto simp: bit_simps dest: bit_imp_le_length)

lemma take_bit_full [simp]:
  "take_bit 16 (x :: u16) = x" "take_bit 32 (y :: u32) = y" "take_bit 64 (z :: u64) = z"
  by (rule bit_word_eqI; simp add: bit_simps)+

lemma join16: "push_bit 8 (ucast (ucast (drop_bit 8 x) :: u8)) OR ucast (ucast x :: u8) = (x :: u16)"
  by (simp only: low_byte [of x] byte_step add_numeral_special numeral_plus_numeral add_num_simps take_bit_full)

lemma join32:
  "push_bit 24 (ucast (ucast (drop_bit 24 x) :: u8)) OR push_bit 16 (ucast (ucast (drop_bit 16 x) :: u8)) OR
   push_bit 8 (ucast (ucast (drop_bit 8 x) :: u8)) OR ucast (ucast x :: u8) = (x :: u32)"
  by (simp only: low_byte [of x] byte_step add_numeral_special numeral_plus_numeral add_num_simps take_bit_full)

lemma join64:
  "push_bit 56 (ucast (ucast (drop_bit 56 x) :: u8)) OR push_bit 48 (ucast (ucast (drop_bit 48 x) :: u8)) OR
   push_bit 40 (ucast (ucast (drop_bit 40 x) :: u8)) OR push_bit 32 (ucast (ucast (drop_bit 32 x) :: u8)) OR
   push_bit 24 (ucast (ucast (drop_bit 24 x) :: u8)) OR push_bit 16 (ucast (ucast (drop_bit 16 x) :: u8)) OR
   push_bit 8 (ucast (ucast (drop_bit 8 x) :: u8)) OR ucast (ucast x :: u8) = (x :: u64)"
  by (simp only: low_byte [of x] byte_step add_numeral_special numeral_plus_numeral add_num_simps take_bit_full)

text \<open>A byte shifted into place and cut out again is the byte.\<close>

lemma bit_byte_beyond: "8 \<le> n \<Longrightarrow> bit (b :: u8) n = False"
  by (auto dest: bit_imp_le_length)

lemma split16:
  "ucast (drop_bit 8 (push_bit 8 (ucast a) OR ucast b :: u16)) = (a :: u8)"
  "ucast (push_bit 8 (ucast a) OR ucast b :: u16) = (b :: u8)"
  by (rule bit_word_eqI; simp add: bit_simps bit_byte_beyond)+

lemma split32:
  "ucast (drop_bit 24 (push_bit 24 (ucast a) OR push_bit 16 (ucast b) OR push_bit 8 (ucast c) OR ucast d :: u32)) = (a :: u8)"
  "ucast (drop_bit 16 (push_bit 24 (ucast a) OR push_bit 16 (ucast b) OR push_bit 8 (ucast c) OR ucast d :: u32)) = (b :: u8)"
  "ucast (drop_bit 8 (push_bit 24 (ucast a) OR push_bit 16 (ucast b) OR push_bit 8 (ucast c) OR ucast d :: u32)) = (c :: u8)"
  "ucast (push_bit 24 (ucast a) OR push_bit 16 (ucast b) OR push_bit 8 (ucast c) OR ucast d :: u32) = (d :: u8)"
  by (rule bit_word_eqI; simp add: bit_simps bit_byte_beyond)+

lemma split64:
  fixes a b c d e f g h :: u8
  defines "w \<equiv> (push_bit 56 (ucast a) OR push_bit 48 (ucast b) OR push_bit 40 (ucast c) OR push_bit 32 (ucast d) OR
    push_bit 24 (ucast e) OR push_bit 16 (ucast f) OR push_bit 8 (ucast g) OR ucast h :: u64)"
  shows "ucast (drop_bit 56 w) = a" "ucast (drop_bit 48 w) = b" "ucast (drop_bit 40 w) = c"
    "ucast (drop_bit 32 w) = d" "ucast (drop_bit 24 w) = e" "ucast (drop_bit 16 w) = f"
    "ucast (drop_bit 8 w) = g" "ucast w = h"
  unfolding w_def by (rule bit_word_eqI; simp add: bit_simps bit_byte_beyond)+

interpretation be16: int_codec badvpn_read_be16 badvpn_write_be16 2
proof unfold_locales
  fix x rest bs
  show "badvpn_read_be16 (badvpn_write_be16 x @ rest) = Some x"
    by (simp only: badvpn_write_be16_def append_Cons badvpn_read_be16.simps join16)
  show "badvpn_read_be16 bs = Some x \<Longrightarrow> badvpn_write_be16 x = take 2 bs"
    by (cases bs rule: badvpn_read_be16.cases) (auto simp: badvpn_write_be16_def split16 simp del: drop_bit_or)
  show "length (badvpn_write_be16 x) = 2"
    by (simp add: badvpn_write_be16_def)
  show "badvpn_read_be16 bs = None \<longleftrightarrow> length bs < 2"
    by (cases bs rule: badvpn_read_be16.cases) auto
qed

interpretation le16: int_codec badvpn_read_le16 badvpn_write_le16 2
proof unfold_locales
  fix x rest bs
  show "badvpn_read_le16 (badvpn_write_le16 x @ rest) = Some x"
    by (simp only: badvpn_write_le16_def append_Cons badvpn_read_le16.simps join16)
  show "badvpn_read_le16 bs = Some x \<Longrightarrow> badvpn_write_le16 x = take 2 bs"
    by (cases bs rule: badvpn_read_le16.cases) (auto simp: badvpn_write_le16_def split16 simp del: drop_bit_or)
  show "length (badvpn_write_le16 x) = 2"
    by (simp add: badvpn_write_le16_def)
  show "badvpn_read_le16 bs = None \<longleftrightarrow> length bs < 2"
    by (cases bs rule: badvpn_read_le16.cases) auto
qed

interpretation be32: int_codec badvpn_read_be32 badvpn_write_be32 4
proof unfold_locales
  fix x rest bs
  show "badvpn_read_be32 (badvpn_write_be32 x @ rest) = Some x"
    by (simp only: badvpn_write_be32_def append_Cons badvpn_read_be32.simps join32)
  show "badvpn_read_be32 bs = Some x \<Longrightarrow> badvpn_write_be32 x = take 4 bs"
    by (cases bs rule: badvpn_read_be32.cases) (auto simp: badvpn_write_be32_def split32 simp del: drop_bit_or)
  show "length (badvpn_write_be32 x) = 4"
    by (simp add: badvpn_write_be32_def)
  show "badvpn_read_be32 bs = None \<longleftrightarrow> length bs < 4"
    by (cases bs rule: badvpn_read_be32.cases) auto
qed

interpretation le32: int_codec badvpn_read_le32 badvpn_write_le32 4
proof unfold_locales
  fix x rest bs
  show "badvpn_read_le32 (badvpn_write_le32 x @ rest) = Some x"
    by (simp only: badvpn_write_le32_def append_Cons badvpn_read_le32.simps join32)
  show "badvpn_read_le32 bs = Some x \<Longrightarrow> badvpn_write_le32 x = take 4 bs"
    by (cases bs rule: badvpn_read_le32.cases) (auto simp: badvpn_write_le32_def split32 simp del: drop_bit_or)
  show "length (badvpn_write_le32 x) = 4"
    by (simp add: badvpn_write_le32_def)
  show "badvpn_read_le32 bs = None \<longleftrightarrow> length bs < 4"
    by (cases bs rule: badvpn_read_le32.cases) auto
qed

interpretation be64: int_codec badvpn_read_be64 badvpn_write_be64 8
proof unfold_locales
  fix x rest bs
  show "badvpn_read_be64 (badvpn_write_be64 x @ rest) = Some x"
    by (simp only: badvpn_write_be64_def append_Cons badvpn_read_be64.simps join64)
  show "badvpn_read_be64 bs = Some x \<Longrightarrow> badvpn_write_be64 x = take 8 bs"
    by (cases bs rule: badvpn_read_be64.cases) (auto simp: badvpn_write_be64_def split64 simp del: drop_bit_or)
  show "length (badvpn_write_be64 x) = 8"
    by (simp add: badvpn_write_be64_def)
  show "badvpn_read_be64 bs = None \<longleftrightarrow> length bs < 8"
    by (cases bs rule: badvpn_read_be64.cases) auto
qed

interpretation le64: int_codec badvpn_read_le64 badvpn_write_le64 8
proof unfold_locales
  fix x rest bs
  show "badvpn_read_le64 (badvpn_write_le64 x @ rest) = Some x"
    by (simp only: badvpn_write_le64_def append_Cons badvpn_read_le64.simps join64)
  show "badvpn_read_le64 bs = Some x \<Longrightarrow> badvpn_write_le64 x = take 8 bs"
    by (cases bs rule: badvpn_read_le64.cases) (auto simp: badvpn_write_le64_def split64 simp del: drop_bit_or)
  show "length (badvpn_write_le64 x) = 8"
    by (simp add: badvpn_write_le64_def)
  show "badvpn_read_le64 bs = None \<longleftrightarrow> length bs < 8"
    by (cases bs rule: badvpn_read_le64.cases) auto
qed

lemmas codec_wire [wire_simps] =
  be16.rd_wr be32.rd_wr be64.rd_wr le16.rd_wr le32.rd_wr le64.rd_wr
lemmas codec_length [simp] =
  be16.wr_length be32.wr_length be64.wr_length le16.wr_length le32.wr_length le64.wr_length

section \<open>Host and network order\<close>

lemma mem_write:
  "mem16 LittleEndian = badvpn_write_le16" "mem16 BigEndian = badvpn_write_be16"
  "mem32 LittleEndian = badvpn_write_le32" "mem32 BigEndian = badvpn_write_be32"
  "mem64 LittleEndian = badvpn_write_le64" "mem64 BigEndian = badvpn_write_be64"
  by (simp_all add: fun_eq_iff badvpn_write_le16_def badvpn_write_be16_def badvpn_write_le32_def
      badvpn_write_be32_def badvpn_write_le64_def badvpn_write_be64_def)

lemma load_mem [simp]:
  "load16 e (mem16 e x) = Some x" "load32 e (mem32 e y) = Some y" "load64 e (mem64 e z) = Some z"
  by (cases e; simp only: mem16.simps mem32.simps mem64.simps load16.simps load32.simps load64.simps
      badvpn_read_le16.simps badvpn_read_be16.simps badvpn_read_le32.simps badvpn_read_be32.simps
      badvpn_read_le64.simps badvpn_read_be64.simps join16 join32 join64)+

lemma mem_load:
  "load16 e bs = Some x \<Longrightarrow> mem16 e x = take 2 bs"
  "load32 e bs = Some y \<Longrightarrow> mem32 e y = take 4 bs"
  "load64 e bs = Some z \<Longrightarrow> mem64 e z = take 8 bs"
  by (cases e; simp add: mem_write be16.wr_rd le16.wr_rd be32.wr_rd le32.wr_rd be64.wr_rd le64.wr_rd
      del: mem16.simps mem32.simps mem64.simps)+

lemma mem_length [simp]: "length (mem16 e x) = 2" "length (mem32 e y) = 4" "length (mem64 e z) = 8"
  by (cases e; simp)+

lemma load_total:
  "length bs = 2 \<Longrightarrow> \<exists>x. load16 e bs = Some x"
  "length bs = 4 \<Longrightarrow> \<exists>y. load32 e bs = Some y"
  "length bs = 8 \<Longrightarrow> \<exists>z. load64 e bs = Some z"
  by (cases e; simp add: be16.rd_total le16.rd_total be32.rd_total le32.rd_total be64.rd_total le64.rd_total)+

lemma reverse_alt:
  "badvpn_reverse16 e x = the (load16 e (rev (mem16 e x)))"
  "badvpn_reverse32 e y = the (load32 e (rev (mem32 e y)))"
  "badvpn_reverse64 e z = the (load64 e (rev (mem64 e z)))"
  by (cases e; simp add: badvpn_reverse16_def badvpn_reverse32_def badvpn_reverse64_def Let_def
      del: load16.simps load32.simps load64.simps)+

lemma reverse_mem:
  "mem16 e (badvpn_reverse16 e x) = rev (mem16 e x)"
  "mem32 e (badvpn_reverse32 e y) = rev (mem32 e y)"
  "mem64 e (badvpn_reverse64 e z) = rev (mem64 e z)"
proof -
  show "mem16 e (badvpn_reverse16 e x) = rev (mem16 e x)"
    using load_total(1) [of "rev (mem16 e x)" e] mem_load(1) [of e "rev (mem16 e x)"]
    by (auto simp: reverse_alt)
  show "mem32 e (badvpn_reverse32 e y) = rev (mem32 e y)"
    using load_total(2) [of "rev (mem32 e y)" e] mem_load(2) [of e "rev (mem32 e y)"]
    by (auto simp: reverse_alt)
  show "mem64 e (badvpn_reverse64 e z) = rev (mem64 e z)"
    using load_total(3) [of "rev (mem64 e z)" e] mem_load(3) [of e "rev (mem64 e z)"]
    by (auto simp: reverse_alt)
qed

lemma mem_inj:
  "mem16 e x = mem16 e x' \<Longrightarrow> x = x'" "mem32 e y = mem32 e y' \<Longrightarrow> y = y'" "mem64 e z = mem64 e z' \<Longrightarrow> z = z'"
  by (metis load_mem(1) option.inject, metis load_mem(2) option.inject, metis load_mem(3) option.inject)

lemma reverse_reverse:
  "badvpn_reverse16 e (badvpn_reverse16 e x) = x"
  "badvpn_reverse32 e (badvpn_reverse32 e y) = y"
  "badvpn_reverse64 e (badvpn_reverse64 e z) = z"
  by (rule mem_inj [of e]; simp add: reverse_mem)+

lemma mem_rev_write:
  "rev (mem16 LittleEndian x) = badvpn_write_be16 x" "rev (mem16 BigEndian x) = badvpn_write_le16 x"
  "rev (mem32 LittleEndian y) = badvpn_write_be32 y" "rev (mem32 BigEndian y) = badvpn_write_le32 y"
  "rev (mem64 LittleEndian z) = badvpn_write_be64 z" "rev (mem64 BigEndian z) = badvpn_write_le64 z"
  by (simp_all add: badvpn_write_le16_def badvpn_write_be16_def badvpn_write_le32_def
      badvpn_write_be32_def badvpn_write_le64_def badvpn_write_be64_def)

lemma hton_mem:
  "mem16 e (hton16 e x) = badvpn_write_be16 x"
  "mem32 e (hton32 e y) = badvpn_write_be32 y"
  "mem64 e (hton64 e z) = badvpn_write_be64 z"
  by (cases e, simp only: hton16.simps hton32.simps hton64.simps reverse_mem mem_rev_write,
      simp only: hton16.simps hton32.simps hton64.simps mem_write)+

lemma htol_mem:
  "mem16 e (htol16 e x) = badvpn_write_le16 x"
  "mem32 e (htol32 e y) = badvpn_write_le32 y"
  "mem64 e (htol64 e z) = badvpn_write_le64 z"
  by (cases e, simp only: htol16.simps htol32.simps htol64.simps mem_write,
      simp only: htol16.simps htol32.simps htol64.simps reverse_mem mem_rev_write)+

lemma ntoh_hton:
  "ntoh16 e (hton16 e x) = x" "ntoh32 e (hton32 e y) = y" "ntoh64 e (hton64 e z) = z"
  by (cases e; simp add: ntoh16_def ntoh32_def ntoh64_def reverse_reverse)+

lemma ltoh_htol:
  "ltoh16 e (htol16 e x) = x" "ltoh32 e (htol32 e y) = y" "ltoh64 e (htol64 e z) = z"
  by (cases e; simp add: ltoh16_def ltoh32_def ltoh64_def reverse_reverse)+

lemma ntoh_load:
  "map_option (ntoh16 e) (load16 e bs) = badvpn_read_be16 bs"
proof (cases "load16 e bs")
  case None
  then have "badvpn_read_be16 bs = None"
    by (cases e) (auto simp: be16.rd_None_iff le16.rd_None_iff)
  then show ?thesis using None by simp
next
  case (Some y)
  have two: "2 \<le> length bs"
    using Some be16.rd_None_iff [of bs] le16.rd_None_iff [of bs] by (cases e) auto
  have y: "y = hton16 e (ntoh16 e y)"
    by (cases e) (simp_all add: ntoh16_def reverse_reverse)
  have "badvpn_write_be16 (ntoh16 e y) = take 2 bs"
    using mem_load(1) [OF Some] y hton_mem(1) [of e "ntoh16 e y"] by simp
  then have "badvpn_read_be16 (take 2 bs) = Some (ntoh16 e y)"
    using be16.rd_wr [of "ntoh16 e y" "[]"] by simp
  then show ?thesis using Some two by (simp add: be16.rd_take)
qed

lemma unat_byte_less: "unat (b :: u8) < 256"
  using unsigned_less [of b] by simp

lemma unat_u16_le: "unat (c :: u16) \<le> 65535"
  using unsigned_less [of c, where ?'a = nat] by simp

lemma unat_be16:
  "unat (push_bit 8 (ucast a) OR ucast b :: u16) = 256 * unat (a :: u8) + unat (b :: u8)"
proof -
  have "(push_bit 8 (ucast a) OR ucast b :: u16) = push_bit 8 (ucast a) + ucast b"
    by (rule disjunctive_add [symmetric]) (auto simp: bit_simps bit_byte_beyond)
  then show ?thesis
    using unat_byte_less [of a] unat_byte_less [of b]
    by (simp add: push_bit_eq_mult unat_word_ariths unsigned_ucast_eq take_bit_nat_eq_self)
qed

lemma load16_total: "i + 2 \<le> length bs \<Longrightarrow> \<exists>x. load16 e (drop i bs) = Some x"
  using be16.rd_total [of "drop i bs"] le16.rd_total [of "drop i bs"] by (cases e) auto

lemma load32_total: "i + 4 \<le> length bs \<Longrightarrow> \<exists>x. load32 e (drop i bs) = Some x"
  using be32.rd_total [of "drop i bs"] le32.rd_total [of "drop i bs"] by (cases e) auto

lemma ntoh16_load_bytes:
  assumes "i + 2 \<le> length bs"
  shows "\<exists>x. load16 e (drop i bs) = Some x \<and> unat (ntoh16 e x) = 256 * unat (bs ! i) + unat (bs ! Suc i)"
proof -
  obtain x where x: "load16 e (drop i bs) = Some x" using load16_total [OF assms] by blast
  have "drop i bs = bs ! i # bs ! Suc i # drop (i + 2) bs"
    using assms by (simp add: Cons_nth_drop_Suc)
  then have "badvpn_read_be16 (drop i bs) = Some (push_bit 8 (ucast (bs ! i)) OR ucast (bs ! Suc i))" by simp
  then show ?thesis using x ntoh_load(1) [of e "drop i bs"] by (auto simp: unat_be16)
qed

text \<open>
  On a host of either byte order, the memory image of a value converted with
  \<open>hton16\<close>, \<open>hton32\<close> or \<open>hton64\<close> is the big-endian encoding that
  \<open>badvpn_write_be\<close> produces, that of a value converted with \<open>htol\<close> is the little-endian
  one, and the \<open>ntoh\<close> and \<open>ltoh\<close> functions undo the conversion.
\<close>

lemma byte_order_wire_format:
  "mem16 e (hton16 e x) = badvpn_write_be16 x \<and> mem32 e (hton32 e y) = badvpn_write_be32 y \<and>
   mem64 e (hton64 e z) = badvpn_write_be64 z \<and> mem16 e (htol16 e x) = badvpn_write_le16 x \<and>
   mem32 e (htol32 e y) = badvpn_write_le32 y \<and> mem64 e (htol64 e z) = badvpn_write_le64 z \<and>
   ntoh16 e (hton16 e x) = x \<and> ntoh32 e (hton32 e y) = y \<and> ntoh64 e (hton64 e z) = z \<and>
   ltoh16 e (htol16 e x) = x \<and> ltoh32 e (htol32 e y) = y \<and> ltoh64 e (htol64 e z) = z"
  by (simp only: hton_mem htol_mem ntoh_hton ltoh_htol simp_thms)

text \<open>
  The read and write functions of \<open>read_write_int.h\<close> are inverse to each other in both
  directions: a written value is read back whatever bytes follow it, and what a read
  returns encodes to exactly the bytes that were read.
\<close>

lemma read_write_int_inverse:
  "badvpn_read_be16 (badvpn_write_be16 x @ r) = Some x \<and> badvpn_read_le16 (badvpn_write_le16 x @ r) = Some x \<and>
   badvpn_read_be32 (badvpn_write_be32 y @ r) = Some y \<and> badvpn_read_le32 (badvpn_write_le32 y @ r) = Some y \<and>
   badvpn_read_be64 (badvpn_write_be64 z @ r) = Some z \<and> badvpn_read_le64 (badvpn_write_le64 z @ r) = Some z \<and>
   map_option badvpn_write_be16 (badvpn_read_be16 bs) = (if 2 \<le> length bs then Some (take 2 bs) else None) \<and>
   map_option badvpn_write_be32 (badvpn_read_be32 bs) = (if 4 \<le> length bs then Some (take 4 bs) else None) \<and>
   map_option badvpn_write_be64 (badvpn_read_be64 bs) = (if 8 \<le> length bs then Some (take 8 bs) else None)"
proof -
  have "map_option badvpn_write_be16 (badvpn_read_be16 bs) = (if 2 \<le> length bs then Some (take 2 bs) else None)"
    by (cases "badvpn_read_be16 bs") (use be16.rd_None_iff [of bs] be16.wr_rd [of bs] in auto)
  moreover have "map_option badvpn_write_be32 (badvpn_read_be32 bs) = (if 4 \<le> length bs then Some (take 4 bs) else None)"
    by (cases "badvpn_read_be32 bs") (use be32.rd_None_iff [of bs] be32.wr_rd [of bs] in auto)
  moreover have "map_option badvpn_write_be64 (badvpn_read_be64 bs) = (if 8 \<le> length bs then Some (take 8 bs) else None)"
    by (cases "badvpn_read_be64 bs") (use be64.rd_None_iff [of bs] be64.wr_rd [of bs] in auto)
  ultimately show ?thesis by (simp only: codec_wire simp_thms)
qed

end
