(* ===== verification/Stun.thy ===== *)
theory Stun
  imports Byte_Order
begin

text \<open>
  The STUN client (\<open>ministun.c\<close>): the walk over the attributes of a response and the
  request with its retries. The code is built with \<open>STUN_BINDREQ_PROCESS\<close> undefined, so
  there is no username and no reply. A buffer is a list of bytes; an access outside of it
  is \<^term>\<open>None\<close>. Diagnostics on the error stream are left out. The sockets and the
  random numbers are parameters: \<open>ids\<close> are the four random words, and \<open>attempts\<close> says what
  \<open>sendto\<close>, \<open>select\<close> and \<open>recvfrom\<close> answer in each retry.
\<close>

section \<open>Names\<close>

fun stun_msg2str :: "nat \<Rightarrow> string" where
  "stun_msg2str msg =
     (case map_of [(0x0001, ''Binding Request''), (0x0101, ''Binding Response''),
        (0x0111, ''Binding Error Response''), (0x0002, ''Shared Secret Request''),
        (0x0102, ''Shared Secret Response''), (0x0112, ''Shared Secret Error Response'')] msg of
        Some s \<Rightarrow> s | None \<Rightarrow> ''Non-RFC3489 Message'')"

fun stun_attr2str :: "nat \<Rightarrow> string" where
  "stun_attr2str msg =
     (case map_of [(0x0001, ''Mapped Address''), (0x0002, ''Response Address''),
        (0x0003, ''Change Request''), (0x0004, ''Source Address''), (0x0005, ''Changed Address''),
        (0x0006, ''Username''), (0x0007, ''Password''), (0x0008, ''Message Integrity''),
        (0x0009, ''Error Code''), (0x000a, ''Unknown Attributes''), (0x000b, ''Reflected From'')] msg of
        Some s \<Rightarrow> s | None \<Rightarrow> ''Non-RFC3489 Attribute'')"

section \<open>Handling a response\<close>

record sockaddr_in =
  sin_port :: u16
  sin_addr :: u32

abbreviation STUN_BINDREQ :: u16 where "STUN_BINDREQ \<equiv> 0x0001"
abbreviation STUN_MAPPED_ADDRESS :: u16 where "STUN_MAPPED_ADDRESS \<equiv> 0x0001"

definition stun_get_mapped :: "endian \<Rightarrow> bytes \<Rightarrow> nat \<Rightarrow> sockaddr_in \<Rightarrow> sockaddr_in option" where
  \<comment> \<open>the callback, on the attribute at position \<open>pos\<close> of the buffer\<close>
  "stun_get_mapped e buf pos sa =
     do { ty \<leftarrow> load16 e (drop pos buf);
          if ntoh16 e ty \<noteq> STUN_MAPPED_ADDRESS then Some sa
          else do {
            l \<leftarrow> load16 e (drop (pos + 2) buf);
            if ntoh16 e l \<noteq> 8 then Some sa
            else do {
              port \<leftarrow> load16 e (drop (pos + 6) buf);
              ip \<leftarrow> load32 e (drop (pos + 8) buf);
              Some (sa\<lparr>sin_port := port, sin_addr := ip\<rparr>) } } }"

function stun_attrs :: "endian \<Rightarrow> bytes \<Rightarrow> nat \<Rightarrow> nat \<Rightarrow> sockaddr_in \<Rightarrow> (bytes \<times> nat \<times> nat \<times> sockaddr_in) option" where
  \<comment> \<open>the loop: buffer, position, unprocessed length and the answer\<close>
  "stun_attrs e buf data len answer =
     (if len = 0 then Some (buf, data, len, answer)
      else if len < 4 then Some (buf, data, len, answer)
      else do {
        l \<leftarrow> load16 e (drop (data + 2) buf);
        let x = unat (ntoh16 e l) + 4 in
        if x > len then Some (buf, data, len, answer)
        else do {
          answer \<leftarrow> stun_get_mapped e buf data answer;
          buf \<leftarrow> overwrite buf data [0, 0];
          stun_attrs e buf (data + x) (len - x) answer } })"
  by pat_completeness auto
termination
  by (relation "measure (\<lambda>(_, _, _, len, _). len)") auto

declare stun_attrs.simps [simp del]

definition stun_handle_packet :: "endian \<Rightarrow> bytes \<Rightarrow> nat \<Rightarrow> sockaddr_in \<Rightarrow> (int \<times> bytes \<times> sockaddr_in) option" where
  "stun_handle_packet e buf len answer =
     (if len < 20 then Some (-1, buf, answer)
      else do {
        x \<leftarrow> load16 e (drop 2 buf);
        let len = len - 20;
            x = unat (ntoh16 e x);
            len = (if x > len then len else x)
        in do {
          (buf, data, _, answer) \<leftarrow> stun_attrs e buf 20 len answer;
          buf \<leftarrow> overwrite buf data [0];
          Some (0, buf, answer) } })"

section \<open>Requests\<close>

definition stun_req_bytes :: "endian \<Rightarrow> u32 list \<Rightarrow> bytes" where
  \<comment> \<open>the message that \<open>stun_send\<close> sends: the header alone\<close>
  "stun_req_bytes e ids =
     mem16 e (hton16 e STUN_BINDREQ) @ mem16 e (hton16 e 0) @ concat (map (mem32 e) ids)"

datatype recv_result = Recv_error int | Datagram bytes

record attempt =
  at_send :: int
  at_select :: int
  at_recv :: recv_result

definition recv_into :: "bytes \<Rightarrow> nat \<Rightarrow> bytes \<Rightarrow> bytes" where
  \<comment> \<open>\<open>recvfrom\<close>: at most \<open>n\<close> bytes of a datagram overwrite the start of the buffer\<close>
  "recv_into buf n dgram = take n dgram @ drop (length (take n dgram)) buf"

fun stun_loop :: "endian \<Rightarrow> bool \<Rightarrow> attempt list \<Rightarrow> bytes \<Rightarrow> nat \<Rightarrow> sockaddr_in \<Rightarrow> (int \<times> nat \<times> sockaddr_in) option" where
  \<comment> \<open>the remaining attempts, the reply buffer and the number of requests sent so far\<close>
  "stun_loop e wants_answer [] reply_buf sent answer = Some (-1, sent, answer)"
| "stun_loop e wants_answer (a # as) reply_buf sent answer =
     (if at_send a < 0 then stun_loop e wants_answer as reply_buf (sent + 1) answer
      else if \<not> wants_answer then Some (-1, sent + 1, answer)
      else if at_select a \<le> 0 then stun_loop e wants_answer as reply_buf (sent + 1) answer
      else case at_recv a of
          Recv_error r \<Rightarrow> stun_loop e wants_answer as reply_buf (sent + 1) answer
        | Datagram dgram \<Rightarrow>
            if dgram = [] then stun_loop e wants_answer as reply_buf (sent + 1) answer
            else do {
              (_, _, answer) \<leftarrow> stun_handle_packet e (recv_into reply_buf 1023 dgram)
                 (length (take 1023 dgram)) \<lparr>sin_port = 0, sin_addr = 0\<rparr>;
              Some (0, sent + 1, answer) })"

definition stun_request :: "endian \<Rightarrow> nat \<Rightarrow> bool \<Rightarrow> (nat \<Rightarrow> attempt) \<Rightarrow> bytes \<Rightarrow> sockaddr_in \<Rightarrow> (int \<times> nat \<times> sockaddr_in) option" where
  \<comment> \<open>\<open>attempts retry\<close> is what the sockets answer in each retry\<close>
  "stun_request e stuncount wants_answer attempts reply_buf answer =
     stun_loop e wants_answer (map attempts [0..<stuncount]) reply_buf 0 answer"

section \<open>Reference: the attributes of a message\<close>

function parse_attrs :: "bytes \<Rightarrow> (nat \<times> bytes) list" where
  \<comment> \<open>types and values of the well-formed attributes at the start of a byte string\<close>
  "parse_attrs bs =
     (case bs of
        t1 # t0 # l1 # l0 # rest \<Rightarrow>
          let n = 256 * unat l1 + unat l0 in
          if n > length rest then []
          else (256 * unat t1 + unat t0, take n rest) # parse_attrs (drop n rest)
      | _ \<Rightarrow> [])"
  by pat_completeness auto
termination
  by (relation "measure length") auto

declare parse_attrs.simps [simp del]

definition apply_attr :: "endian \<Rightarrow> nat \<times> bytes \<Rightarrow> sockaddr_in \<Rightarrow> sockaddr_in" where
  \<comment> \<open>a mapped address of eight bytes sets port and address, as they stand in memory\<close>
  "apply_attr e = (\<lambda>(ty, v) sa.
     if ty = 1 \<and> length v = 8
     then sa\<lparr>sin_port := the (load16 e (drop 2 v)), sin_addr := the (load32 e (drop 4 v))\<rparr>
     else sa)"

definition message_attrs :: "bytes \<Rightarrow> (nat \<times> bytes) list" where
  "message_attrs msg =
     (if length msg < 20 then []
      else parse_attrs (take (256 * unat (msg ! 2) + unat (msg ! 3)) (drop 20 msg)))"

section \<open>The walk over the attributes\<close>

lemma parse_attrs_Cons:
  "parse_attrs (t1 # t0 # l1 # l0 # rest) =
     (if length rest < 256 * unat l1 + unat l0 then []
      else (256 * unat t1 + unat t0, take (256 * unat l1 + unat l0) rest) #
           parse_attrs (drop (256 * unat l1 + unat l0) rest))"
  by (subst parse_attrs.simps) (simp add: Let_def)

lemma parse_attrs_short: "length bs < 4 \<Longrightarrow> parse_attrs bs = []"
  by (subst parse_attrs.simps) (auto split: list.splits)

lemma eight_split: "8 \<le> length xs \<Longrightarrow> \<exists>a b c d e f g h ys. xs = [a, b, c, d, e, f, g, h] @ ys"
  by (auto simp: numeral_eq_Suc Suc_le_length_iff)

text \<open>An attribute header in a buffer: its bytes, and what the host loads from them.\<close>

lemma drop_four:
  assumes "pos + 4 \<le> length buf"
  obtains t1 t0 l1 l0 where "drop pos buf = t1 # t0 # l1 # l0 # drop (pos + 4) buf"
    "\<exists>ty. load16 e (drop pos buf) = Some ty \<and> unat (ntoh16 e ty) = 256 * unat t1 + unat t0"
    "\<exists>l. load16 e (drop (pos + 2) buf) = Some l \<and> unat (ntoh16 e l) = 256 * unat l1 + unat l0"
proof -
  have "drop pos buf = buf ! pos # buf ! Suc pos # buf ! Suc (Suc pos) # buf ! Suc (Suc (Suc pos)) # drop (pos + 4) buf"
    using assms by (simp add: Cons_nth_drop_Suc numeral_eq_Suc)
  then show thesis
    using that ntoh16_load_bytes [of pos buf e] ntoh16_load_bytes [of "pos + 2" buf e] assms by force
qed

lemma get_mapped_apply:
  assumes buf: "drop pos buf = t1 # t0 # l1 # l0 # rest" "256 * unat l1 + unat l0 \<le> length rest"
    and ty: "load16 e (drop pos buf) = Some ty" "unat (ntoh16 e ty) = 256 * unat t1 + unat t0"
    and l: "load16 e (drop (pos + 2) buf) = Some l" "unat (ntoh16 e l) = 256 * unat l1 + unat l0"
  shows "stun_get_mapped e buf pos sa =
     Some (apply_attr e (256 * unat t1 + unat t0, take (256 * unat l1 + unat l0) rest) sa)"
proof (cases "ntoh16 e ty = 1 \<and> ntoh16 e l = 8")
  case True
  then have n: "256 * unat l1 + unat l0 = 8" "256 * unat t1 + unat t0 = 1"
    using l(2) ty(2) by simp_all
  have d: "drop (pos + k) buf = drop k (t1 # t0 # l1 # l0 # rest)" for k
    using buf(1) by (metis add.commute drop_drop)
  obtain a b c d' e' f g h rest' where r: "rest = [a, b, c, d', e', f, g, h] @ rest'"
    using eight_split [of rest] buf(2) n(1) by auto
  show ?thesis
    using True n ty l d [of 6] d [of 8] r
    by (cases e) (simp_all add: stun_get_mapped_def apply_attr_def)
next
  case False
  then have "\<not> (256 * unat t1 + unat t0 = 1 \<and> 256 * unat l1 + unat l0 = 8)"
    unfolding ty(2) [symmetric] l(2) [symmetric] by (simp add: word_unat_eq_iff)
  then show ?thesis
    using ty l False buf(2) by (auto simp: stun_get_mapped_def apply_attr_def)
qed

lemma stun_attrs_spec:
  "pos + len \<le> length buf \<Longrightarrow>
     \<exists>buf' pos' len'. stun_attrs e buf pos len sa =
        Some (buf', pos', len', fold (apply_attr e) (parse_attrs (take len (drop pos buf))) sa) \<and>
        length buf' = length buf \<and> pos' + len' = pos + len"
proof (induction len arbitrary: buf pos sa rule: less_induct)
  case (less len)
  show ?case
  proof (cases "len < 4")
    case True
    then show ?thesis
      by (cases "len = 0") (simp_all add: stun_attrs.simps [of e buf] parse_attrs_short)
  next
    case False
    then have "pos + 4 \<le> length buf" using less.prems by simp
    then obtain t1 t0 l1 l0 ty l where d: "drop pos buf = t1 # t0 # l1 # l0 # drop (pos + 4) buf"
        and ty: "load16 e (drop pos buf) = Some ty" "unat (ntoh16 e ty) = 256 * unat t1 + unat t0"
        and l: "load16 e (drop (pos + 2) buf) = Some l" "unat (ntoh16 e l) = 256 * unat l1 + unat l0"
      by (metis drop_four)
    define n where "n = 256 * unat l1 + unat l0"
    have take: "take len (drop pos buf) = t1 # t0 # l1 # l0 # take (len - 4) (drop (pos + 4) buf)"
      using False by (subst d) (simp add: take_Cons' numeral_eq_Suc)
    have lrest: "length (take (len - 4) (drop (pos + 4) buf)) = len - 4" using less.prems by simp
    show ?thesis
    proof (cases "n + 4 > len")
      case True
      then have "parse_attrs (take len (drop pos buf)) = []"
        using False unfolding take parse_attrs_Cons lrest by (simp add: n_def less_diff_conv2)
      then show ?thesis
        using False True l by (simp add: stun_attrs.simps [of e buf] n_def)
    next
      case fits: False
      obtain buf1 where b: "overwrite buf pos [0, 0] = Some buf1"
        using less.prems False overwrite_total [of pos "[0, 0]" buf] by simp
      have buf1: "overwrite buf pos [0, 0] = Some buf1" "length buf1 = length buf"
          "drop (pos + (n + 4)) buf1 = drop (pos + (n + 4)) buf"
        using b overwrite_length [OF b] overwrite_drop [OF b] by simp_all
      let ?v = "(256 * unat t1 + unat t0, take n (drop (pos + 4) buf))"
      have mapped: "stun_get_mapped e buf pos sa = Some (apply_attr e ?v sa)"
        unfolding n_def using fits less.prems by (intro get_mapped_apply [OF d _ ty l]) (simp add: n_def)
      have "stun_attrs e buf pos len sa = stun_attrs e buf1 (pos + (n + 4)) (len - (n + 4)) (apply_attr e ?v sa)"
        using False fits l mapped buf1(1) by (simp add: stun_attrs.simps [of e buf] n_def Let_def)
      moreover have "parse_attrs (take len (drop pos buf)) =
          ?v # parse_attrs (take (len - (n + 4)) (drop (pos + (n + 4)) buf1))"
        unfolding take parse_attrs_Cons lrest n_def [symmetric] buf1(3) using fits
        by (simp add: drop_take min_def add.commute add.left_commute diff_diff_eq)
      ultimately show ?thesis
        using less.IH [of "len - (n + 4)" "pos + (n + 4)" buf1 "apply_attr e ?v sa"] fits less.prems buf1(2) False
        by auto
    qed
  qed
qed

lemma handle_packet_eq:
  assumes "len < length buf"
  shows "\<exists>buf'. stun_handle_packet e buf len answer =
     Some (if len < 20 then -1 else 0, buf', fold (apply_attr e) (message_attrs (take len buf)) answer) \<and>
     length buf' = length buf"
proof (cases "len < 20")
  case False
  obtain x where x: "load16 e (drop 2 buf) = Some x" "unat (ntoh16 e x) = 256 * unat (buf ! 2) + unat (buf ! 3)"
    using ntoh16_load_bytes [of 2 buf e] assms False by (auto simp: numeral_eq_Suc)
  define m where "m = (if unat (ntoh16 e x) > len - 20 then len - 20 else unat (ntoh16 e x))"
  have m: "20 + m \<le> len" unfolding m_def using False by (cases "unat (ntoh16 e x) > len - 20") auto
  obtain buf' pos' len' where r: "stun_attrs e buf 20 m answer =
      Some (buf', pos', len', fold (apply_attr e) (parse_attrs (take m (drop 20 buf))) answer)"
      "length buf' = length buf" "pos' + len' = 20 + m"
    using stun_attrs_spec [of 20 m buf e answer] m assms by auto
  have "take m (drop 20 buf) = take (unat (ntoh16 e x)) (take (len - 20) (drop 20 buf))"
    by (simp add: m_def min_def)
  then have "message_attrs (take len buf) = parse_attrs (take m (drop 20 buf))"
    using False assms x(2) by (simp add: message_attrs_def drop_take)
  moreover have "\<exists>buf2. overwrite buf' pos' [0] = Some buf2 \<and> length buf2 = length buf"
    using r(2,3) m assms by (simp add: overwrite_def)
  ultimately show ?thesis
    using False x(1) r(1) by (auto simp: stun_handle_packet_def Let_def m_def)
qed (auto simp: stun_handle_packet_def message_attrs_def)

text \<open>
  C17. On a datagram of at most \<open>length buf - 1\<close> bytes, \<open>stun_handle_packet\<close> terminates and
  touches nothing outside the buffer, the terminator it writes behind the message
  included, whatever lengths the message and its attributes claim. The answer it leaves is
  that of the last well-formed mapped address of the message; without one, and on a
  datagram shorter than a header, it leaves the answer alone.
\<close>

theorem stun_handle_packet_correct:
  assumes "len < length buf"
  shows "\<exists>buf'. stun_handle_packet e buf len answer =
     Some (if len < 20 then -1 else 0, buf', fold (apply_attr e) (message_attrs (take len buf)) answer) \<and>
     length buf' = length buf"
  using assms by (rule handle_packet_eq)

theorem stun_handle_packet_correct_witness:
  "\<exists>buf'. stun_handle_packet LittleEndian (replicate 64 0) 32 \<lparr>sin_port = 1, sin_addr = 2\<rparr> =
     Some (if (32 :: nat) < 20 then -1 else 0, buf',
       fold (apply_attr LittleEndian) (message_attrs (take 32 (replicate 64 0))) \<lparr>sin_port = 1, sin_addr = 2\<rparr>) \<and>
     length buf' = length (replicate 64 (0 :: u8))"
  by (rule stun_handle_packet_correct) simp

section \<open>Requests and retries\<close>

definition answered :: "attempt \<Rightarrow> bool" where
  \<comment> \<open>the request went out and a datagram came back\<close>
  "answered a \<longleftrightarrow> 0 \<le> at_send a \<and> 0 < at_select a \<and> (\<exists>d. at_recv a = Datagram d \<and> d \<noteq> [])"

fun dgram_of :: "recv_result \<Rightarrow> bytes" where
  "dgram_of (Datagram d) = d"
| "dgram_of (Recv_error _) = []"

lemma stun_loop_skip:
  assumes "\<not> answered a"
  shows "stun_loop e True (a # as) buf sent answer = stun_loop e True as buf (sent + 1) answer"
  using assms by (cases "at_recv a") (auto simp: answered_def)

lemma stun_loop_skip_all:
  "\<forall>a \<in> set as. \<not> answered a \<Longrightarrow>
     stun_loop e True (as @ bs) buf sent answer = stun_loop e True bs buf (sent + length as) answer"
  by (induction as arbitrary: sent) (auto simp: stun_loop_skip simp del: stun_loop.simps(2))

lemma recv_into_props:
  assumes "length buf = 1024"
  shows "length (recv_into buf 1023 d) = 1024" "take (length (take 1023 d)) (recv_into buf 1023 d) = take 1023 d"
  using assms by (auto simp: recv_into_def min_def)

lemma stun_loop_answered:
  assumes "answered a" "length buf = 1024"
  shows "stun_loop e True (a # as) buf sent answer =
     Some (0, sent + 1, fold (apply_attr e) (message_attrs (take 1023 (dgram_of (at_recv a)))) \<lparr>sin_port = 0, sin_addr = 0\<rparr>)"
proof -
  obtain d where d: "at_recv a = Datagram d" "d \<noteq> []" using assms(1) by (auto simp: answered_def)
  let ?n = "length (take 1023 d)"
  have "?n < length (recv_into buf 1023 d)" using recv_into_props [OF assms(2)] by simp
  then obtain buf' where "stun_handle_packet e (recv_into buf 1023 d) ?n \<lparr>sin_port = 0, sin_addr = 0\<rparr> =
      Some (if ?n < 20 then -1 else 0, buf',
        fold (apply_attr e) (message_attrs (take ?n (recv_into buf 1023 d))) \<lparr>sin_port = 0, sin_addr = 0\<rparr>)"
    using handle_packet_eq by blast
  then show ?thesis
    using d assms recv_into_props [OF assms(2), of d] by (simp add: answered_def del: length_take)
qed

text \<open>
  C18. \<open>stun_request\<close> with an answer to fill: it sends one request per retry, at most
  \<open>stuncount\<close>, and stops at the first retry in which a datagram arrives, returning 0 with
  the mapped address of that datagram (port and address 0 when it has none, whatever the
  datagram holds); if none arrives in \<open>stuncount\<close> retries it returns -1 and leaves the
  answer alone. It never fails otherwise.
\<close>

theorem stun_request_outcome:
  assumes "length buf = 1024"
  shows "(if \<exists>k < stuncount. answered (attempts k)
      then \<exists>k < stuncount. answered (attempts k) \<and> (\<forall>j < k. \<not> answered (attempts j)) \<and>
        stun_request e stuncount True attempts buf answer =
          Some (0, k + 1, fold (apply_attr e) (message_attrs (take 1023 (dgram_of (at_recv (attempts k)))))
            \<lparr>sin_port = 0, sin_addr = 0\<rparr>)
      else stun_request e stuncount True attempts buf answer = Some (-1, stuncount, answer))"
proof (cases "\<exists>k < stuncount. answered (attempts k)")
  case True
  define k where "k = (LEAST k. answered (attempts k))"
  have k: "answered (attempts k)" "\<forall>j < k. \<not> answered (attempts j)" "k < stuncount"
    using True unfolding k_def by (auto intro: LeastI dest: not_less_Least intro: le_less_trans [OF Least_le])
  have "[0..<stuncount] = [0..<k] @ k # [Suc k..<stuncount]"
    using k(3) upt_add_eq_append [of 0 k "stuncount - k"] by (simp add: upt_conv_Cons)
  then have "stun_request e stuncount True attempts buf answer =
      stun_loop e True (attempts k # map attempts [Suc k..<stuncount]) buf k answer"
    using k(2) stun_loop_skip_all [of "map attempts [0..<k]" e _ buf 0 answer] by (simp add: stun_request_def)
  then show ?thesis
    using True k stun_loop_answered [OF k(1) assms] by auto
next
  case False
  then show ?thesis
    using stun_loop_skip_all [of "map attempts [0..<stuncount]" e "[]" buf 0 answer]
    by (simp add: stun_request_def)
qed

theorem stun_request_outcome_witness:
  "stun_request LittleEndian 3 True (\<lambda>_. \<lparr>at_send = 20, at_select = 0, at_recv = Recv_error (-1)\<rparr>)
     (replicate 1024 0) \<lparr>sin_port = 1, sin_addr = 2\<rparr> = Some (-1, 3, \<lparr>sin_port = 1, sin_addr = 2\<rparr>)"
  using stun_request_outcome [of "replicate 1024 0" 3
      "\<lambda>_. \<lparr>at_send = 20, at_select = 0, at_recv = Recv_error (-1)\<rparr>" LittleEndian "\<lparr>sin_port = 1, sin_addr = 2\<rparr>"]
  by (simp add: answered_def)

lemma stun_loop_no_answer: "\<exists>k. stun_loop e False as buf sent answer = Some (-1, k, answer) \<and> k \<le> sent + length as"
proof (induction as arbitrary: sent)
  case (Cons a as)
  then show ?case
  proof (cases "at_send a < 0")
    case True
    then show ?thesis using Cons [of "sent + 1"] by auto
  qed simp
qed simp

text \<open>
  Without an answer to fill, \<open>stun_request\<close> returns -1 whether or not its request
  could be sent, so the documented 0 on success never occurs. On the wire a request is a
  binding request with an empty body: the bytes 0, 1, 0, 0 and the 16 bytes of the
  transaction id, on a host of either byte order.
\<close>

lemma stun_request_no_answer:
  "(\<exists>k \<le> stuncount. stun_request e stuncount False attempts buf answer = Some (-1, k, answer)) \<and>
   stun_req_bytes e [i0, i1, i2, i3] = [0, 1, 0, 0] @ mem32 e i0 @ mem32 e i1 @ mem32 e i2 @ mem32 e i3"
  using stun_loop_no_answer [of e "map attempts [0..<stuncount]" buf 0 answer]
  by (auto simp: stun_request_def stun_req_bytes_def hton_mem badvpn_write_be16_def)

end
