(* ===== verification/Proxy.thy ===== *)
theory Proxy
  imports Stun
begin

text \<open>
  The measurement proxy (\<open>proxy.c\<close>) and the binding of its sockets (\<open>bind_public.c\<close>): ARP
  replies, relaying IP packets between the raw socket and the UDP tunnel, and the sets of
  descriptors of the main loop. Numbers in headers are kept as the host loads them, so the
  byte order \<open>e\<close> is an argument. The 65535 bytes of \<open>buffer\<close> keep what earlier datagrams
  left in them, and the code reads its headers there whatever the length of the datagram.
  Sockets are parameters: what they deliver is an argument of the step, what is sent is a
  list of actions. Accesses outside the objects are \<^term>\<open>None\<close>. The start of the
  program (arguments, interface lookup, STUN) is not modelled, nor its diagnostics.
\<close>

section \<open>Binding to the public address\<close>

datatype bind_addr = Bind_in u16 u32 | Bind_in6 u16 bytes | Bind_other int

abbreviation EINVAL :: int where "EINVAL \<equiv> 22"

definition is_addr_any :: "bind_addr \<Rightarrow> int" where
  "is_addr_any a =
     (case a of
        Bind_in _ ip \<Rightarrow> if ip = 0 then 1 else 0
      | Bind_in6 _ ip \<Rightarrow> if ip = replicate 16 0 then 1 else 0
      | Bind_other _ \<Rightarrow> -1)"

definition get_public_ip :: "(bind_addr \<Rightarrow> bind_addr option) \<Rightarrow> bind_addr \<Rightarrow> int \<times> bind_addr" where
  \<comment> \<open>\<open>lookup a\<close> is the first address that \<open>getaddrinfo\<close> finds for the host name in the family of \<open>a\<close>\<close>
  "get_public_ip lookup a =
     (case lookup a of
        None \<Rightarrow> (- EINVAL, a)
      | Some found \<Rightarrow>
          (case (a, found) of
             (Bind_in port _, Bind_in _ ip) \<Rightarrow> (0, Bind_in port ip)
           | (Bind_in6 port _, Bind_in6 _ ip) \<Rightarrow> (0, Bind_in6 port ip)
           | _ \<Rightarrow> (-1, a)))"

definition bind_public :: "(bind_addr \<Rightarrow> bind_addr option) \<Rightarrow> (bind_addr \<Rightarrow> int) \<Rightarrow> bind_addr \<Rightarrow> int \<times> bind_addr list" where
  \<comment> \<open>the result and the addresses passed to \<open>bind\<close>, in order\<close>
  "bind_public lookup do_bind a =
     (if is_addr_any a > 0 then
        (let (rc, new_addr) = get_public_ip lookup a;
             (rc, tried, calls) =
               (if rc = - EINVAL then (do_bind new_addr, True, [new_addr])
                else if rc \<noteq> 0 then (-1, False, [])
                else (rc, False, []))
         in if rc = 0 \<and> \<not> tried then (do_bind new_addr, calls @ [new_addr]) else (rc, calls))
      else (do_bind a, [a]))"

section \<open>ARP\<close>

definition arp_reply :: "endian \<Rightarrow> bytes \<Rightarrow> u32 \<Rightarrow> bytes" where
  \<comment> \<open>Ethernet header (destination, source, type), then the ARP packet\<close>
  "arp_reply e mac ip =
     replicate 6 0xFF @ mac @ mem16 e (hton16 e 0x0806) @
     mem16 e (hton16 e 1) @ mem16 e (hton16 e 0x0800) @ [6, 4] @ mem16 e (hton16 e 2) @
     mac @ mem32 e ip @ mac @ mem32 e ip"

section \<open>State and actions\<close>

record proxy =
  px_sock_udp :: nat
  px_sock_raw_recv :: nat
  px_sock_raw_send :: nat
  px_port :: nat
  px_rport :: nat
  px_if_addr :: u32
  px_client_addr :: u32
  px_arp :: bytes
  px_buffer :: bytes
  px_fd_udp_port :: "nat list"
  px_maxfd :: nat
  px_rset :: "nat set"
  px_eof :: bool

datatype action =
    Send_arp bytes
  | Send_tunnel bytes
  | Send_raw bytes u32
  | Bind_fake u16
  | Drain nat

abbreviation ETH_P_IP :: u16 where "ETH_P_IP \<equiv> 0x0800"
abbreviation ETH_P_ARP :: u16 where "ETH_P_ARP \<equiv> 0x0806"
abbreviation IPPROTO_ICMP :: u8 where "IPPROTO_ICMP \<equiv> 1"
abbreviation IPPROTO_TCP :: u8 where "IPPROTO_TCP \<equiv> 6"
abbreviation IPPROTO_UDP :: u8 where "IPPROTO_UDP \<equiv> 17"

definition be_port :: "endian \<Rightarrow> u16 \<Rightarrow> nat" where
  \<comment> \<open>\<open>htons\<close> of a port in memory, compared with an \<open>int\<close>\<close>
  "be_port e p = unat (hton16 e p)"

section \<open>Frames from the raw socket\<close>

definition handle_arp :: "endian \<Rightarrow> proxy \<Rightarrow> (proxy \<times> action list) option" where
  "handle_arp e st =
     do { opcode \<leftarrow> load16 e (drop (14 + 6) (px_buffer st));
          if ntoh16 e opcode = 1 then do {
            target_ip \<leftarrow> subbytes (px_buffer st) (14 + 24) 4;
            if target_ip = mem32 e (px_if_addr st) then do {
              sender_mac \<leftarrow> subbytes (px_buffer st) (14 + 8) 6;
              arp \<leftarrow> overwrite (px_arp st) 0 sender_mac;
              Some (st\<lparr>px_arp := arp\<rparr>, [Send_arp arp]) }
            else Some (st, []) }
          else Some (st, []) }"

definition skip_packet :: "endian \<Rightarrow> proxy \<Rightarrow> bool option" where
  \<comment> \<open>the value of \<open>skip\<close> for the IP packet behind the Ethernet header\<close>
  "skip_packet e st =
     do { protocol \<leftarrow> byte_at (px_buffer st) (14 + 9);
          if protocol = IPPROTO_ICMP then Some False
          else if protocol = IPPROTO_TCP then Some True
          else if protocol = IPPROTO_UDP then do {
            saddr \<leftarrow> load32 e (drop (14 + 12) (px_buffer st));
            if saddr = px_client_addr st then do {
              source \<leftarrow> load16 e (drop (14 + 20) (px_buffer st));
              dest \<leftarrow> load16 e (drop (14 + 22) (px_buffer st));
              Some (be_port e source = px_rport st \<and> be_port e dest = px_port st) }
            else Some False }
          else Some False }"

definition handle_ip :: "endian \<Rightarrow> proxy \<Rightarrow> nat \<Rightarrow> (proxy \<times> action list) option" where
  "handle_ip e st recsize =
     do { daddr \<leftarrow> load32 e (drop (14 + 16) (px_buffer st));
          if daddr = px_if_addr st then do {
            skip \<leftarrow> skip_packet e st;
            if skip then Some (st, [])
            else do { cassert (14 \<le> recsize);
                      packet \<leftarrow> subbytes (px_buffer st) 14 (recsize - 14);
                      Some (st, [Send_tunnel packet]) } }
          else Some (st, []) }"

definition handle_raw :: "endian \<Rightarrow> proxy \<Rightarrow> bytes \<Rightarrow> (proxy \<times> action list) option" where
  \<comment> \<open>\<open>frame\<close> is what \<open>recvfrom\<close> delivers; empty for an error\<close>
  "handle_raw e st frame =
     (let st = st\<lparr>px_buffer := recv_into (px_buffer st) 65535 frame\<rparr>;
          recsize = length (take 65535 frame)
      in if recsize > 0 then do {
           h_proto \<leftarrow> load16 e (drop 12 (px_buffer st));
           if ntoh16 e h_proto = ETH_P_ARP then handle_arp e st
           else if ntoh16 e h_proto = ETH_P_IP then handle_ip e st recsize
           else Some (st, []) }
         else Some (st, []))"

section \<open>Datagrams from the tunnel\<close>

definition EXIT_text :: bytes where
  "EXIT_text = [0x45, 0x58, 0x49, 0x54]"

definition is_exit :: "bytes \<Rightarrow> bool" where
  \<comment> \<open>\<open>strcmp(buffer, "EXIT") == 0\<close>, which compares the terminator as well\<close>
  "is_exit buffer \<longleftrightarrow> take 5 buffer = EXIT_text @ [0]"

definition FD_SETSIZE :: nat where
  "FD_SETSIZE = 1024"

definition handle_udp_packet :: "endian \<Rightarrow> proxy \<Rightarrow> int \<Rightarrow> bytes \<Rightarrow> u32 \<Rightarrow> (proxy \<times> action list) option" where
  \<comment> \<open>\<open>fd\<close> is what \<open>socket\<close> returns\<close>
  "handle_udp_packet e st fd packet daddr =
     do { source \<leftarrow> load16 e (drop 20 (px_buffer st));
          dest \<leftarrow> load16 e (drop 22 (px_buffer st));
          cassert (0 \<le> fd \<and> nat fd < length (px_fd_udp_port st));
          Some (st\<lparr>px_fd_udp_port := (px_fd_udp_port st)[nat fd := be_port e dest], px_maxfd := nat fd\<rparr>,
                [Bind_fake source, Send_raw packet daddr]) }"

definition handle_tunnel :: "endian \<Rightarrow> proxy \<Rightarrow> bytes \<Rightarrow> int \<Rightarrow> (proxy \<times> action list) option" where
  "handle_tunnel e st dgram fd =
     (let st = st\<lparr>px_buffer := recv_into (px_buffer st) 65535 dgram\<rparr>;
          recsize = length (take 65535 dgram)
      in if recsize = 4 \<and> is_exit (px_buffer st) then Some (st\<lparr>px_eof := True\<rparr>, [])
         else if recsize > 0 then do {
           daddr \<leftarrow> load32 e (drop 16 (px_buffer st));
           protocol \<leftarrow> byte_at (px_buffer st) 9;
           packet \<leftarrow> subbytes (px_buffer st) 0 recsize;
           if protocol = IPPROTO_ICMP then Some (st, [Send_raw packet daddr])
           else if protocol = IPPROTO_TCP then Some (st, [])
           else if protocol = IPPROTO_UDP then handle_udp_packet e st fd packet daddr
           else Some (st, [Send_raw packet daddr]) }
         else Some (st\<lparr>px_eof := True\<rparr>, []))"

section \<open>The main loop\<close>

definition watched :: "proxy \<Rightarrow> nat set" where
  \<comment> \<open>the set passed to \<open>select\<close>: what is left in \<open>rset\<close>, the descriptors that are set again,
     and those of the loop from \<open>maxfd + 1\<close> to \<open>maxfd\<close>\<close>
  "watched st =
     px_rset st \<union> {px_sock_udp st, px_sock_raw_recv st, px_sock_raw_send st} \<union>
     set [px_maxfd st + 1..<px_maxfd st + 1]"

definition drain_fakes :: "proxy \<Rightarrow> action list" where
  "drain_fakes st =
     map Drain (filter (\<lambda>fd. fd \<in> px_rset st) [px_sock_raw_send st + 1..<px_maxfd st + 1])"

definition proxy_iteration :: "endian \<Rightarrow> proxy \<Rightarrow> nat set \<Rightarrow> bytes \<Rightarrow> bytes \<Rightarrow> int \<Rightarrow> (proxy \<times> action list) option" where
  \<comment> \<open>one pass: the ready descriptors, what the sockets deliver, and the descriptor of a new socket\<close>
  "proxy_iteration e st ready frame dgram fd =
     (let st = st\<lparr>px_rset := watched st \<inter> ready\<rparr> in
      do { (st, out1) \<leftarrow> (if px_sock_raw_recv st \<in> px_rset st then handle_raw e st frame else Some (st, []));
           (st, out2) \<leftarrow> (if px_sock_udp st \<in> px_rset st then handle_tunnel e st dgram fd else Some (st, []));
           Some (st, out1 @ out2 @ drain_fakes st) })"

fun proxy_run :: "endian \<Rightarrow> proxy \<Rightarrow> (nat set \<times> bytes \<times> bytes \<times> int) list \<Rightarrow> (proxy \<times> action list) option" where
  "proxy_run e st [] = Some (st, [])"
| "proxy_run e st ((ready, frame, dgram, fd) # events) =
     (if px_eof st then Some (st, [])
      else do { (st, out) \<leftarrow> proxy_iteration e st ready frame dgram fd;
                (st, out') \<leftarrow> proxy_run e st events;
                Some (st, out @ out') })"

section \<open>Binding\<close>

definition same_family :: "(bind_addr \<Rightarrow> bind_addr option) \<Rightarrow> bool" where
  \<comment> \<open>\<open>getaddrinfo\<close> answers in the family of the hints\<close>
  "same_family lookup \<longleftrightarrow>
     (\<forall>a found. lookup a = Some found \<longrightarrow>
        (\<exists>p ip q ip'. a = Bind_in p ip \<and> found = Bind_in q ip') \<or>
        (\<exists>p ip q ip'. a = Bind_in6 p ip \<and> found = Bind_in6 q ip') \<or> (\<exists>f. a = Bind_other f))"

fun bind_port :: "bind_addr \<Rightarrow> u16" where
  "bind_port (Bind_in p _) = p"
| "bind_port (Bind_in6 p _) = p"
| "bind_port (Bind_other _) = 0"

text \<open>
  \<open>bind_public\<close> calls \<open>bind\<close> exactly once and returns its result, for addresses of
  every family and whether or not the host name resolves. The address is the given one,
  unless it is the unspecified address and the host name resolves: then it is the address
  found, with the given port.
\<close>

lemma bind_public_binds_once:
  assumes "same_family lookup"
  shows "\<exists>b. bind_public lookup do_bind a = (do_bind b, [b]) \<and> bind_port b = bind_port a \<and>
     (b = a \<or> is_addr_any a = 1 \<and> lookup a \<noteq> None) \<and>
     (is_addr_any a = 1 \<and> lookup a = Some (Bind_in q ip) \<longrightarrow> b = Bind_in (bind_port a) ip)"
proof (cases "is_addr_any a > 0 \<and> lookup a \<noteq> None")
  case True
  then obtain found where "lookup a = Some found" by auto
  then show ?thesis
    using assms True by (cases a; cases found)
      (fastforce simp: bind_public_def get_public_ip_def same_family_def is_addr_any_def split: if_splits)+
next
  case False
  then show ?thesis
    by (auto simp: bind_public_def get_public_ip_def is_addr_any_def split: bind_addr.splits if_splits)
qed

lemma bind_public_binds_once_witness:
  "\<exists>b. bind_public (\<lambda>_. None) (\<lambda>_. 0) (Bind_in 80 0) = (0, [b]) \<and> bind_port b = 80"
  using bind_public_binds_once [of "\<lambda>_. None" "\<lambda>_. 0" "Bind_in 80 0" 0 0] by (simp add: same_family_def)

section \<open>Relaying\<close>

lemma load32_eq_iff: "load32 e bs = Some x \<Longrightarrow> x = y \<longleftrightarrow> take 4 bs = mem32 e y"
  using mem_load(2) [of e bs x] load_mem by (metis append_take_drop_id option.inject)

definition be_at :: "bytes \<Rightarrow> nat \<Rightarrow> nat" where
  "be_at bs i = 256 * unat (bs ! i) + unat (bs ! Suc i)"

lemma load16_at: "i + 2 \<le> length bs \<Longrightarrow> \<exists>x. load16 e (drop i bs) = Some x \<and> unat (ntoh16 e x) = be_at bs i \<and> be_port e x = be_at bs i"
  using ntoh16_load_bytes [of i bs e] by (auto simp: be_at_def be_port_def ntoh16_def)

lemma load32_at: "i + 4 \<le> length bs \<Longrightarrow> \<exists>x. load32 e (drop i bs) = Some x \<and> (\<forall>y. x = y \<longleftrightarrow> take 4 (drop i bs) = mem32 e y)"
  using load32_total [of i bs e] load32_eq_iff by metis

lemma recv_prefix:
  assumes "length buffer = 65535" "length frame \<le> 65535"
  shows "recv_into buffer 65535 frame = frame @ drop (length frame) buffer"
  using assms by (simp add: recv_into_def)

text \<open>Which packets from the raw socket go into the tunnel, read off the frame.\<close>

definition relayed :: "endian \<Rightarrow> proxy \<Rightarrow> bytes \<Rightarrow> bool" where
  "relayed e st frame \<longleftrightarrow>
     be_at frame 12 = 0x0800 \<and> take 4 (drop 30 frame) = mem32 e (px_if_addr st) \<and>
     frame ! 23 \<noteq> IPPROTO_TCP \<and>
     \<not> (frame ! 23 = IPPROTO_UDP \<and> take 4 (drop 26 frame) = mem32 e (px_client_addr st) \<and>
        be_at frame 34 = px_rport st \<and> be_at frame 36 = px_port st)"

definition arp_for_us :: "endian \<Rightarrow> proxy \<Rightarrow> bytes \<Rightarrow> bool" where
  "arp_for_us e st frame \<longleftrightarrow>
     be_at frame 12 = 0x0806 \<and> be_at frame 20 = 1 \<and> take 4 (drop 38 frame) = mem32 e (px_if_addr st)"

lemma u16_eq_nat: "(x :: u16) = y \<longleftrightarrow> unat x = unat y"
  by (simp add: word_unat_eq_iff)

lemma skip_packet_eq:
  assumes "42 \<le> length frame" "px_buffer st = frame @ rest"
    "be_at frame 12 = 0x0800" "take 4 (drop 30 frame) = mem32 e (px_if_addr st)"
  shows "skip_packet e st = Some (\<not> relayed e st frame)"
proof -
  let ?b = "px_buffer st"
  have same: "?b ! 23 = frame ! 23" "take 4 (drop 26 ?b) = take 4 (drop 26 frame)"
      "be_at ?b 34 = be_at frame 34" "be_at ?b 36 = be_at frame 36"
    using assms(1,2) by (simp_all add: nth_append be_at_def)
  obtain sa sp dp where l: "load32 e (drop 26 ?b) = Some sa" "\<forall>y. sa = y \<longleftrightarrow> take 4 (drop 26 ?b) = mem32 e y"
      "load16 e (drop 34 ?b) = Some sp" "be_port e sp = be_at ?b 34"
      "load16 e (drop 36 ?b) = Some dp" "be_port e dp = be_at ?b 36"
    using load32_at [of 26 ?b e] load16_at [of 34 ?b e] load16_at [of 36 ?b e] assms(1,2) by auto
  have "byte_at ?b 23 = Some (frame ! 23)" using assms(1,2) by (simp add: byte_at_def nth_append)
  then show ?thesis
    using l same assms(3,4) by (auto simp: skip_packet_def relayed_def)
qed

lemma handle_arp_eq:
  assumes "42 \<le> length frame" "px_buffer st = frame @ rest" "length (px_arp st) = 42"
  shows "handle_arp e st =
     (let arp = take 6 (drop 22 frame) @ drop 6 (px_arp st) in
      Some (if be_at frame 20 = 1 \<and> take 4 (drop 38 frame) = mem32 e (px_if_addr st)
            then (st\<lparr>px_arp := arp\<rparr>, [Send_arp arp]) else (st, [])))"
proof -
  let ?b = "px_buffer st"
  obtain op where op: "load16 e (drop 20 ?b) = Some op" "unat (ntoh16 e op) = be_at ?b 20"
    using load16_at [of 20 ?b e] assms(1,2) by auto
  have "be_at ?b 20 = be_at frame 20" using assms(1,2) by (simp add: be_at_def nth_append)
  then have "ntoh16 e op = 1 \<longleftrightarrow> be_at frame 20 = 1" using op(2) by (simp add: u16_eq_nat)
  moreover have "subbytes ?b 38 4 = Some (take 4 (drop 38 frame))" "subbytes ?b 22 6 = Some (take 6 (drop 22 frame))"
    using assms(1,2) by (simp_all add: subbytes_def)
  moreover have "overwrite (px_arp st) 0 (take 6 (drop 22 frame)) = Some (take 6 (drop 22 frame) @ drop 6 (px_arp st))"
    using assms(1,3) by (simp add: overwrite_def)
  ultimately show ?thesis using op(1) by (simp add: handle_arp_def Let_def)
qed

lemma handle_ip_eq:
  assumes "42 \<le> length frame" "px_buffer st = frame @ rest" "be_at frame 12 = 0x0800"
  shows "handle_ip e st (length frame) =
     Some (st, if relayed e st frame then [Send_tunnel (drop 14 frame)] else [])"
proof -
  let ?b = "px_buffer st"
  obtain da where da: "load32 e (drop 30 ?b) = Some da" "\<forall>y. da = y \<longleftrightarrow> take 4 (drop 30 frame) = mem32 e y"
    using load32_at [of 30 ?b e] assms(1,2) by auto
  have "subbytes ?b 14 (length frame - 14) = Some (drop 14 frame)"
    using assms(1,2) by (simp add: subbytes_def)
  then show ?thesis
    using da assms skip_packet_eq [OF assms]
    by (cases "take 4 (drop 30 frame) = mem32 e (px_if_addr st)")
      (auto simp: handle_ip_def relayed_def)
qed

text \<open>
  C7. A frame from the raw socket that holds its headers (42 bytes) is handled without an
  access outside the buffers. An ARP request for the address of the interface is answered
  by one ARP frame, to the sender of the request; an IP packet to that address is passed
  into the tunnel, without its Ethernet header and otherwise unchanged, unless it is a TCP
  segment or a datagram of the tunnel itself; every other frame causes nothing.
\<close>

theorem raw_frames_relayed:
  assumes "42 \<le> length frame" "length frame \<le> 65535" "length (px_buffer st) = 65535" "length (px_arp st) = 42"
  shows "\<exists>st' out. handle_raw e st frame = Some (st', out) \<and> length (px_buffer st') = 65535 \<and> length (px_arp st') = 42 \<and>
     out = (if arp_for_us e st frame then [Send_arp (take 6 (drop 22 frame) @ drop 6 (px_arp st))]
            else if relayed e st frame then [Send_tunnel (drop 14 frame)] else [])"
proof -
  let ?b = "frame @ drop (length frame) (px_buffer st)"
  let ?st = "st\<lparr>px_buffer := ?b\<rparr>"
  have recv: "recv_into (px_buffer st) 65535 frame = ?b" using recv_prefix assms by blast
  obtain p where p: "load16 e (drop 12 ?b) = Some p" "unat (ntoh16 e p) = be_at ?b 12"
    using load16_at [of 12 ?b e] assms(1) by auto
  have "be_at ?b 12 = be_at frame 12" using assms(1) by (simp add: be_at_def nth_append)
  then have proto: "ntoh16 e p = 0x0806 \<longleftrightarrow> be_at frame 12 = 0x0806" "ntoh16 e p = 0x0800 \<longleftrightarrow> be_at frame 12 = 0x0800"
    using p(2) by (simp_all add: u16_eq_nat)
  have len: "length ?b = 65535" "take 65535 frame = frame" using assms(2,3) by simp_all
  have raw: "handle_raw e st frame =
      (if be_at frame 12 = 0x0806 then handle_arp e ?st
       else if be_at frame 12 = 0x0800 then handle_ip e ?st (length frame) else Some (?st, []))"
    using assms(1) p(1) len(2) unfolding handle_raw_def recv Let_def
    by (cases "frame = []") (simp_all add: proto)
  have same: "relayed e ?st frame = relayed e st frame" by (simp add: relayed_def)
  show ?thesis
    using handle_arp_eq [of frame ?st "drop (length frame) (px_buffer st)" e]
      handle_ip_eq [of frame ?st "drop (length frame) (px_buffer st)" e] assms len
    unfolding raw same by (auto simp: arp_for_us_def relayed_def Let_def)
qed

theorem raw_frames_relayed_witness:
  "\<exists>st' out. handle_raw LittleEndian
       \<lparr>px_sock_udp = 3, px_sock_raw_recv = 4, px_sock_raw_send = 5, px_port = 6001, px_rport = 7000,
        px_if_addr = 1, px_client_addr = 2, px_arp = replicate 42 0, px_buffer = replicate 65535 0,
        px_fd_udp_port = replicate 1024 0, px_maxfd = 5, px_rset = {}, px_eof = False\<rparr> (replicate 60 0) = Some (st', out) \<and>
     length (px_buffer st') = 65535"
  using raw_frames_relayed [of "replicate 60 0"
      "\<lparr>px_sock_udp = 3, px_sock_raw_recv = 4, px_sock_raw_send = 5, px_port = 6001, px_rport = 7000,
        px_if_addr = 1, px_client_addr = 2, px_arp = replicate 42 0, px_buffer = replicate 65535 0,
        px_fd_udp_port = replicate 1024 0, px_maxfd = 5, px_rset = {}, px_eof = False\<rparr>" LittleEndian]
  by auto

text \<open>
  C15. A datagram from the tunnel that holds its headers (24 bytes) is handled without an
  access outside the buffers, given that a new socket has a descriptor below
  \<open>FD_SETSIZE\<close>: TCP segments are dropped; every other IP packet is sent unchanged to its
  destination address; for UDP the source port is bound first.
\<close>

theorem tunnel_datagrams_sent:
  assumes "24 \<le> length dgram" "length dgram \<le> 65535" "length (px_buffer st) = 65535"
    "length (px_fd_udp_port st) = FD_SETSIZE" "0 \<le> fd" "nat fd < FD_SETSIZE"
  shows "\<exists>st' out daddr source. handle_tunnel e st dgram fd = Some (st', out) \<and>
     length (px_buffer st') = 65535 \<and> px_eof st' = px_eof st \<and>
     mem32 e daddr = take 4 (drop 16 dgram) \<and> mem16 e source = take 2 (drop 20 dgram) \<and>
     out = (if dgram ! 9 = IPPROTO_TCP then []
            else if dgram ! 9 = IPPROTO_UDP then [Bind_fake source, Send_raw dgram daddr]
            else [Send_raw dgram daddr])"
proof -
  let ?b = "dgram @ drop (length dgram) (px_buffer st)"
  have recv: "recv_into (px_buffer st) 65535 dgram = ?b" using recv_prefix assms by blast
  have len: "length ?b = 65535" "take 65535 dgram = dgram" using assms(2,3) by simp_all
  obtain daddr where da1: "load32 e (drop 16 ?b) = Some daddr"
    using load32_at [of 16 ?b e] assms(1) by auto
  have da: "load32 e (drop 16 ?b) = Some daddr" "mem32 e daddr = take 4 (drop 16 dgram)"
    using da1 mem_load(2) [OF da1] assms(1) by simp_all
  obtain source dest where sd: "load16 e (drop 20 ?b) = Some source" "load16 e (drop 22 ?b) = Some dest"
    using load16_at [of 20 ?b e] load16_at [of 22 ?b e] assms(1) by auto
  have src: "mem16 e source = take 2 (drop 20 dgram)" using mem_load(1) [OF sd(1)] assms(1) by simp
  have "subbytes ?b 0 (length dgram) = Some dgram" "byte_at ?b 9 = Some (dgram ! 9)"
    using assms(1) by (simp_all add: subbytes_def byte_at_def nth_append)
  then show ?thesis
    using da sd src assms len recv
    by (auto simp: handle_tunnel_def handle_udp_packet_def Let_def FD_SETSIZE_def)
qed

theorem tunnel_datagrams_sent_witness:
  "\<exists>st' out. handle_tunnel LittleEndian
       \<lparr>px_sock_udp = 3, px_sock_raw_recv = 4, px_sock_raw_send = 5, px_port = 6001, px_rport = 7000,
        px_if_addr = 1, px_client_addr = 2, px_arp = replicate 42 0, px_buffer = replicate 65535 0,
        px_fd_udp_port = replicate 1024 0, px_maxfd = 5, px_rset = {}, px_eof = False\<rparr> (replicate 28 17) 6 = Some (st', out) \<and>
     \<not> px_eof st'"
  using tunnel_datagrams_sent [of "replicate 28 17"
      "\<lparr>px_sock_udp = 3, px_sock_raw_recv = 4, px_sock_raw_send = 5, px_port = 6001, px_rport = 7000,
        px_if_addr = 1, px_client_addr = 2, px_arp = replicate 42 0, px_buffer = replicate 65535 0,
        px_fd_udp_port = replicate 1024 0, px_maxfd = 5, px_rset = {}, px_eof = False\<rparr>" 6 LittleEndian]
  by (auto simp: FD_SETSIZE_def)

text \<open>
  C38. The four bytes \<open>EXIT\<close> from the tunnel end the main loop only if the fifth byte of
  the buffer, which the datagram does not reach, is zero. Otherwise they are taken for an
  IP packet: with the \<open>!\<close> that the opening message leaves there, the proxy does not stop.
\<close>

theorem exit_needs_stale_zero:
  assumes "length (px_buffer st) = 65535" "\<not> px_eof st"
    "length (px_fd_udp_port st) = FD_SETSIZE" "0 \<le> fd" "nat fd < FD_SETSIZE"
  shows "\<exists>st' out. handle_tunnel e st EXIT_text fd = Some (st', out) \<and> (px_eof st' \<longleftrightarrow> px_buffer st ! 4 = 0)"
proof -
  let ?b = "EXIT_text @ drop 4 (px_buffer st)"
  have e4: "length EXIT_text = 4" "take 65535 EXIT_text = EXIT_text" "take 5 EXIT_text = EXIT_text"
    by (simp_all add: EXIT_text_def)
  have recv: "recv_into (px_buffer st) 65535 EXIT_text = ?b" unfolding recv_into_def e4 ..
  have len: "length ?b = 65535" using assms(1) e4(1) by simp
  have "drop 4 (px_buffer st) = px_buffer st ! 4 # drop 5 (px_buffer st)"
    using assms(1) Cons_nth_drop_Suc [of 4 "px_buffer st"] by simp
  then have "take 5 ?b = EXIT_text @ [px_buffer st ! 4]"
    using e4 by simp
  then have ex: "is_exit ?b \<longleftrightarrow> px_buffer st ! 4 = 0" by (simp add: is_exit_def)
  obtain da so de where "load32 e (drop 16 ?b) = Some da" "load16 e (drop 20 ?b) = Some so" "load16 e (drop 22 ?b) = Some de"
    using load32_at [of 16 ?b e] load16_at [of 20 ?b e] load16_at [of 22 ?b e] len by auto
  then show ?thesis
    using assms len ex recv
    by (auto simp: handle_tunnel_def handle_udp_packet_def Let_def byte_at_def subbytes_def e4)
qed

theorem exit_needs_stale_zero_witness:
  "\<exists>st' out. handle_tunnel LittleEndian
       \<lparr>px_sock_udp = 3, px_sock_raw_recv = 4, px_sock_raw_send = 5, px_port = 6001, px_rport = 7000,
        px_if_addr = 1, px_client_addr = 2, px_arp = replicate 42 0,
        px_buffer = [0x4F, 0x50, 0x45, 0x4E, 0x21] @ replicate 65530 0,
        px_fd_udp_port = replicate 1024 0, px_maxfd = 5, px_rset = {}, px_eof = False\<rparr> EXIT_text 6 = Some (st', out) \<and>
     \<not> px_eof st'"
  using exit_needs_stale_zero [of "\<lparr>px_sock_udp = 3, px_sock_raw_recv = 4, px_sock_raw_send = 5, px_port = 6001, px_rport = 7000,
        px_if_addr = 1, px_client_addr = 2, px_arp = replicate 42 0,
        px_buffer = [0x4F, 0x50, 0x45, 0x4E, 0x21] @ replicate 65530 0,
        px_fd_udp_port = replicate 1024 0, px_maxfd = 5, px_rset = {}, px_eof = False\<rparr>" 6 LittleEndian]
  by (auto simp: FD_SETSIZE_def)

section \<open>The descriptors that are watched\<close>

definition proxy_start :: "proxy \<Rightarrow> bool" where
  "proxy_start st \<longleftrightarrow>
     px_rset st = {} \<and> px_sock_udp st < px_sock_raw_recv st \<and> px_sock_raw_recv st < px_sock_raw_send st \<and>
     px_maxfd st = px_sock_raw_send st"

definition proxy_step :: "proxy \<Rightarrow> proxy \<Rightarrow> bool" where
  "proxy_step st st' \<longleftrightarrow> (\<exists>e ready frame dgram fd out. proxy_iteration e st ready frame dgram fd = Some (st', out))"

definition watch_inv :: "proxy \<Rightarrow> bool" where
  "watch_inv st \<longleftrightarrow>
     px_rset st \<subseteq> {px_sock_udp st, px_sock_raw_recv st, px_sock_raw_send st} \<and>
     px_sock_udp st < px_sock_raw_recv st \<and> px_sock_raw_recv st < px_sock_raw_send st"

lemma handle_raw_keeps:
  assumes "handle_raw e st frame = Some (st', out)"
  shows "px_rset st' = px_rset st \<and> px_sock_udp st' = px_sock_udp st \<and>
     px_sock_raw_recv st' = px_sock_raw_recv st \<and> px_sock_raw_send st' = px_sock_raw_send st \<and> (\<forall>fd. Drain fd \<notin> set out)"
  using assms
  by (auto simp: handle_raw_def handle_arp_def handle_ip_def Let_def bind_Some_iff split: if_splits)

lemma handle_tunnel_keeps:
  assumes "handle_tunnel e st dgram fd = Some (st', out)"
  shows "px_rset st' = px_rset st \<and> px_sock_udp st' = px_sock_udp st \<and>
     px_sock_raw_recv st' = px_sock_raw_recv st \<and> px_sock_raw_send st' = px_sock_raw_send st \<and> (\<forall>fd. Drain fd \<notin> set out)"
  using assms
  by (auto simp: handle_tunnel_def handle_udp_packet_def Let_def bind_Some_iff split: if_splits)

lemma proxy_iteration_watch:
  assumes "proxy_iteration e st ready frame dgram fd = Some (st', out)" "watch_inv st"
  shows "watch_inv st' \<and> (\<forall>fd. Drain fd \<notin> set out)"
proof -
  let ?st = "st\<lparr>px_rset := watched st \<inter> ready\<rparr>"
  have inv: "watch_inv ?st" using assms(2) by (auto simp: watch_inv_def watched_def)
  obtain st1 out1 out2 where
      1: "(if px_sock_raw_recv ?st \<in> px_rset ?st then handle_raw e ?st frame else Some (?st, [])) = Some (st1, out1)"
    and 2: "(if px_sock_udp st1 \<in> px_rset st1 then handle_tunnel e st1 dgram fd else Some (st1, [])) = Some (st', out2)"
    and out: "out = out1 @ out2 @ drain_fakes st'"
    using assms(1) unfolding proxy_iteration_def Let_def by (auto simp: bind_Some_iff)
  have "watch_inv st1" "\<forall>fd. Drain fd \<notin> set out1"
    using 1 inv handle_raw_keeps [of e ?st frame st1 out1] by (auto simp: watch_inv_def split: if_splits)
  then have "watch_inv st'" "\<forall>fd. Drain fd \<notin> set out2"
    using 2 handle_tunnel_keeps [of e st1 dgram fd st' out2] by (auto simp: watch_inv_def split: if_splits)
  moreover have "drain_fakes st' = []"
    using \<open>watch_inv st'\<close> unfolding drain_fakes_def watch_inv_def by (fastforce simp: filter_empty_conv)
  ultimately show ?thesis using \<open>\<forall>fd. Drain fd \<notin> set out1\<close> out by auto
qed

interpretation px: inductive_invariant proxy_start proxy_step watch_inv
proof unfold_locales
  show "watch_inv st" if "proxy_start st" for st
    using that by (simp add: proxy_start_def watch_inv_def)
  show "watch_inv st'" if "watch_inv st" "proxy_step st st'" for st st'
    using that proxy_iteration_watch by (auto simp: proxy_step_def)
qed

text \<open>
  C16. In every state the main loop reaches, \<open>select\<close> watches the tunnel socket and the two
  raw sockets only: the loop meant to add the sockets bound for relayed UDP packets never
  runs, and no step ever drains one of them.
\<close>

theorem fake_sockets_never_drained:
  assumes "reachable_from proxy_start proxy_step st"
  shows "watched st = {px_sock_udp st, px_sock_raw_recv st, px_sock_raw_send st} \<and>
     (proxy_iteration e st ready frame dgram fd = Some (st', out) \<longrightarrow> Drain k \<notin> set out)"
proof -
  have "watch_inv st" using assms by (rule px.inv_reachable)
  then show ?thesis
    using proxy_iteration_watch by (auto simp: watched_def watch_inv_def)
qed

theorem fake_sockets_never_drained_witness:
  "watched \<lparr>px_sock_udp = 3, px_sock_raw_recv = 4, px_sock_raw_send = 5, px_port = 6001, px_rport = 7000,
        px_if_addr = 1, px_client_addr = 2, px_arp = [], px_buffer = [],
        px_fd_udp_port = [], px_maxfd = 5, px_rset = {}, px_eof = False\<rparr> = {3, 4, 5}"
  using fake_sockets_never_drained [OF reach_init, of "\<lparr>px_sock_udp = 3, px_sock_raw_recv = 4, px_sock_raw_send = 5, px_port = 6001, px_rport = 7000,
        px_if_addr = 1, px_client_addr = 2, px_arp = [], px_buffer = [],
        px_fd_udp_port = [], px_maxfd = 5, px_rset = {}, px_eof = False\<rparr>"]
  by (simp add: proxy_start_def)

end
