(* ===== verification/Size_Arith.thy ===== *)
theory Size_Arith
  imports Prelude
begin

text \<open>
  Sizes (\<open>misc/bsize.h\<close>, \<open>misc/balign.h\<close>, \<open>misc/balloc.h\<close>): arithmetic that carries an
  overflow flag, alignment, and the allocation functions that use them. \<open>size_t\<close> is a
  64-bit word. \<open>malloc\<close> is a parameter: the allocation functions are modelled by the
  request they pass to it, so \<^term>\<open>None\<close> is a \<open>NULL\<close> returned without asking.
\<close>

abbreviation SIZE_MAX :: u64 where "SIZE_MAX \<equiv> - 1"

record bsize_t =
  is_overflow :: bool
  bsize_value :: u64

definition bsize_fromsize :: "u64 \<Rightarrow> bsize_t" where
  "bsize_fromsize v = \<lparr>is_overflow = False, bsize_value = v\<rparr>"

definition bsize_fromint :: "int \<Rightarrow> bsize_t" where
  "bsize_fromint v = \<lparr>is_overflow = v < 0 \<or> (word_of_int v :: u64) > SIZE_MAX, bsize_value = word_of_int v\<rparr>"

definition bsize_overflow :: bsize_t where
  "bsize_overflow = \<lparr>is_overflow = True, bsize_value = 0\<rparr>"

definition bsize_tosize :: "bsize_t \<Rightarrow> u64 option" where
  "bsize_tosize s = (if is_overflow s then None else Some (bsize_value s))"

definition bsize_toint :: "bsize_t \<Rightarrow> int option" where
  "bsize_toint s = (if is_overflow s \<or> bsize_value s > 2147483647 then None else Some (uint (bsize_value s)))"

definition bsize_add :: "bsize_t \<Rightarrow> bsize_t \<Rightarrow> bsize_t" where
  "bsize_add s1 s2 =
     \<lparr>is_overflow = is_overflow s1 \<or> is_overflow s2 \<or> bsize_value s2 > SIZE_MAX - bsize_value s1,
      bsize_value = bsize_value s1 + bsize_value s2\<rparr>"

definition bsize_max :: "bsize_t \<Rightarrow> bsize_t \<Rightarrow> bsize_t" where
  "bsize_max s1 s2 =
     \<lparr>is_overflow = is_overflow s1 \<or> is_overflow s2,
      bsize_value = of_bool (bsize_value s1 > bsize_value s2) * bsize_value s1 +
                    of_bool (bsize_value s1 \<le> bsize_value s2) * bsize_value s2\<rparr>"

definition bsize_mul :: "bsize_t \<Rightarrow> bsize_t \<Rightarrow> bsize_t" where
  "bsize_mul s1 s2 =
     \<lparr>is_overflow = is_overflow s1 \<or> is_overflow s2 \<or>
        (bsize_value s1 \<noteq> 0 \<and> bsize_value s2 > SIZE_MAX div bsize_value s1),
      bsize_value = bsize_value s1 * bsize_value s2\<rparr>"

section \<open>Alignment\<close>

definition balign_up_overflows :: "u64 \<Rightarrow> u64 \<Rightarrow> bool" where
  "balign_up_overflows x n = (let r = x mod n in r \<noteq> 0 \<and> x > SIZE_MAX - (n - r))"

definition balign_up :: "u64 \<Rightarrow> u64 \<Rightarrow> u64" where
  "balign_up x n = (let r = x mod n in if r \<noteq> 0 then x + (n - r) else x)"

definition balign_down :: "u64 \<Rightarrow> u64 \<Rightarrow> u64" where
  "balign_down x n = x - x mod n"

definition bdivide_up :: "u64 \<Rightarrow> u64 \<Rightarrow> u64" where
  "bdivide_up a b = (let r = a mod b in if r > 0 then a div b + 1 else a div b)"

section \<open>Allocation requests\<close>

definition BAlloc :: "u64 \<Rightarrow> u64 option" where
  "BAlloc nbytes = Some (if nbytes = 0 then 1 else nbytes)"

definition BRealloc :: "u64 \<Rightarrow> u64 option" where
  "BRealloc nbytes = Some (if nbytes = 0 then 1 else nbytes)"

definition BAllocSize :: "bsize_t \<Rightarrow> u64 option" where
  "BAllocSize nbytes = (if is_overflow nbytes then None else BAlloc (bsize_value nbytes))"

definition BAllocArray :: "u64 \<Rightarrow> u64 \<Rightarrow> u64 option" where
  "BAllocArray count nbytes =
     (if count = 0 \<or> nbytes = 0 then Some 1
      else if count > SIZE_MAX div nbytes then None
      else BAlloc (count * nbytes))"

definition BReallocArray :: "u64 \<Rightarrow> u64 \<Rightarrow> u64 option" where
  "BReallocArray count nbytes =
     (if count = 0 \<or> nbytes = 0 then Some 1
      else if count > SIZE_MAX div nbytes then None
      else Some (count * nbytes))"

definition BAllocArray2 :: "u64 \<Rightarrow> u64 \<Rightarrow> u64 \<Rightarrow> u64 option" where
  "BAllocArray2 count2 count1 nbytes =
     (if count2 = 0 \<or> count1 = 0 \<or> nbytes = 0 then Some 1
      else if count1 > SIZE_MAX div nbytes then None
      else if count2 > SIZE_MAX div (count1 * nbytes) then None
      else BAlloc (count2 * (count1 * nbytes)))"

definition BSizeAdd :: "u64 \<Rightarrow> u64 \<Rightarrow> u64 option" where
  "BSizeAdd s add = (if add > SIZE_MAX - s then None else Some (s + add))"

definition BSizeAlign :: "u64 \<Rightarrow> u64 \<Rightarrow> u64 option option" where
  \<comment> \<open>the outer \<^term>\<open>None\<close> is the failed assertion\<close>
  "BSizeAlign s align =
     do { cassert (align > 0);
          let md = s mod align in
          if md > 0
          then if align - md > SIZE_MAX - s then Some None else Some (Some (s + (align - md)))
          else Some (Some s) }"

section \<open>Exactness\<close>

lemma unat_SIZE_MAX: "unat SIZE_MAX = 2 ^ 64 - 1"
  by (simp add: unsigned_minus_1_eq_mask mask_eq_exp_minus_1)

lemma add_overflow_iff: "y > SIZE_MAX - x \<longleftrightarrow> 2 ^ 64 \<le> unat x + unat (y :: u64)"
proof -
  have "unat (SIZE_MAX - x) = 2 ^ 64 - 1 - unat x"
    by (subst unat_sub) (simp_all add: word_order.extremum unat_SIZE_MAX)
  then show ?thesis
    using unsigned_less [of x, where ?'a = nat] by (simp add: word_less_nat_alt) linarith
qed

lemma unat_add_exact: "\<not> y > SIZE_MAX - x \<Longrightarrow> unat (x + y) = unat x + unat y"
  by (simp only: add_overflow_iff) (simp add: unat_word_ariths)

lemma mul_overflow_iff:
  assumes "x \<noteq> 0"
  shows "y > SIZE_MAX div x \<longleftrightarrow> 2 ^ 64 \<le> unat x * unat (y :: u64)"
proof -
  have "0 < unat x" using assms by (simp add: unat_gt_0)
  then have "(2 ^ 64 - 1) div unat x < unat y \<longleftrightarrow> 2 ^ 64 - 1 < unat y * unat x"
    using div_less_iff_less_mult by blast
  then show ?thesis
    by (simp add: word_less_nat_alt unat_div unat_SIZE_MAX mult.commute) linarith
qed

lemma unat_mul_exact: "x \<noteq> 0 \<Longrightarrow> \<not> y > SIZE_MAX div x \<Longrightarrow> unat (x * y) = unat x * unat (y :: u64)"
  using mul_overflow_iff [of x y] by (simp add: unat_word_ariths)

definition bsize_nat :: "bsize_t \<Rightarrow> nat option" where
  \<comment> \<open>the number a size stands for\<close>
  "bsize_nat s = (if is_overflow s then None else Some (unat (bsize_value s)))"

fun checked :: "nat option \<Rightarrow> nat option" where
  \<comment> \<open>results that do not fit 64 bits are lost\<close>
  "checked (Some n) = (if n < 2 ^ 64 then Some n else None)"
| "checked None = None"

lemma bsize_nat_add:
  "bsize_nat (bsize_add s1 s2) = checked (do { x \<leftarrow> bsize_nat s1; y \<leftarrow> bsize_nat s2; Some (x + y) })"
  using add_overflow_iff [where x = "bsize_value s1" and y = "bsize_value s2"]
    unat_add_exact [where x = "bsize_value s1" and y = "bsize_value s2"]
  by (auto simp: bsize_nat_def bsize_add_def)

lemma bsize_nat_mul:
  "bsize_nat (bsize_mul s1 s2) = checked (do { x \<leftarrow> bsize_nat s1; y \<leftarrow> bsize_nat s2; Some (x * y) })"
  using mul_overflow_iff [of "bsize_value s1" "bsize_value s2"]
    unat_mul_exact [of "bsize_value s1" "bsize_value s2"]
  by (cases "bsize_value s1 = 0") (auto simp: bsize_nat_def bsize_mul_def)

lemma bsize_nat_max:
  "bsize_nat (bsize_max s1 s2) = do { x \<leftarrow> bsize_nat s1; y \<leftarrow> bsize_nat s2; Some (max x y) }"
  by (auto simp: bsize_nat_def bsize_max_def word_le_nat_alt word_less_nat_alt)

text \<open>
  The size arithmetic is exact: for the number a size stands for, addition,
  multiplication and maximum are those of the natural numbers, with overflow exactly when
  an operand overflowed or the result does not fit 64 bits; a conversion to \<open>int\<close> succeeds
  exactly on numbers up to \<open>INT_MAX\<close>.
\<close>

lemma bsize_exact:
  "bsize_nat (bsize_add s1 s2) = checked (do { x \<leftarrow> bsize_nat s1; y \<leftarrow> bsize_nat s2; Some (x + y) }) \<and>
   bsize_nat (bsize_mul s1 s2) = checked (do { x \<leftarrow> bsize_nat s1; y \<leftarrow> bsize_nat s2; Some (x * y) }) \<and>
   bsize_nat (bsize_max s1 s2) = do { x \<leftarrow> bsize_nat s1; y \<leftarrow> bsize_nat s2; Some (max x y) } \<and>
   (bsize_toint s1 = Some i \<longleftrightarrow> 0 \<le> i \<and> i \<le> INT_MAX \<and> bsize_nat s1 = Some (nat i)) \<and>
   map_option unat (bsize_tosize s1) = bsize_nat s1"
proof -
  have "bsize_toint s1 = Some i \<longleftrightarrow> 0 \<le> i \<and> i \<le> INT_MAX \<and> bsize_nat s1 = Some (nat i)"
    by (auto simp: bsize_toint_def bsize_nat_def word_less_def eq_nat_nat_iff simp flip: nat_uint_eq)
  then show ?thesis
    by (simp add: bsize_nat_add bsize_nat_mul bsize_nat_max) (simp add: bsize_tosize_def bsize_nat_def)
qed

lemma product_not_zero:
  fixes c b :: u64
  assumes "c \<noteq> 0" "b \<noteq> 0" "\<not> c > SIZE_MAX div b"
  shows "c * b \<noteq> 0"
proof -
  have "unat (b * c) = unat b * unat c" using assms by (intro unat_mul_exact)
  then show ?thesis using assms by (auto simp: mult.commute unat_eq_zero simp flip: unat_0)
qed

text \<open>
  The array allocators ask for exactly the product of their arguments, at least one
  byte, and refuse exactly when the product does not fit 64 bits; no product wraps.
\<close>

lemma alloc_array_exact:
  "map_option unat (BAllocArray count nbytes) = checked (Some (max 1 (unat count * unat nbytes))) \<and>
   BReallocArray count nbytes = BAllocArray count nbytes \<and>
   map_option unat (BAllocArray2 count2 count nbytes) =
     checked (Some (max 1 (unat count2 * (unat count * unat nbytes)))) \<and>
   map_option unat (BAllocSize s) = map_option (max 1) (bsize_nat s)"
proof -
  have array: "map_option unat (BAllocArray c b) = checked (Some (max 1 (unat c * unat b)))" for c b
    using mul_overflow_iff [of b c] unat_mul_exact [of b c]
    by (auto simp: BAllocArray_def BAlloc_def mult.commute unat_gt_0 Suc_le_eq unat_eq_zero)
  moreover have "map_option unat (BAllocArray2 count2 count nbytes) =
      checked (Some (max 1 (unat count2 * (unat count * unat nbytes))))"
  proof (cases "count2 = 0 \<or> count = 0 \<or> nbytes = 0")
    case False
    show ?thesis
    proof (cases "count > SIZE_MAX div nbytes")
      case True
      then have "2 ^ 64 \<le> unat count * unat nbytes" "1 \<le> unat count2"
        using False mul_overflow_iff [of nbytes count] by (simp_all add: mult.commute Suc_le_eq unat_gt_0)
      then have "2 ^ 64 \<le> unat count2 * (unat count * unat nbytes)"
        using mult_le_mono [of 1 "unat count2" "2 ^ 64"] by simp
      then show ?thesis using True False by (simp add: BAllocArray2_def)
    next
      case fits: False
      have "unat (count * nbytes) = unat count * unat nbytes"
        using unat_mul_exact [of nbytes count] False fits by (simp add: mult.commute)
      moreover have "count * nbytes \<noteq> 0" using False fits by (intro product_not_zero) auto
      ultimately show ?thesis
        using False fits array [of count2 "count * nbytes"]
        by (simp add: BAllocArray2_def BAllocArray_def)
    qed
  qed (auto simp: BAllocArray2_def)
  ultimately show ?thesis
    using product_not_zero [of count nbytes]
    by (auto simp: BReallocArray_def BAllocArray_def BAllocSize_def BAlloc_def bsize_nat_def unat_gt_0 Suc_le_eq)
qed

lemma mod_sub_exact: "n \<noteq> 0 \<Longrightarrow> unat (n - x mod n) = unat n - unat x mod unat (n :: u64)"
  by (subst unat_sub) (auto simp: unat_mod word_le_nat_alt unat_gt_0 intro: less_imp_le)

lemma ceil_div:
  fixes x n q r :: nat
  assumes "0 < n" "x = n * q + r" "r < n"
  shows "(x + n - 1) div n = (if r = 0 then q else q + 1)"
  by (rule div_nat_eqI) (use assms in auto)

text \<open>
  Aligning: \<open>balign_up\<close> is the least multiple of \<open>n\<close> not below \<open>x\<close> whenever
  \<open>balign_up_overflows\<close> is false, which is exactly when that multiple fits 64 bits;
  \<open>balign_down\<close> is the greatest multiple not above; \<open>bdivide_up\<close> is the quotient rounded
  up; and \<open>BSizeAlign\<close> is \<open>balign_up\<close> with the overflow reported.
\<close>

lemma balign_exact:
  assumes "n \<noteq> 0"
  shows "balign_up_overflows x n = (2 ^ 64 \<le> unat n * ((unat x + unat n - 1) div unat n)) \<and>
     (\<not> balign_up_overflows x n \<longrightarrow> unat (balign_up x n) = unat n * ((unat x + unat n - 1) div unat n)) \<and>
     unat (balign_down x n) = unat n * (unat x div unat n) \<and>
     unat (bdivide_up x n) = (unat x + unat n - 1) div unat n \<and>
     BSizeAlign x n = Some (if balign_up_overflows x n then None else Some (balign_up x n))"
proof -
  have n: "0 < unat n" using assms by (simp add: unat_gt_0)
  obtain q r where x: "unat x = unat n * q + r" "r < unat n" and qr: "unat x mod unat n = r" "unat x div unat n = q"
    using n by (metis mod_less_divisor mult_div_mod_eq)
  have up: "(unat x + unat n - 1) div unat n = (if r = 0 then q else q + 1)"
    by (rule ceil_div [OF n x])
  have sub: "unat (n - x mod n) = unat n - r" using mod_sub_exact [OF assms] qr by simp
  have r0: "x mod n = 0 \<longleftrightarrow> r = 0" using qr by (simp add: word_unat_eq_iff unat_mod)
  have sum: "unat x + (unat n - r) = unat n * (q + 1)" using x by simp
  have ovf: "balign_up_overflows x n \<longleftrightarrow> r \<noteq> 0 \<and> 2 ^ 64 \<le> unat n * (q + 1)"
    unfolding balign_up_overflows_def Let_def r0 using add_overflow_iff [of "n - x mod n" x] sub sum
    by (metis add.commute add_overflow_iff)
  have "unat n * q < 2 ^ 64"
    using x(1) unsigned_less [of x, where ?'a = nat] by simp
  then have 1: "balign_up_overflows x n = (2 ^ 64 \<le> unat n * ((unat x + unat n - 1) div unat n))"
    unfolding ovf up by simp
  have 2: "unat (balign_up x n) = unat n * ((unat x + unat n - 1) div unat n)" if "\<not> balign_up_overflows x n"
    using that x(1) unat_add_exact [of x "n - x mod n"] sub sum unfolding up balign_up_def Let_def r0
    by (auto simp: ovf add_overflow_iff)
  have 3: "unat (balign_down x n) = unat n * (unat x div unat n)"
    unfolding balign_down_def by (subst unat_sub) (use x(1) qr in \<open>auto simp: word_le_nat_alt unat_mod\<close>)
  have "1 * q \<le> unat n * q" using n by (intro mult_le_mono1) simp
  moreover have "unat x < 2 ^ 64" using unsigned_less [of x, where ?'a = nat] by simp
  ultimately have "r \<noteq> 0 \<Longrightarrow> q + 1 < 2 ^ 64" using x(1) by linarith
  then have 4: "unat (bdivide_up x n) = (unat x + unat n - 1) div unat n"
    unfolding up using qr r0 by (simp add: bdivide_up_def Let_def word_gt_0 unat_div unat_word_ariths)
  have 5: "BSizeAlign x n = Some (if balign_up_overflows x n then None else Some (balign_up x n))"
    using assms by (auto simp: BSizeAlign_def balign_up_def balign_up_overflows_def Let_def word_gt_0 add_overflow_iff add.commute)
  show ?thesis using 1 2 3 4 5 by blast
qed

end
