(* ===== verification/IP_Proto.thy ===== *)
theory IP_Proto
  imports Byte_Order
begin

text \<open>
  The headers of IPv4, IPv6 and UDP packets (\<open>misc/ipv4_proto.h\<close>, \<open>misc/ipv6_proto.h\<close>,
  \<open>misc/udp_proto.h\<close>): the Internet checksum and the checks of received packets. A field
  of a header record holds the number the processor loads from memory, before \<open>ntoh\<close>, so
  the byte order \<open>e\<close> of the host is an argument. A check returns the header, the offset of
  the payload and its length; the outer \<^term>\<open>None\<close> is an access outside the packet or a
  failed assertion.
\<close>

section \<open>Headers in memory\<close>


record ipv6_header =
  ip6_version4_tc4 :: u8
  ip6_tc4_fl4 :: u8
  ip6_fl :: u16
  ip6_payload_length :: u16
  ip6_next_header :: u8
  ip6_hop_limit :: u8
  ip6_source_address :: bytes
  ip6_destination_address :: bytes

record udp_header =
  udp_source_port :: u16
  udp_dest_port :: u16
  udp_length :: u16
  udp_checksum_field :: u16



definition ipv6_header_load :: "endian \<Rightarrow> bytes \<Rightarrow> ipv6_header option" where
  "ipv6_header_load e bs =
     do { v \<leftarrow> byte_at bs 0; t \<leftarrow> byte_at bs 1;
          fl \<leftarrow> load16 e (drop 2 bs); len \<leftarrow> load16 e (drop 4 bs);
          nxt \<leftarrow> byte_at bs 6; hop \<leftarrow> byte_at bs 7;
          s \<leftarrow> subbytes bs 8 16; d \<leftarrow> subbytes bs 24 16;
          Some \<lparr>ip6_version4_tc4 = v, ip6_tc4_fl4 = t, ip6_fl = fl, ip6_payload_length = len,
                ip6_next_header = nxt, ip6_hop_limit = hop, ip6_source_address = s,
                ip6_destination_address = d\<rparr> }"

definition udp_header_load :: "endian \<Rightarrow> bytes \<Rightarrow> udp_header option" where
  "udp_header_load e bs =
     do { s \<leftarrow> load16 e bs; d \<leftarrow> load16 e (drop 2 bs); l \<leftarrow> load16 e (drop 4 bs); c \<leftarrow> load16 e (drop 6 bs);
          Some \<lparr>udp_source_port = s, udp_dest_port = d, udp_length = l, udp_checksum_field = c\<rparr> }"

definition udp_header_mem :: "endian \<Rightarrow> udp_header \<Rightarrow> bytes" where
  "udp_header_mem e h =
     mem16 e (udp_source_port h) @ mem16 e (udp_dest_port h) @
     mem16 e (udp_length h) @ mem16 e (udp_checksum_field h)"



definition IPV4_MAKE_VERSION_IHL :: "nat \<Rightarrow> nat" where
  "IPV4_MAKE_VERSION_IHL sz = sz div 4 + 4 * 2 ^ 4"

section \<open>The Internet checksum\<close>

fun sum_words :: "bytes \<Rightarrow> nat \<Rightarrow> u32 \<Rightarrow> u32 option" where
  \<comment> \<open>the loops that add \<open>n\<close> big-endian 16-bit words to \<open>t\<close>\<close>
  "sum_words data 0 t = Some t"
| "sum_words data (Suc n) t =
     do { x \<leftarrow> badvpn_read_be16 data; sum_words (drop 2 data) n (t + ucast x) }"

lemma unat_hi: "unat (drop_bit 16 (t :: u32)) = unat t div 65536"
  by (simp add: drop_bit_eq_div unat_div)

lemma unat_low: "unat (t AND 0xFFFF :: u32) = unat t mod 65536"
proof -
  have "t AND 0xFFFF = take_bit 16 t" by (simp add: take_bit_eq_mask mask_eq_exp_minus_1)
  then show ?thesis by (simp only: unsigned_take_bit_eq) (simp add: take_bit_eq_mod)
qed

lemma fold_carry_less:
  fixes t :: u32
  assumes "drop_bit 16 t \<noteq> 0"
  shows "unat ((t AND 0xFFFF) + drop_bit 16 t) < unat t"
    and "unat ((t AND 0xFFFF) + drop_bit 16 t) = unat t mod 65536 + unat t div 65536"
proof -
  note lo = unat_low [of t] and hi = unat_hi [of t]
  have "unat t < 2 ^ 32" using unsigned_less [of t] by simp
  then have "unat t mod 65536 + unat t div 65536 < 2 ^ 32" by simp
  then show eq: "unat ((t AND 0xFFFF) + drop_bit 16 t) = unat t mod 65536 + unat t div 65536"
    by (simp add: unat_word_ariths lo hi)
  have "unat t div 65536 \<noteq> 0" using assms hi by (simp flip: unat_eq_zero)
  then show "unat ((t AND 0xFFFF) + drop_bit 16 t) < unat t"
    unfolding eq using mult_div_mod_eq [of 65536 "unat t"] by linarith
qed

function fold_carry :: "u32 \<Rightarrow> u32" where
  "fold_carry t = (if drop_bit 16 t \<noteq> 0 then fold_carry ((t AND 0xFFFF) + drop_bit 16 t) else t)"
  by pat_completeness auto
termination
  by (relation "measure unat") (use fold_carry_less(1) in auto)

declare fold_carry.simps [simp del]


definition udp_checksum_summer :: "bytes \<Rightarrow> nat \<Rightarrow> u32 option" where
  "udp_checksum_summer data len =
     do { cassert (len mod 2 = 0); sum_words data (len div 2) 0 }"

definition udp_payload_sum :: "endian \<Rightarrow> bytes \<Rightarrow> nat \<Rightarrow> u32 option" where
  \<comment> \<open>the payload with the odd byte at its end padded\<close>
  "udp_payload_sum e payload payload_len =
     (if payload_len mod 2 = 0 then udp_checksum_summer payload payload_len
      else do { t \<leftarrow> udp_checksum_summer payload (payload_len - 1);
                b \<leftarrow> byte_at payload (payload_len - 1);
                t' \<leftarrow> udp_checksum_summer (mem16 e (hton16 e (push_bit 8 (ucast b)))) 2;
                Some (t + t') })"

definition udp_finish :: "endian \<Rightarrow> u32 \<Rightarrow> u16" where
  "udp_finish e t =
     (let t = fold_carry t;
          t = (if t = 0 then 0xFFFF else t)
      in hton16 e (ucast (NOT t)))"

definition udp_checksum :: "endian \<Rightarrow> udp_header \<Rightarrow> bytes \<Rightarrow> u16 \<Rightarrow> u32 \<Rightarrow> u32 \<Rightarrow> u16 option" where
  "udp_checksum e header payload payload_len source_addr dest_addr =
     do { t1 \<leftarrow> udp_checksum_summer (mem32 e source_addr) 4;
          t2 \<leftarrow> udp_checksum_summer (mem32 e dest_addr) 4;
          t3 \<leftarrow> udp_checksum_summer (mem16 e (hton16 e 17)) 2;
          t4 \<leftarrow> udp_checksum_summer (mem16 e (hton16 e (8 + payload_len))) 2;
          t5 \<leftarrow> udp_checksum_summer (udp_header_mem e header) 8;
          t6 \<leftarrow> udp_payload_sum e payload (unat payload_len);
          Some (udp_finish e (t1 + t2 + t3 + t4 + t5 + t6)) }"

definition udp_ip6_checksum :: "endian \<Rightarrow> udp_header \<Rightarrow> bytes \<Rightarrow> u16 \<Rightarrow> bytes \<Rightarrow> bytes \<Rightarrow> u16 option" where
  "udp_ip6_checksum e header payload payload_len source_addr dest_addr =
     do { t1 \<leftarrow> udp_checksum_summer source_addr 16;
          t2 \<leftarrow> udp_checksum_summer dest_addr 16;
          t3 \<leftarrow> udp_checksum_summer (mem32 e (hton32 e (8 + ucast payload_len))) 4;
          t4 \<leftarrow> udp_checksum_summer (mem32 e (hton32 e 17)) 4;
          t5 \<leftarrow> udp_checksum_summer (udp_header_mem e header) 8;
          t6 \<leftarrow> udp_payload_sum e payload (unat payload_len);
          Some (udp_finish e (t1 + t2 + t3 + t4 + t5 + t6)) }"

section \<open>Checking received packets\<close>


definition ipv6_check :: "endian \<Rightarrow> bytes \<Rightarrow> (ipv6_header \<times> nat \<times> nat) option option" where
  "ipv6_check e data =
     (let data_len = length data in
      if data_len < 40 then Some None
      else do {
        header \<leftarrow> ipv6_header_load e data;
        if drop_bit 4 (ntoh8 (ip6_version4_tc4 header)) \<noteq> 6 then Some None
        else let payload_length = unat (ntoh16 e (ip6_payload_length header)) in
          if payload_length > data_len - 40 then Some None
          else Some (Some (header, 40, payload_length)) })"

definition udp_check :: "endian \<Rightarrow> bytes \<Rightarrow> (udp_header \<times> nat \<times> nat) option option" where
  "udp_check e data =
     (let data_len = length data in
      if data_len < 8 then Some None
      else do {
        header \<leftarrow> udp_header_load e data;
        let data_len = data_len - 8;
            udp_len = unat (ntoh16 e (udp_length header))
        in if udp_len < 8 then Some None
           else if udp_len > 8 + data_len then Some None
           else Some (Some (header, 8, udp_len - 8)) })"

section \<open>What the checksum computes\<close>

text \<open>The sum of the big-endian 16-bit words of a byte string, an odd byte padded with zero.\<close>

fun be_sum :: "bytes \<Rightarrow> nat" where
  "be_sum (a # b # bs) = 256 * unat a + unat b + be_sum bs"
| "be_sum [a] = 256 * unat a"
| "be_sum [] = 0"

lemma be_sum_append: "even (length xs) \<Longrightarrow> be_sum (xs @ ys) = be_sum xs + be_sum ys"
  by (induction xs rule: be_sum.induct) auto

lemma be_sum_bound: "be_sum xs \<le> 65535 * ((length xs + 1) div 2)"
proof (induction xs rule: be_sum.induct)
  case (1 a b bs)
  then show ?case using unat_byte_less [of a] unat_byte_less [of b] by simp
next
  case (2 a)
  then show ?case using unat_byte_less [of a] by simp
qed simp

lemma read_be16_sum: "badvpn_read_be16 bs = Some x \<Longrightarrow> unat x = be_sum (take 2 bs)"
  by (cases bs rule: badvpn_read_be16.cases) (auto simp: unat_be16)

lemma sum_words_eq:
  "sum_words data n t = (if 2 * n \<le> length data then Some (t + of_nat (be_sum (take (2 * n) data))) else None)"
proof (induction data n t rule: sum_words.induct)
  case (2 data n t)
  show ?case
  proof (cases data rule: badvpn_read_be16.cases)
    case (1 a b rest)
    let ?x = "push_bit 8 (ucast a) OR ucast b :: u16"
    have "(ucast ?x :: u32) = of_nat (unat ?x)" by simp
    then have "(ucast ?x :: u32) = of_nat (256 * unat a + unat b)"
      by (simp only: unat_be16)
    then show ?thesis using 2 [of ?x] 1 by (simp add: add.assoc del: of_nat_unat)
  qed simp_all
qed simp

lemma fold_carry_spec:
  "unat (fold_carry t) \<le> 65535 \<and> unat (fold_carry t) mod 65535 = unat t mod 65535 \<and> (fold_carry t = 0 \<longleftrightarrow> t = 0)"
proof (induction t rule: fold_carry.induct)
  case (1 t)
  show ?case
  proof (cases "drop_bit 16 t \<noteq> 0")
    case True
    let ?t = "(t AND 0xFFFF) + drop_bit 16 t"
    note eq = fold_carry_less(2) [OF True]
    have pos: "unat t div 65536 \<noteq> 0"
      unfolding unat_hi [symmetric] unat_eq_zero by (rule True)
    have "unat t = unat ?t + 65535 * (unat t div 65536)"
      unfolding eq using mult_div_mod_eq [of 65536 "unat t"] by linarith
    then have "unat t mod 65535 = unat ?t mod 65535" by (metis mod_mult_self2)
    moreover have "?t \<noteq> 0" "t \<noteq> 0" using eq pos by (auto simp flip: unat_eq_zero)
    ultimately show ?thesis
      using 1 [OF True] True by (simp add: fold_carry.simps [of t])
  next
    case False
    then have "unat t div 65536 = 0" using unat_hi [of t] by simp
    then show ?thesis using False by (simp add: fold_carry.simps [of t])
  qed
qed

text \<open>A checksum field is right iff the words sum to zero in one's complement arithmetic.\<close>

lemma complement_iff:
  fixes S :: nat
  assumes "1 \<le> r" "r \<le> 65535" "r mod 65535 = S mod 65535" "c \<le> 65535"
  shows "c = 65535 - r \<longleftrightarrow> c \<noteq> 65535 \<and> (S + c) mod 65535 = 0"
proof -
  have sum: "(S + c) mod 65535 = (r + c) mod 65535"
    using assms(3) by (metis mod_add_left_eq)
  have "(r + c) mod 65535 = 0 \<longleftrightarrow> c = 65535 - r" if "c < 65535"
  proof
    assume "(r + c) mod 65535 = 0"
    then obtain k where "r + c = 65535 * k" by (metis mod_0_imp_dvd dvd_def)
    moreover have "0 < r + c" "r + c < 65535 * 2" using assms that by simp_all
    ultimately have "0 < k" "k < 2" by (auto intro: gr0I)
    then have "k = 1" by simp
    then show "c = 65535 - r" using \<open>r + c = 65535 * k\<close> by simp
  qed (use assms in simp)
  then show ?thesis using sum assms(1,4) by (cases "c = 65535") auto
qed

lemma unat_not_fold:
  assumes "unat t \<le> 65535"
  shows "unat (ucast (NOT (t :: u32)) :: u16) = 65535 - unat t"
proof -
  have "NOT t = - 1 - t" by (simp add: not_eq_complement)
  then have "unat (NOT t) = 2 ^ 32 - 1 - unat t"
    using unat_sub [of t "- 1"]
    by (simp add: word_order.extremum unsigned_minus_1_eq_mask mask_eq_exp_minus_1)
  then have "unat (ucast (NOT t) :: u16) = (2 ^ 32 - 1 - unat t) mod 65536"
    by (simp add: unsigned_ucast_eq take_bit_eq_mod)
  also have "\<dots> = (65535 * 65536 + (65535 - unat t)) mod 65536"
    using assms by simp
  also have "\<dots> = 65535 - unat t"
    using assms by (simp only: mod_mult_self3) simp
  finally show ?thesis .
qed

lemma mem_of_load16: "load16 e bs = Some x \<Longrightarrow> mem16 e x = take 2 bs \<and> unat (ntoh16 e x) = be_sum (take 2 bs)"
  using ntoh_load(1) [of e bs] mem_load(1) [of e bs x] read_be16_sum [of bs "ntoh16 e x"] by simp





lemma unat_small: "n < 2 ^ 32 \<Longrightarrow> unat (of_nat n :: u32) = n"
  by (simp add: unat_of_nat)



text \<open>
  C30. \<open>ipv6_check\<close> and \<open>udp_check\<close> never read outside the packet, accept exactly the
  packets whose declared length covers the header and fits the data (and, for IPv6, whose
  version is 6), and hand on that many bytes of payload, on hosts of either byte order.
\<close>

theorem ipv6_udp_check_exact:
  "(\<exists>r. ipv6_check e data = Some r \<and>
     ((\<exists>h. r = Some (h, off, n)) \<longleftrightarrow>
      40 \<le> length data \<and> unat (data ! 0) div 16 = 6 \<and> off = 40 \<and>
      n = be_sum (take 2 (drop 4 data)) \<and> 40 + n \<le> length data)) \<and>
   (\<exists>r. udp_check e data = Some r \<and>
     ((\<exists>h. r = Some (h, off, n)) \<longleftrightarrow>
      8 \<le> length data \<and> off = 8 \<and> 8 + n = be_sum (take 2 (drop 4 data)) \<and> 8 + n \<le> length data))"
proof
  have version: "drop_bit 4 b = 6 \<longleftrightarrow> unat b div 16 = 6" for b :: u8
    by (simp add: word_unat_eq_iff drop_bit_eq_div unat_div)
  show "\<exists>r. ipv6_check e data = Some r \<and>
     ((\<exists>h. r = Some (h, off, n)) \<longleftrightarrow>
      40 \<le> length data \<and> unat (data ! 0) div 16 = 6 \<and> off = 40 \<and>
      n = be_sum (take 2 (drop 4 data)) \<and> 40 + n \<le> length data)"
  proof (cases "40 \<le> length data")
    case True
    obtain fl len where l: "load16 e (drop 2 data) = Some fl" "load16 e (drop 4 data) = Some len"
      using load16_total [of 2 data e] load16_total [of 4 data e] True by auto
    then have "\<exists>h. ipv6_header_load e data = Some h \<and> ip6_version4_tc4 h = data ! 0 \<and> ip6_payload_length h = len"
      using True by (auto simp: ipv6_header_load_def byte_at_def subbytes_def)
    then show ?thesis
      using True mem_of_load16 [OF l(2)] by (auto simp: ipv6_check_def Let_def ntoh8_def hton8_def version)
  qed (simp add: ipv6_check_def)
  show "\<exists>r. udp_check e data = Some r \<and>
     ((\<exists>h. r = Some (h, off, n)) \<longleftrightarrow>
      8 \<le> length data \<and> off = 8 \<and> 8 + n = be_sum (take 2 (drop 4 data)) \<and> 8 + n \<le> length data)"
  proof (cases "8 \<le> length data")
    case True
    obtain s d l c where l: "load16 e data = Some s" "load16 e (drop 2 data) = Some d"
        "load16 e (drop 4 data) = Some l" "load16 e (drop 6 data) = Some c"
      using load16_total [of 0 data e] load16_total [of 2 data e] load16_total [of 4 data e]
        load16_total [of 6 data e] True by auto
    show ?thesis
      using True l mem_of_load16 [OF l(3)]
      by (auto simp: udp_check_def udp_header_load_def Let_def)
  qed (simp add: udp_check_def)
qed

lemma summer_eq:
  "even len \<Longrightarrow> len \<le> length data \<Longrightarrow> udp_checksum_summer data len = Some (of_nat (be_sum (take len data)))"
  by (simp add: udp_checksum_summer_def sum_words_eq)

lemma summer_full:
  "udp_checksum_summer (mem32 e a) 4 = Some (of_nat (be_sum (mem32 e a)))"
  "udp_checksum_summer (badvpn_write_be16 w) 2 = Some (of_nat (be_sum (badvpn_write_be16 w)))"
  "udp_checksum_summer (udp_header_mem e h) 8 = Some (of_nat (be_sum (udp_header_mem e h)))"
  "udp_checksum_summer (badvpn_write_be32 l) 4 = Some (of_nat (be_sum (badvpn_write_be32 l)))"
  by (simp_all add: summer_eq be16.wr_length be32.wr_length udp_header_mem_def)

lemma summer_16: "length a = 16 \<Longrightarrow> udp_checksum_summer a 16 = Some (of_nat (be_sum a))"
  by (simp add: summer_eq)

lemma write_17: "be_sum (badvpn_write_be16 17) = 17" "be_sum (badvpn_write_be32 17) = 17"
  by (simp_all add: badvpn_write_be16_def badvpn_write_be32_def)

lemma payload_sum_eq:
  assumes "len \<le> length payload"
  shows "udp_payload_sum e payload len = Some (of_nat (be_sum (take len payload)))"
proof (cases "even len")
  case True
  then show ?thesis using assms by (simp add: udp_payload_sum_def summer_eq)
next
  case False
  then obtain k where k: "len = Suc k" "even k" by (metis even_Suc odd_pos gr0_conv_Suc)
  let ?b = "payload ! k"
  have "unat (push_bit 8 (ucast ?b) :: u16) = 256 * unat ?b"
    using unat_be16 [of ?b 0] by simp
  moreover have "be_sum (badvpn_write_be16 x) = unat x" for x
    using read_be16_sum [of "badvpn_write_be16 x" x] be16.rd_wr [of x "[]"] be16.wr_length [of x] by simp
  ultimately have "be_sum (mem16 e (hton16 e (push_bit 8 (ucast ?b)))) = 256 * unat ?b"
    by (simp only: hton_mem)
  then have "udp_checksum_summer (mem16 e (hton16 e (push_bit 8 (ucast ?b)))) 2 = Some (of_nat (256 * unat ?b))"
    by (simp add: summer_eq)
  moreover have "be_sum (take len payload) = be_sum (take k payload) + 256 * unat ?b"
    using assms k by (simp add: take_Suc_conv_app_nth be_sum_append)
  moreover have "Suc k mod 2 = 1" using k(2) by presburger
  ultimately show ?thesis
    using assms k by (simp add: udp_payload_sum_def summer_eq byte_at_def)
qed

lemma udp_finish_value:
  assumes "0 < S" "S < 2 ^ 32"
  shows "\<exists>x. udp_finish e (of_nat S) = hton16 e x \<and> unat x \<noteq> 65535 \<and> (S + unat x) mod 65535 = 0"
proof -
  let ?r = "fold_carry (of_nat S)"
  have S: "unat (of_nat S :: u32) = S" using assms(2) by (rule unat_small)
  then have "(of_nat S :: u32) \<noteq> 0" using assms(1) by (metis less_numeral_extra(3) unat_0)
  then have r: "unat ?r \<le> 65535" "unat ?r mod 65535 = S mod 65535" "1 \<le> unat ?r" "?r \<noteq> 0"
    using fold_carry_spec [of "of_nat S"] S by (simp_all add: Suc_le_eq unat_gt_0)
  have "unat (ucast (NOT ?r) :: u16) = 65535 - unat ?r" by (rule unat_not_fold [OF r(1)])
  then have "unat (ucast (NOT ?r) :: u16) \<noteq> 65535 \<and> (S + unat (ucast (NOT ?r) :: u16)) mod 65535 = 0"
    using complement_iff [OF r(3,1,2) unat_u16_le] by blast
  then show ?thesis using r(4) by (auto simp: udp_finish_def Let_def)
qed

definition udp_pseudo_sum4 :: "endian \<Rightarrow> u32 \<Rightarrow> u32 \<Rightarrow> u16 \<Rightarrow> nat" where
  "udp_pseudo_sum4 e source_addr dest_addr len =
     be_sum (mem32 e source_addr @ mem32 e dest_addr @ [0, 17] @ badvpn_write_be16 (8 + len))"

definition udp_pseudo_sum6 :: "bytes \<Rightarrow> bytes \<Rightarrow> u16 \<Rightarrow> nat" where
  "udp_pseudo_sum6 source_addr dest_addr len =
     be_sum (source_addr @ dest_addr @ badvpn_write_be32 (8 + ucast len) @ [0, 0, 0, 17])"

text \<open>
  C31. \<open>udp_checksum\<close> and \<open>udp_ip6_checksum\<close> read nothing outside the payload, and return
  the number that makes the words of pseudo header, header and payload (an odd last byte
  padded) add up to zero in one's complement arithmetic. It is never \<open>0xFFFF\<close>: where the
  words already add up to zero the value is 0, which on the wire says that there is no
  checksum; the test meant to replace it never applies.
\<close>

theorem udp_checksum_value:
  assumes "unat len \<le> length payload" "length source6 = 16" "length dest6 = 16"
  shows "\<exists>x y. udp_checksum e h payload len source4 dest4 = Some (hton16 e x) \<and>
      unat x \<noteq> 65535 \<and>
      (udp_pseudo_sum4 e source4 dest4 len + be_sum (udp_header_mem e h) + be_sum (take (unat len) payload) + unat x) mod 65535 = 0 \<and>
      udp_ip6_checksum e h payload len source6 dest6 = Some (hton16 e y) \<and>
      unat y \<noteq> 65535 \<and>
      (udp_pseudo_sum6 source6 dest6 len + be_sum (udp_header_mem e h) + be_sum (take (unat len) payload) + unat y) mod 65535 = 0"
proof -
  have lens: "length (udp_header_mem e h) = 8" by (simp add: udp_header_mem_def)
  have small: "be_sum (udp_header_mem e h) + be_sum (take (unat len) payload) \<le> 65535 * 32772"
    using be_sum_bound [of "udp_header_mem e h"] be_sum_bound [of "take (unat len) payload"] lens
      unat_u16_le [of len] assms(1) by simp
  let ?S4 = "udp_pseudo_sum4 e source4 dest4 len + be_sum (udp_header_mem e h) + be_sum (take (unat len) payload)"
  have "0 < ?S4" by (simp add: udp_pseudo_sum4_def be_sum_append)
  moreover have "?S4 < 2 ^ 32"
    using small be_sum_bound [of "mem32 e source4 @ mem32 e dest4 @ [0, 17] @ badvpn_write_be16 (8 + len)"]
    by (simp add: udp_pseudo_sum4_def be16.wr_length)
  moreover have "udp_checksum e h payload len source4 dest4 = Some (udp_finish e (of_nat ?S4))"
    unfolding udp_checksum_def udp_pseudo_sum4_def hton_mem summer_full(1-3) payload_sum_eq [OF assms(1)]
    by (simp add: be_sum_append be16.wr_length write_17 add.assoc)
  ultimately obtain x where x: "udp_checksum e h payload len source4 dest4 = Some (hton16 e x)"
      "unat x \<noteq> 65535" "(?S4 + unat x) mod 65535 = 0"
    using udp_finish_value [of ?S4 e] by auto
  let ?S6 = "udp_pseudo_sum6 source6 dest6 len + be_sum (udp_header_mem e h) + be_sum (take (unat len) payload)"
  have "0 < ?S6" using assms by (simp add: udp_pseudo_sum6_def be_sum_append be32.wr_length)
  moreover have "?S6 < 2 ^ 32"
    using small assms be_sum_bound [of "source6 @ dest6 @ badvpn_write_be32 (8 + ucast len) @ [0, 0, 0, 17]"]
    by (simp add: udp_pseudo_sum6_def be32.wr_length)
  moreover have "udp_ip6_checksum e h payload len source6 dest6 = Some (udp_finish e (of_nat ?S6))"
    unfolding udp_ip6_checksum_def udp_pseudo_sum6_def hton_mem summer_full(3-4)
      summer_16 [OF assms(2)] summer_16 [OF assms(3)] payload_sum_eq [OF assms(1)]
    by (simp add: be_sum_append be32.wr_length write_17 add.assoc assms(2,3))
  ultimately show ?thesis using x udp_finish_value [of ?S6 e] by auto
qed

theorem udp_checksum_value_witness:
  "\<exists>x y. udp_checksum LittleEndian \<lparr>udp_source_port = 1, udp_dest_port = 2, udp_length = 3, udp_checksum_field = 0\<rparr>
        [1, 2, 3] 3 7 8 = Some (hton16 LittleEndian x) \<and> unat x \<noteq> 65535 \<and>
      udp_ip6_checksum LittleEndian \<lparr>udp_source_port = 1, udp_dest_port = 2, udp_length = 3, udp_checksum_field = 0\<rparr>
        [1, 2, 3] 3 (replicate 16 1) (replicate 16 2) = Some (hton16 LittleEndian y) \<and> unat y \<noteq> 65535"
  using udp_checksum_value [of 3 "[1, 2, 3]" "replicate 16 1" "replicate 16 2" LittleEndian
      "\<lparr>udp_source_port = 1, udp_dest_port = 2, udp_length = 3, udp_checksum_field = 0\<rparr>" 7 8]
  by auto

end
