(* ===== verification/Inet_Checksum.thy ===== *)
theory Inet_Checksum
  imports IP_Proto
begin

text \<open>
  The Internet checksums of the network stack (\<open>lwip/src/core/inet_chksum.c\<close>): the three versions of \<open>lwip_standard_chksum\<close>, of which the second is
  compiled, and the checksums over buffers and over chains of packet buffers with and without a pseudo header. A pointer is known by its
  alignment. The specification is a sum of bytes with weights: a byte counts once or 256 times, depending on its position and on
  the byte order, and the sum is reduced to the representative between 1 and 65535, unless it is 0. Modulo 65535, a shift by one position is
  a multiplication by 256, which is an exchange of the bytes of a 16-bit number; everything else follows.
\<close>

section \<open>Reading memory\<close>

fun word16 :: "endian \<Rightarrow> u8 \<Rightarrow> u8 \<Rightarrow> u16" where
  "word16 LittleEndian a b = ucast a + push_bit 8 (ucast b)"
| "word16 BigEndian a b = push_bit 8 (ucast a) + ucast b"

fun word32 :: "endian \<Rightarrow> bytes \<Rightarrow> u32" where
  "word32 e (a # b # c # d # bs) =
     (case e of LittleEndian \<Rightarrow> ucast (word16 e a b) + push_bit 16 (ucast (word16 e c d))
      | BigEndian \<Rightarrow> push_bit 16 (ucast (word16 e a b)) + ucast (word16 e c d))"
| "word32 e _ = 0"

definition FOLD_U32T :: "u32 \<Rightarrow> u32" where
  "FOLD_U32T u = drop_bit 16 u + (u AND 0xFFFF)"

fun SWAP_BYTES_IN_WORD :: "endian \<Rightarrow> u32 \<Rightarrow> u32" where
  "SWAP_BYTES_IN_WORD LittleEndian w = ucast (hton16 LittleEndian (ucast w))"
| "SWAP_BYTES_IN_WORD BigEndian w = push_bit 8 (w AND 0xFF) OR drop_bit 8 (w AND 0xFF00)"

section \<open>The three versions\<close>

fun sum_octets :: "bytes \<Rightarrow> u32 \<Rightarrow> u32" where
  "sum_octets (a # b # bs) acc = sum_octets bs (acc + ucast (push_bit 8 (ucast a) OR ucast b :: u16))"
| "sum_octets [a] acc = acc + ucast (push_bit 8 (ucast a) :: u16)"
| "sum_octets [] acc = acc"

definition lwip_standard_chksum_1 :: "endian \<Rightarrow> bytes \<Rightarrow> u16" where
  "lwip_standard_chksum_1 e data =
     (let acc = sum_octets data 0;
          acc = drop_bit 16 acc + (acc AND 0xFFFF);
          acc = (if acc AND 0xFFFF0000 \<noteq> 0 then drop_bit 16 acc + (acc AND 0xFFFF) else acc)
      in hton16 e (ucast acc))"

fun sum_words16 :: "endian \<Rightarrow> bytes \<Rightarrow> u32 \<Rightarrow> u32 \<times> bytes" where
  \<comment> \<open>the sum, and what remains\<close>
  "sum_words16 e (a # b # bs) s = sum_words16 e bs (s + ucast (word16 e a b))"
| "sum_words16 e bs s = (s, bs)"

fun first_byte :: "bytes \<Rightarrow> u8" where
  "first_byte [] = 0"
| "first_byte (b # bs) = b"

definition lwip_standard_chksum :: "endian \<Rightarrow> bool \<Rightarrow> bytes \<Rightarrow> u16" where
  \<comment> \<open>\<open>od\<close> is whether the data starts at an odd address\<close>
  "lwip_standard_chksum e od data =
     (let (t1, pb) = (if od \<and> data \<noteq> [] then (hd data, tl data) else (0, data));
          (s, ps) = sum_words16 e pb 0;
          s = s + ucast (word16 e (first_byte ps) t1);
          s = FOLD_U32T s;
          s = FOLD_U32T s;
          s = (if od then SWAP_BYTES_IN_WORD e s else s)
      in ucast s)"

definition add_carry :: "u32 \<Rightarrow> u32 \<Rightarrow> u32" where
  \<comment> \<open>\<open>tmp = sum + x; if (tmp < sum) tmp++\<close>\<close>
  "add_carry s x = (let tmp = s + x in if tmp < s then tmp + 1 else tmp)"

function sum_words32 :: "endian \<Rightarrow> bytes \<Rightarrow> u32 \<Rightarrow> u32 \<times> bytes" where
  "sum_words32 e pl s =
     (if length pl > 7 then sum_words32 e (drop 8 pl) (add_carry (add_carry s (word32 e pl)) (word32 e (drop 4 pl)))
      else (s, pl))"
  by pat_completeness auto
termination
  by (relation "measure (\<lambda>(_, pl, _). length pl)") auto

declare sum_words32.simps [simp del]

definition lwip_standard_chksum_3 :: "endian \<Rightarrow> nat \<Rightarrow> bytes \<Rightarrow> u16" where
  \<comment> \<open>\<open>addr\<close> is the address of the data modulo 4\<close>
  "lwip_standard_chksum_3 e addr data =
     (let od = (addr mod 2 = 1);
          (t1, pb, addr) = (if od \<and> data \<noteq> [] then (hd data, tl data, addr + 1) else (0, data, addr));
          (s, ps) = (if addr mod 4 \<noteq> 0 \<and> length pb > 1 then (ucast (word16 e (pb ! 0) (pb ! 1)), drop 2 pb) else (0, pb));
          (s, pl) = sum_words32 e ps s;
          s = FOLD_U32T s;
          (s, ps) = sum_words16 e pl s;
          s = s + ucast (word16 e (first_byte ps) t1);
          s = FOLD_U32T s;
          s = FOLD_U32T s;
          s = (if od then SWAP_BYTES_IN_WORD e s else s)
      in ucast s)"

section \<open>Buffers and chains\<close>

type_synonym pbuf_chain = "(bool \<times> bytes) list"
  \<comment> \<open>for every packet buffer whether its payload starts at an odd address, and the payload\<close>

fun chksum_chain :: "endian \<Rightarrow> pbuf_chain \<Rightarrow> u32 \<Rightarrow> bool \<Rightarrow> u32 \<times> bool" where
  \<comment> \<open>the loop over the chain, with \<open>acc\<close> and \<open>swapped\<close>\<close>
  "chksum_chain e [] acc swapped = (acc, swapped)"
| "chksum_chain e ((od, payload) # q) acc swapped =
     (let acc = FOLD_U32T (acc + ucast (lwip_standard_chksum e od payload)) in
      if length payload mod 2 \<noteq> 0 then chksum_chain e q (SWAP_BYTES_IN_WORD e acc) (\<not> swapped)
      else chksum_chain e q acc swapped)"

definition unswap :: "endian \<Rightarrow> u32 \<times> bool \<Rightarrow> u32" where
  "unswap e r = (let (acc, swapped) = r in if swapped then SWAP_BYTES_IN_WORD e acc else acc)"

definition pseudo_finish :: "endian \<Rightarrow> u8 \<Rightarrow> u16 \<Rightarrow> u32 \<Rightarrow> u16" where
  "pseudo_finish e proto proto_len acc =
     (let acc = acc + ucast (hton16 e (ucast proto)) + ucast (hton16 e proto_len);
          acc = FOLD_U32T acc;
          acc = FOLD_U32T acc
      in ucast (NOT (acc AND 0xFFFF)))"

definition inet_cksum_pseudo_base :: "endian \<Rightarrow> pbuf_chain \<Rightarrow> u8 \<Rightarrow> u16 \<Rightarrow> u32 \<Rightarrow> u16" where
  "inet_cksum_pseudo_base e p proto proto_len acc = pseudo_finish e proto proto_len (unswap e (chksum_chain e p acc False))"

definition sum_addr :: "u32 \<Rightarrow> u32 \<Rightarrow> u32" where
  "sum_addr acc addr = acc + (addr AND 0xFFFF) + (drop_bit 16 addr AND 0xFFFF)"

definition inet_chksum_pseudo :: "endian \<Rightarrow> pbuf_chain \<Rightarrow> u8 \<Rightarrow> u16 \<Rightarrow> u32 \<Rightarrow> u32 \<Rightarrow> u16" where
  "inet_chksum_pseudo e p proto proto_len src dest =
     inet_cksum_pseudo_base e p proto proto_len (FOLD_U32T (FOLD_U32T (sum_addr (sum_addr 0 src) dest)))"

definition ip6_chksum_pseudo :: "endian \<Rightarrow> pbuf_chain \<Rightarrow> u8 \<Rightarrow> u16 \<Rightarrow> u32 list \<Rightarrow> u32 list \<Rightarrow> u16" where
  \<comment> \<open>the addresses are four words each\<close>
  "ip6_chksum_pseudo e p proto proto_len src dest =
     inet_cksum_pseudo_base e p proto proto_len
       (FOLD_U32T (FOLD_U32T (fold (\<lambda>i acc. sum_addr (sum_addr acc (src ! i)) (dest ! i)) [0..<4] 0)))"

fun chksum_chain_partial :: "endian \<Rightarrow> pbuf_chain \<Rightarrow> u16 \<Rightarrow> u32 \<Rightarrow> bool \<Rightarrow> (u32 \<times> bool) option" where
  "chksum_chain_partial e [] chksum_len acc swapped = Some (acc, swapped)"
| "chksum_chain_partial e ((od, payload) # q) chksum_len acc swapped =
     (if chksum_len = 0 then Some (acc, swapped)
      else let chklen = min (length payload) (unat chksum_len);
               acc = FOLD_U32T (acc + ucast (lwip_standard_chksum e od (take chklen payload)));
               chksum_len = chksum_len - of_nat chklen
        in do { cassert (chksum_len < 0x7FFF);
                if length payload mod 2 \<noteq> 0 then chksum_chain_partial e q chksum_len (SWAP_BYTES_IN_WORD e acc) (\<not> swapped)
                else chksum_chain_partial e q chksum_len acc swapped })"

definition inet_cksum_pseudo_partial_base :: "endian \<Rightarrow> pbuf_chain \<Rightarrow> u8 \<Rightarrow> u16 \<Rightarrow> u16 \<Rightarrow> u32 \<Rightarrow> u16 option" where
  "inet_cksum_pseudo_partial_base e p proto proto_len chksum_len acc =
     do { r \<leftarrow> chksum_chain_partial e p chksum_len acc False; Some (pseudo_finish e proto proto_len (unswap e r)) }"

definition inet_chksum_pseudo_partial :: "endian \<Rightarrow> pbuf_chain \<Rightarrow> u8 \<Rightarrow> u16 \<Rightarrow> u16 \<Rightarrow> u32 \<Rightarrow> u32 \<Rightarrow> u16 option" where
  "inet_chksum_pseudo_partial e p proto proto_len chksum_len src dest =
     inet_cksum_pseudo_partial_base e p proto proto_len chksum_len (FOLD_U32T (FOLD_U32T (sum_addr (sum_addr 0 src) dest)))"

definition ip6_chksum_pseudo_partial :: "endian \<Rightarrow> pbuf_chain \<Rightarrow> u8 \<Rightarrow> u16 \<Rightarrow> u16 \<Rightarrow> u32 list \<Rightarrow> u32 list \<Rightarrow> u16 option" where
  "ip6_chksum_pseudo_partial e p proto proto_len chksum_len src dest =
     inet_cksum_pseudo_partial_base e p proto proto_len chksum_len
       (FOLD_U32T (FOLD_U32T (fold (\<lambda>i acc. sum_addr (sum_addr acc (src ! i)) (dest ! i)) [0..<4] 0)))"

definition inet_chksum :: "endian \<Rightarrow> bool \<Rightarrow> bytes \<Rightarrow> u16" where
  "inet_chksum e od data = NOT (lwip_standard_chksum e od data)"


section \<open>Weighted sums\<close>

fun weight :: "endian \<Rightarrow> bool \<Rightarrow> nat" where
  "weight LittleEndian od = (if od then 256 else 1)"
| "weight BigEndian od = (if od then 1 else 256)"

fun osum :: "endian \<Rightarrow> bool \<Rightarrow> bytes \<Rightarrow> nat" where
  \<comment> \<open>\<open>od\<close> is whether the first byte is at an odd position\<close>
  "osum e od [] = 0"
| "osum e od (b # bs) = weight e od * unat b + osum e (\<not> od) bs"

definition ones :: "nat \<Rightarrow> nat" where
  \<comment> \<open>the sum in one's complement arithmetic: 0 only for 0\<close>
  "ones n = (if n = 0 then 0 else (n - 1) mod 65535 + 1)"

lemma osum_append: "osum e p (xs @ ys) = osum e p xs + osum e (p \<noteq> odd (length xs)) ys"
proof (induction xs arbitrary: p)
  case (Cons x xs)
  then show ?case by (cases p; cases "even (length xs)") simp_all
qed simp

lemma osum_be: "osum BigEndian False bs = be_sum bs"
  by (induction bs rule: be_sum.induct) auto

lemma osum_shift: "osum e (\<not> p) bs mod 65535 = 256 * osum e p bs mod 65535"
proof (induction bs arbitrary: p)
  case (Cons b bs)
  have w: "weight e (\<not> p) mod 65535 = 256 * weight e p mod 65535" by (cases e; cases p) simp_all
  have "weight e (\<not> p) * unat b mod 65535 = 256 * weight e p * unat b mod 65535"
    using w by (metis mod_mult_left_eq)
  then show ?case using Cons [of "\<not> p"] by (simp add: distrib_left mult.assoc) (metis mod_add_cong)
qed simp

lemma osum_zero: "osum e p bs = 0 \<longleftrightarrow> osum e q bs = 0"
proof (induction bs arbitrary: p q)
  case (Cons b bs)
  have "weight e x \<noteq> 0" for x by (cases e) auto
  then show ?case using Cons by (metis add_is_0 mult_is_0 osum.simps(2))
qed simp

lemma osum_bound: "osum e p bs \<le> 65535 * ((length bs + 1) div 2) + (if p then 65280 else 0)"
proof -
  have even: "osum e False xs \<le> 65535 * ((length xs + 1) div 2)" for xs
  proof (induction xs rule: be_sum.induct)
    case (1 a b bs)
    have "weight e False * unat a + weight e True * unat b \<le> 65535" using unat_byte_less [of a] unat_byte_less [of b] by (cases e) auto
    then show ?case using 1 by simp
  next
    case (2 a)
    then show ?case using unat_byte_less [of a] by (cases e) auto
  qed simp
  show ?thesis
  proof (cases "p \<and> bs \<noteq> []")
    case True
    then obtain a as where bs: "bs = a # as" by (cases bs) auto
    have "weight e True * unat a \<le> 65280" using unat_byte_less [of a] by (cases e) auto
    then show ?thesis using True even [of as] by (auto simp: bs intro!: order.trans [OF add_mono])
  next
    case False
    then show ?thesis using even [of bs] by (cases p) auto
  qed
qed

lemma mod_ones: "x \<le> 65535 \<Longrightarrow> x mod 65535 = (if x = 65535 then 0 else x :: nat)"
  by simp

lemma ones_eqI:
  assumes "m \<le> 65535" "m mod 65535 = n mod 65535" "m = 0 \<longleftrightarrow> n = 0"
  shows "m = ones n"
proof (cases n)
  case (Suc k)
  have k: "k mod 65535 + 1 \<le> 65535" by (simp add: Suc_le_eq)
  have "(k mod 65535 + 1) mod 65535 = m mod 65535" using assms(2) Suc by (simp add: mod_Suc_eq)
  then have "m = k mod 65535 + 1" using assms(3) Suc unfolding mod_ones [OF k] mod_ones [OF assms(1)] by (simp split: if_splits)
  then show ?thesis using Suc by (simp add: ones_def)
qed (use assms in \<open>simp add: ones_def\<close>)

lemma ones_props: "ones n mod 65535 = n mod 65535" "ones n \<le> 65535" "ones n = 0 \<longleftrightarrow> n = 0"
proof -
  show "ones n mod 65535 = n mod 65535" by (cases n) (simp_all add: ones_def mod_Suc_eq)
  show "ones n \<le> 65535" by (simp add: ones_def Suc_le_eq)
  show "ones n = 0 \<longleftrightarrow> n = 0" by (simp add: ones_def)
qed

lemma ones_cong: "m mod 65535 = n mod 65535 \<Longrightarrow> m = 0 \<longleftrightarrow> n = 0 \<Longrightarrow> ones m = ones n"
  by (rule ones_eqI) (simp_all add: ones_props)

lemma ones_add: "ones (ones m + n) = ones (m + n)"
  by (rule ones_cong) (auto simp: ones_props mod_add_left_eq [of "ones m", symmetric] mod_add_left_eq [of m, symmetric] ones_props(1) simp del: mod_add_left_eq)

section \<open>Words\<close>

lemma unat_hi_less: "unat (u :: u32) div 65536 < 65536"
proof -
  have "unat u < 2 ^ 32" using unsigned_less [of u] by simp
  then show ?thesis by simp
qed

lemma unat_fold: "unat (FOLD_U32T u) = unat u div 65536 + unat u mod 65536"
proof -
  have "unat u div 65536 + unat u mod 65536 < 2 ^ 32" using unat_hi_less [of u] mod_less_divisor [of 65536 "unat u"] by simp
  then show ?thesis by (simp add: FOLD_U32T_def unat_word_ariths unat_low unat_hi)
qed

lemma fold_mod: "unat (FOLD_U32T u) mod 65535 = unat u mod 65535" "unat (FOLD_U32T u) = 0 \<longleftrightarrow> unat u = 0"
proof -
  define q r where "q = unat u div 65536" and "r = unat u mod 65536"
  have u: "unat u = 65535 * q + (q + r)" using mult_div_mod_eq [of 65536 "unat u"] by (simp add: q_def r_def)
  show "unat (FOLD_U32T u) mod 65535 = unat u mod 65535" unfolding unat_fold q_def [symmetric] r_def [symmetric] unfolding u by (rule mod_mult_self4 [symmetric])
  show "unat (FOLD_U32T u) = 0 \<longleftrightarrow> unat u = 0" unfolding unat_fold q_def [symmetric] r_def [symmetric] unfolding u by auto
qed

lemma fold_ones:
  assumes "unat u \<le> 0x1FFFE"
  shows "unat (FOLD_U32T u) = ones (unat u)"
proof (rule ones_eqI)
  define q r where "q = unat u div 65536" and "r = unat u mod 65536"
  have u: "unat u = 65536 * q + r" "r < 65536" using mult_div_mod_eq [of 65536 "unat u"] by (simp_all add: q_def r_def)
  then consider "q = 0" | "q = 1" using assms by linarith
  then show "unat (FOLD_U32T u) \<le> 65535" unfolding unat_fold q_def [symmetric] r_def [symmetric] using u assms by cases linarith+
qed (rule fold_mod)+

lemma fold_twice: "unat (FOLD_U32T (FOLD_U32T u)) = ones (unat u)"
proof -
  have "unat (FOLD_U32T u) \<le> 0x1FFFE" unfolding unat_fold using unat_hi_less [of u] mod_less_divisor [of 65536 "unat u"] by linarith
  then have "unat (FOLD_U32T (FOLD_U32T u)) = ones (unat (FOLD_U32T u))" by (rule fold_ones)
  also have "\<dots> = ones (unat u)" by (rule ones_cong) (rule fold_mod)+
  finally show ?thesis .
qed

lemma unat_ucast_byte [simp]: "unat (ucast (b :: u8) :: u16) = unat b" "unat (ucast (b :: u8) :: u32) = unat b" "unat (ucast (w :: u16) :: u32) = unat w"
  by (simp_all add: unsigned_ucast_eq take_bit_nat_eq_self unat_byte_less [THEN less_le_trans] unat_u16_le [THEN le_less_trans])

lemma unat_word16: "unat (word16 e a b) = weight e False * unat a + weight e True * unat b"
  using unat_byte_less [of a] unat_byte_less [of b] by (cases e) (simp_all add: push_bit_eq_mult unat_word_ariths)

lemma osum_word16: "osum e False (a # b # bs) = unat (word16 e a b) + osum e False bs"
  by (simp add: unat_word16)

lemma osum_mem16: "osum e False (mem16 e x) = unat x"
proof -
  have "unat (ucast x :: u8) = unat x mod 256" "unat (ucast (drop_bit 8 x) :: u8) = unat x div 256"
    using unat_u16_le [of x] by (simp_all add: unsigned_ucast_eq take_bit_eq_mod drop_bit_eq_div unat_div)
  then show ?thesis by (cases e) simp_all
qed

lemma unat_hton16: "unat (hton16 e x) = osum e False (badvpn_write_be16 x)"
  using osum_mem16 [of e "hton16 e x"] by (simp add: hton_mem)

lemma unat_swap:
  assumes "unat w < 65536"
  shows "unat (SWAP_BYTES_IN_WORD e w) = 256 * (unat w mod 256) + unat w div 256"
proof (cases e)
  case LittleEndian
  have "unat (ucast w :: u16) = unat w" using assms by (simp add: unsigned_ucast_eq take_bit_nat_eq_self)
  moreover have "unat (ucast x :: u8) = unat x mod 256" "unat (ucast (drop_bit 8 x) :: u8) = unat x div 256" for x :: u16
    using unat_u16_le [of x] by (simp_all add: unsigned_ucast_eq take_bit_eq_mod drop_bit_eq_div unat_div)
  ultimately show ?thesis by (simp add: LittleEndian unat_hton16 badvpn_write_be16_def del: hton16.simps)
next
  case BigEndian
  have "drop_bit 8 (w AND 0xFF00) = take_bit 8 (drop_bit 8 w)" by (simp add: drop_bit_and take_bit_eq_mask mask_eq_exp_minus_1)
  moreover have "w AND 0xFF = take_bit 8 w" by (simp add: take_bit_eq_mask mask_eq_exp_minus_1)
  ultimately have "SWAP_BYTES_IN_WORD e w = push_bit 8 (take_bit 8 w) OR take_bit 8 (drop_bit 8 w)" by (simp add: BigEndian)
  also have "\<dots> = push_bit 8 (take_bit 8 w) + take_bit 8 (drop_bit 8 w)"
    by (rule disjunctive_add [symmetric]) (auto simp: bit_simps)
  finally have "unat (SWAP_BYTES_IN_WORD e w) = unat (push_bit 8 (take_bit 8 w) + take_bit 8 (drop_bit 8 w))" by simp
  moreover have "unat (take_bit 8 w) = unat w mod 256" by (simp only: unsigned_take_bit_eq) (simp add: take_bit_eq_mod)
  moreover have "unat (take_bit 8 (drop_bit 8 w)) = unat w div 256"
    using assms by (simp only: unsigned_take_bit_eq unsigned_drop_bit_eq) (simp add: take_bit_eq_mod drop_bit_eq_div)
  ultimately show ?thesis using assms by (simp add: push_bit_eq_mult unat_word_ariths)
qed

lemma swap_ones:
  assumes "unat w = ones n"
  shows "unat (SWAP_BYTES_IN_WORD e w) = ones (256 * n)"
proof (rule ones_eqI)
  define q r where "q = unat w div 256" and "r = unat w mod 256"
  have w: "unat w = 256 * q + r" "r < 256" "unat w < 65536"
    using mult_div_mod_eq [of 256 "unat w"] ones_props(2) [of n] assms by (simp_all add: q_def r_def)
  then have q: "q < 256" by linarith
  have s: "unat (SWAP_BYTES_IN_WORD e w) = 256 * r + q" using unat_swap [OF w(3)] by (simp add: q_def r_def)
  show "unat (SWAP_BYTES_IN_WORD e w) \<le> 65535" unfolding s using q w(2) by linarith
  have "256 * unat w = 65535 * q + (256 * r + q)" using w(1) by simp
  then have "(256 * r + q) mod 65535 = 256 * unat w mod 65535" by (metis mod_mult_self4)
  also have "\<dots> = 256 * n mod 65535" unfolding assms by (metis mod_mult_right_eq ones_props(1))
  finally show "unat (SWAP_BYTES_IN_WORD e w) mod 65535 = 256 * n mod 65535" unfolding s .
  have "256 * r + q = 0 \<longleftrightarrow> unat w = 0" using w(1) by auto
  then show "unat (SWAP_BYTES_IN_WORD e w) = 0 \<longleftrightarrow> 256 * n = 0" unfolding s assms ones_props(3) by simp
qed

lemma ones_shift: "ones (256 * osum e p bs) = ones (osum e (\<not> p) bs)"
  by (rule ones_cong) (use osum_shift [of e p bs] osum_zero [of e p bs "\<not> p"] in auto)

lemma sum_words16_eq:
  assumes "sum_words16 e bs s = (s', rest)" "unat s + osum e False bs < 2 ^ 32"
  shows "unat s' + osum e False rest = unat s + osum e False bs" "length rest \<le> 1"
proof -
  have "unat s' + osum e False rest = unat s + osum e False bs \<and> length rest \<le> 1"
    using assms
  proof (induction e bs s rule: sum_words16.induct)
    case (1 e a b bs s)
    have "unat (s + ucast (word16 e a b)) = unat s + unat (word16 e a b)"
      using 1(3) osum_word16 [of e a b bs] by (simp add: unat_word_ariths del: osum.simps)
    then show ?case using 1 osum_word16 [of e a b bs] by (simp del: osum.simps)
  qed auto
  then show "unat s' + osum e False rest = unat s + osum e False bs" "length rest \<le> 1" by simp_all
qed

lemma osum_short: "length bs \<le> 1 \<Longrightarrow> osum e p bs = weight e p * unat (first_byte bs)"
  by (cases bs) auto

lemma chksum_tail:
  assumes "sum_words16 e pb s = (s', ps)" "unat s + osum e False pb + weight e True * unat t1 < 2 ^ 32"
    and "ones (unat s + osum e False pb + weight e True * unat t1) = ones (osum e od data)"
    and "f = FOLD_U32T (FOLD_U32T (s' + ucast (word16 e (first_byte ps) t1)))"
  shows "unat (ucast (if od then SWAP_BYTES_IN_WORD e f else f) :: u16) = ones (osum e False data)"
proof -
  have w: "unat s' + osum e False ps = unat s + osum e False pb" "length ps \<le> 1"
    using sum_words16_eq [OF assms(1)] assms(2) by simp_all
  have "unat s' + unat (word16 e (first_byte ps) t1) = unat s + osum e False pb + weight e True * unat t1"
    using w osum_short [OF w(2), of e False] by (simp add: unat_word16)
  then have "unat (s' + ucast (word16 e (first_byte ps) t1)) = unat s + osum e False pb + weight e True * unat t1"
    using assms(2) by (simp add: unat_word_ariths)
  then have f: "unat f = ones (osum e od data)" unfolding assms(4) fold_twice by (simp add: assms(3))
  have "unat (if od then SWAP_BYTES_IN_WORD e f else f) = ones (osum e False data)"
    using f swap_ones [OF f] ones_shift [of e True data] by (cases od) simp_all
  then show ?thesis using ones_props(2) [of "osum e False data"]
    by (simp add: unsigned_ucast_eq take_bit_nat_eq_self del: unat_ucast_byte)
qed

lemma osum_head:
  assumes "(t1, pb) = (if od \<and> data \<noteq> [] then (hd data, tl data) else (0, data))"
  shows "osum e False pb + weight e True * unat t1 = osum e od data"
  using assms by (cases data; cases od) auto

lemma osum_small:
  assumes "length data \<le> 0x20000"
  shows "osum e od data < 2 ^ 32"
proof -
  have "(length data + 1) div 2 \<le> 65536" using assms by linarith
  then have "65535 * ((length data + 1) div 2) + (if od then 65280 else 0) < (2 ^ 32 :: nat)" by simp
  then show ?thesis using osum_bound [of e od data] by (rule le_less_trans [rotated])
qed

lemma chksum_value:
  assumes "length data \<le> 0x20000"
  shows "unat (lwip_standard_chksum e od data) = ones (osum e False data)"
proof -
  obtain t1 pb where t: "(t1, pb) = (if od \<and> data \<noteq> [] then (hd data, tl data) else (0, data))" by (metis surj_pair)
  obtain s ps where s: "sum_words16 e pb 0 = (s, ps)" by fastforce
  show ?thesis
    unfolding lwip_standard_chksum_def t [symmetric] prod.case s Let_def
    using chksum_tail [OF s _ _ refl, where od = od and data = data] osum_small [OF assms, of e od] osum_head [OF t, of e] by simp
qed

section \<open>Chains\<close>

definition pbuf_data :: "pbuf_chain \<Rightarrow> bytes" where
  "pbuf_data p = concat (map snd p)"

definition pbufs_ok :: "pbuf_chain \<Rightarrow> bool" where
  \<comment> \<open>the field \<open>len\<close> of a packet buffer has 16 bits\<close>
  "pbufs_ok p \<longleftrightarrow> list_all (\<lambda>(od, payload). length payload < 65536) p"

lemma ones_ones: "ones (ones n) = ones n"
  using ones_add [of n 0] by simp

lemma ones_add_cong: "ones m = ones m' \<Longrightarrow> ones n = ones n' \<Longrightarrow> ones (m + n) = ones (m' + n')"
  by (metis add.commute ones_add)

lemma ones_twice: "ones (256 * (256 * n)) = ones n"
proof (rule ones_cong)
  have "256 * (256 * n) = 65535 * n + n" by simp
  then show "256 * (256 * n) mod 65535 = n mod 65535" by (simp only: mod_mult_self4)
qed simp

lemma fold_step:
  assumes "unat acc = ones m" "unat (x :: u16) = ones n"
  shows "unat (FOLD_U32T (acc + ucast x)) = ones (m + n)"
proof -
  have le: "unat acc + unat x \<le> 0x1FFFE" using assms ones_props(2) [of m] ones_props(2) [of n] by simp
  then have "unat (acc + ucast x) = unat acc + unat x" by (simp add: unat_word_ariths)
  then have "unat (FOLD_U32T (acc + ucast x)) = ones (unat acc + unat x)" using fold_ones [of "acc + ucast x"] le by simp
  also have "\<dots> = ones (m + n)" by (rule ones_add_cong) (simp_all add: assms ones_ones)
  finally show ?thesis .
qed

text \<open>With \<open>swapped\<close> the accumulator holds 256 times the sum of the bytes so far.\<close>

lemma chain_step:
  assumes "unat acc = ones ((if sw then 256 else 1) * n)" "length payload \<le> 0x20000"
  shows "unat (FOLD_U32T (acc + ucast (lwip_standard_chksum e od payload))) = ones ((if sw then 256 else 1) * (n + osum e sw payload))"
proof -
  have "ones (osum e False payload) = ones ((if sw then 256 else 1) * osum e sw payload)" using ones_shift [of e True payload] by simp
  then have "unat (lwip_standard_chksum e od payload) = ones ((if sw then 256 else 1) * osum e sw payload)" using chksum_value [OF assms(2)] by simp
  from fold_step [OF assms(1) this] show ?thesis by (simp add: distrib_left)
qed

lemma swap_step:
  assumes "unat acc = ones ((if sw then 256 else 1) * n)"
  shows "unat (SWAP_BYTES_IN_WORD e acc) = ones ((if sw then 1 else 256) * n)"
  using swap_ones [OF assms] ones_twice [of n] by (cases sw) simp_all

lemma chain_value:
  assumes "unat acc = ones ((if sw then 256 else 1) * n)" "pbufs_ok p"
  shows "unat (unswap e (chksum_chain e p acc sw)) = ones (n + osum e sw (pbuf_data p))"
  using assms
proof (induction e p acc sw arbitrary: n rule: chksum_chain.induct)
  case (1 e acc sw)
  then show ?case using swap_step [of acc sw n] by (cases sw) (simp_all add: unswap_def pbuf_data_def)
next
  case (2 e od payload q acc sw)
  let ?acc = "FOLD_U32T (acc + ucast (lwip_standard_chksum e od payload))"
  have ok: "length payload \<le> 0x20000" "pbufs_ok q" using "2.prems"(2) by (simp_all add: pbufs_ok_def)
  note acc = chain_step [OF "2.prems"(1) ok(1), of e od]
  have data: "osum e sw (pbuf_data ((od, payload) # q)) = osum e sw payload + osum e (sw \<noteq> odd (length payload)) (pbuf_data q)"
    by (simp add: pbuf_data_def osum_append)
  show ?case
  proof (cases "odd (length payload)")
    case True
    have "unat (SWAP_BYTES_IN_WORD e ?acc) = ones ((if \<not> sw then 256 else 1) * (n + osum e sw payload))"
      using swap_step [OF acc] by simp
    then show ?thesis using "2.IH"(1) [OF refl _ _ ok(2)] True unfolding data by (simp add: Let_def odd_iff_mod_2_eq_one add.assoc)
  next
    case False
    then show ?thesis using "2.IH"(2) [OF refl _ acc ok(2)] unfolding data by (simp add: Let_def even_iff_mod_2_eq_zero add.assoc)
  qed
qed

lemma unat_complement:
  assumes "unat acc \<le> 65535"
  shows "unat (ucast (NOT (acc AND 0xFFFF :: u32)) :: u16) = 65535 - unat acc"
proof -
  have "unat (acc AND 0xFFFF) = unat acc" using assms unat_low [of acc] by simp
  then show ?thesis using unat_not_fold [of "acc AND 0xFFFF"] assms by simp
qed


lemma buffer_value:
  assumes "length data \<le> 0x20000"
  shows "unat (inet_chksum e od data) = 65535 - ones (osum e False data)"
proof -
  let ?c = "lwip_standard_chksum e od data"
  have "NOT ?c = - 1 - ?c" by (simp add: not_eq_complement)
  then have "unat (NOT ?c) = 65535 - unat ?c"
    using unat_sub [of ?c "- 1"] by (simp add: word_order.extremum unsigned_minus_1_eq_mask mask_eq_exp_minus_1)
  then show ?thesis using chksum_value [OF assms] by (simp add: inet_chksum_def)
qed




section \<open>The versions agree\<close>

lemma ones_small: "n \<le> 65535 \<Longrightarrow> ones n = n"
  by (rule ones_eqI [symmetric]) simp_all

lemma ones_times: "ones (256 * ones n) = ones (256 * n)"
  by (rule ones_cong) (metis mod_mult_right_eq ones_props(1), simp add: ones_props(3))

lemma osum_other: "osum LittleEndian p bs = osum BigEndian (\<not> p) bs"
  by (induction bs arbitrary: p) auto

lemma hton_ones:
  assumes "unat x = ones (be_sum data)"
  shows "unat (hton16 e x) = ones (osum e False data)"
proof (cases e)
  case LittleEndian
  have le: "ones (osum LittleEndian False bs) = ones (256 * be_sum bs)" for bs
    using ones_shift [of BigEndian False bs] by (simp add: osum_other osum_be)
  have "unat (hton16 e x) = ones (osum LittleEndian False (badvpn_write_be16 x))"
    using ones_small [OF unat_u16_le [of "hton16 e x"]] by (simp add: LittleEndian unat_hton16 del: hton16.simps)
  also have "\<dots> = ones (256 * unat x)" using osum_mem16 [of BigEndian x] by (simp only: le mem_write osum_be)
  also have "\<dots> = ones (osum LittleEndian False data)" by (simp only: assms ones_times le)
  finally show ?thesis using LittleEndian by simp
next
  case BigEndian
  then show ?thesis using assms by (simp add: osum_be)
qed

lemma sum_octets_eq:
  "unat acc + be_sum bs < 2 ^ 32 \<Longrightarrow> unat (sum_octets bs acc) = unat acc + be_sum bs"
proof (induction bs acc rule: sum_octets.induct)
  case (1 a b bs acc)
  have "unat (acc + ucast (push_bit 8 (ucast a) OR ucast b :: u16)) = unat acc + (256 * unat a + unat b)"
    using "1.prems" unat_be16 [of a b] by (simp add: unat_word_ariths)
  then show ?case using 1 by (simp del: unat_ucast_byte)
next
  case (2 a acc)
  then show ?case using unat_be16 [of a 0] by (simp add: unat_word_ariths)
qed simp

lemma fold_if: "(if acc AND 0xFFFF0000 \<noteq> 0 then FOLD_U32T acc else acc) = FOLD_U32T acc"
proof (cases "acc AND 0xFFFF0000 \<noteq> 0")
  case False
  have "drop_bit 16 (acc AND 0xFFFF0000) = drop_bit 16 acc AND drop_bit 16 0xFFFF0000" by simp
  also have "drop_bit 16 (0xFFFF0000 :: u32) = mask 16" by (simp add: mask_eq_exp_minus_1)
  also have "drop_bit 16 acc AND mask 16 = drop_bit 16 acc" by (rule bit_word_eqI) (auto simp: bit_simps dest: bit_imp_le_length)
  finally have "drop_bit 16 acc = 0" using False by (metis drop_bit_of_0)
  then have "unat acc div 65536 = 0" using unat_hi [of acc] by simp
  then show ?thesis using False unat_fold [of acc] by (simp add: word_unat_eq_iff)
qed simp

lemma version1_value:
  assumes "length data \<le> 0x20000"
  shows "unat (lwip_standard_chksum_1 e data) = ones (osum e False data)"
proof -
  have "be_sum data < 2 ^ 32" using osum_small [OF assms, of BigEndian False] by (simp add: osum_be)
  then have "unat (FOLD_U32T (FOLD_U32T (sum_octets data 0))) = ones (be_sum data)" using sum_octets_eq [of 0 data] by (simp add: fold_twice)
  then have "unat (ucast (FOLD_U32T (FOLD_U32T (sum_octets data 0))) :: u16) = ones (be_sum data)"
    using ones_props(2) [of "be_sum data"] by (simp add: unsigned_ucast_eq take_bit_nat_eq_self)
  from hton_ones [OF this] show ?thesis unfolding lwip_standard_chksum_1_def Let_def FOLD_U32T_def [symmetric] fold_if .
qed

lemma add_carry_ones: "ones (unat (add_carry s x)) = ones (unat s + unat x)"
proof (cases "unat s + unat x < 2 ^ 32")
  case True
  then show ?thesis by (simp add: add_carry_def word_less_nat_alt unat_word_ariths)
next
  case False
  have "unat s < 2 ^ 32" "unat x < 2 ^ 32" using unsigned_less [of s] unsigned_less [of x] by simp_all
  then have t: "unat (s + x) = unat s + unat x - 2 ^ 32" using False by (simp add: unat_word_ariths mod_if)
  then have "unat (s + x) < unat s" using False \<open>unat x < 2 ^ 32\<close> by linarith
  moreover have "unat (s + x + 1) = unat (s + x) + 1" using t \<open>unat s < 2 ^ 32\<close> \<open>unat x < 2 ^ 32\<close> by (simp add: unat_word_ariths)
  ultimately have "unat s + unat x = 65535 * 65537 + unat (add_carry s x)" "unat (add_carry s x) \<noteq> 0"
    using t False by (simp_all add: add_carry_def word_less_nat_alt)
  then show ?thesis by (intro ones_cong) (simp_all only: mod_mult_self4, simp)
qed

lemma carry_step: "ones (unat s) = ones m \<Longrightarrow> ones (unat x) = ones n \<Longrightarrow> ones (unat (add_carry s x)) = ones (m + n)"
  unfolding add_carry_ones by (rule ones_add_cong)

lemma word32_ones: "ones (unat (word32 e (a # b # c # d # bs))) = ones (osum e False [a, b, c, d])"
proof -
  have w: "unat (ucast x + push_bit 16 (ucast y) :: u32) = 65535 * unat y + (unat x + unat y)" for x y :: u16
    using unat_u16_le [of x] unat_u16_le [of y] by (simp add: push_bit_eq_mult unat_word_ariths)
  have "ones (65535 * n + (m + n)) = ones (m + n)" for m n by (rule ones_cong) (simp_all only: mod_mult_self4, auto)
  then show ?thesis by (cases e) (simp_all add: w add.commute [of "push_bit 16 _"] osum_word16 add.commute del: osum.simps(2))
qed

lemma sum_words32_ones:
  assumes "sum_words32 e pl s = (s', rest)"
  shows "ones (unat s' + osum e False rest) = ones (unat s + osum e False pl) \<and> length rest \<le> 7"
  using assms
proof (induction e pl s rule: sum_words32.induct)
  case (1 e pl s)
  show ?case
  proof (cases "length pl > 7")
    case True
    then obtain a b c d a' b' c' d' r where pl: "pl = a # b # c # d # a' # b' # c' # d' # r"
      by (auto simp: Suc_le_length_iff numeral_eq_Suc less_eq_Suc_le)
    let ?s = "add_carry s (word32 e pl)" and ?w = "word32 e (drop 4 pl)"
    have "ones (unat ?s) = ones (unat s + osum e False [a, b, c, d])"
      by (rule carry_step) (simp_all only: pl word32_ones)
    then have "ones (unat (add_carry ?s ?w)) = ones (unat s + osum e False [a, b, c, d] + osum e False [a', b', c', d'])"
      by (rule carry_step) (simp add: pl word32_ones del: osum.simps word32.simps)
    then have "ones (unat (add_carry ?s ?w) + osum e False r) = ones (unat s + osum e False [a, b, c, d] + osum e False [a', b', c', d'] + osum e False r)"
      by (rule ones_add_cong) simp
    also have "\<dots> = ones (unat s + osum e False pl)" by (simp add: pl add.assoc)
    finally have "ones (unat (add_carry ?s ?w) + osum e False (drop 8 pl)) = ones (unat s + osum e False pl)" by (simp add: pl)
    moreover have "sum_words32 e (drop 8 pl) (add_carry ?s ?w) = (s', rest)" using "1.prems" True by (simp only: sum_words32.simps [of e pl s] if_True)
    ultimately show ?thesis using "1.IH" [OF True] by simp
  next
    case False
    then show ?thesis using 1 by (simp add: sum_words32.simps [of e pl s])
  qed
qed

lemma version3_value: "unat (lwip_standard_chksum_3 e addr data) = ones (osum e False data)"
proof -
  define od where "od = (addr mod 2 = 1)"
  obtain t1 pb where t: "(t1, pb) = (if od \<and> data \<noteq> [] then (hd data, tl data) else (0, data))" by (metis surj_pair)
  define addr' where "addr' = (if od \<and> data \<noteq> [] then addr + 1 else addr)"
  obtain s ps where s: "(s, ps) = (if addr' mod 4 \<noteq> 0 \<and> length pb > 1 then (ucast (word16 e (pb ! 0) (pb ! 1)), drop 2 pb) else (0 :: u32, pb))"
    by (metis surj_pair)
  have s_sum: "unat s + osum e False ps = osum e False pb"
  proof (cases "addr' mod 4 \<noteq> 0 \<and> length pb > 1")
    case True
    then obtain a b r where "pb = a # b # r" by (cases pb rule: be_sum.cases) auto
    then show ?thesis using s True by (simp add: osum_word16 del: osum.simps)
  qed (use s in auto)
  obtain s2 pl where s2: "sum_words32 e ps s = (s2, pl)" by fastforce
  note r = sum_words32_ones [OF s2]
  obtain s3 ps3 where s3: "sum_words16 e pl (FOLD_U32T s2) = (s3, ps3)" by fastforce
  have "unat (FOLD_U32T s2) \<le> 131070" unfolding unat_fold using unat_hi_less [of s2] mod_less_divisor [of 65536 "unat s2"] by linarith
  moreover have "osum e False pl \<le> 65535 * 4" using osum_bound [of e False pl] r by (auto elim!: order.trans)
  moreover have "weight e True * unat t1 \<le> 65280" using unat_byte_less [of t1] by (cases e) auto
  ultimately have bound: "unat (FOLD_U32T s2) + osum e False pl + weight e True * unat t1 < 2 ^ 32" by simp
  have "ones (unat (FOLD_U32T s2)) = ones (unat s2)" by (rule ones_cong) (rule fold_mod)+
  then have "ones (unat (FOLD_U32T s2) + osum e False pl) = ones (osum e False pb)"
    using r s_sum ones_add_cong [of "unat (FOLD_U32T s2)" "unat s2" "osum e False pl" "osum e False pl"] by simp
  then have "ones (unat (FOLD_U32T s2) + osum e False pl + weight e True * unat t1) = ones (osum e od data)"
    using ones_add_cong [of "unat (FOLD_U32T s2) + osum e False pl" "osum e False pb"] osum_head [OF t, of e] by metis
  note tail = chksum_tail [OF s3 bound this refl]
  have h: "(if od \<and> data \<noteq> [] then (hd data, tl data, addr + 1) else (0, data, addr)) = (t1, pb, addr')"
    using t by (auto simp: addr'_def split: if_splits)
  show ?thesis unfolding lwip_standard_chksum_3_def od_def [symmetric] Let_def h prod.case s [symmetric] s2 s3 by (rule tail)
qed

text \<open>
  C22. The three versions of the checksum routine agree: on every buffer a caller can name, at every address and on either byte order,
  the simple loop over the octets, the loop over aligned 16-bit words with its swapped result, and the unrolled loop over 32-bit words
  with its carries all return the one's complement sum of the big-endian words in network order.
\<close>

theorem chksum_versions_agree:
  assumes "length data < 65536"
  shows "lwip_standard_chksum e od data = hton16 e (of_nat (ones (be_sum data))) \<and>
     lwip_standard_chksum_1 e data = hton16 e (of_nat (ones (be_sum data))) \<and>
     lwip_standard_chksum_3 e addr data = hton16 e (of_nat (ones (be_sum data)))"
proof -
  have len: "length data \<le> 0x20000" using assms by simp
  have "unat (of_nat (ones (be_sum data)) :: u16) = ones (be_sum data)" using ones_props(2) [of "be_sum data"] by (simp add: unat_of_nat)
  from hton_ones [OF this] show ?thesis
    by (simp add: word_unat_eq_iff chksum_value [OF len] version1_value [OF len] version3_value)
qed

theorem chksum_versions_agree_witness:
  "length [1 :: u8, 2, 3] < 65536 \<and> lwip_standard_chksum LittleEndian True [1, 2, 3] = hton16 LittleEndian 0x402 \<and>
   lwip_standard_chksum_1 LittleEndian [1, 2, 3] = hton16 LittleEndian 0x402 \<and>
   lwip_standard_chksum_3 LittleEndian 3 [1, 2, 3] = hton16 LittleEndian 0x402"
  using chksum_versions_agree [of "[1, 2, 3]" LittleEndian True 3] by (simp add: ones_def)

section \<open>Pseudo headers\<close>

lemma osum_mem32: "osum e False (mem32 e a) = unat a mod 65536 + unat a div 65536"
proof -
  have b: "ucast (ucast a :: u16) = (ucast a :: u8)" "ucast (drop_bit 8 (ucast a :: u16)) = (ucast (drop_bit 8 a) :: u8)" for a :: u32
    by (rule bit_word_eqI; auto simp: bit_simps)+
  let ?lo = "ucast a :: u16" and ?hi = "ucast (drop_bit 16 a) :: u16"
  have m: "mem32 e a = (case e of LittleEndian \<Rightarrow> mem16 e ?lo @ mem16 e ?hi | BigEndian \<Rightarrow> mem16 e ?hi @ mem16 e ?lo)"
    by (cases e) (simp_all add: b)
  have "unat ?lo = unat a mod 65536" "unat ?hi = unat a div 65536"
    using unat_hi_less [of a] by (simp_all add: unsigned_ucast_eq take_bit_eq_mod unat_hi)
  then show ?thesis unfolding m by (cases e) (simp_all add: osum_append osum_mem16 del: mem16.simps)
qed

lemma sum_addr_value:
  assumes "unat acc + 131070 < 2 ^ 32"
  shows "unat (sum_addr acc a) = unat acc + osum e False (mem32 e a)"
proof -
  have "unat a div 65536 mod 65536 = unat a div 65536" using unat_hi_less [of a] by simp
  then show ?thesis using assms unat_hi_less [of a] mod_less_divisor [of 65536 "unat a"]
    by (simp add: sum_addr_def osum_mem32 unat_word_ariths unat_low unat_hi)
qed

lemma write_be16_byte: "badvpn_write_be16 (ucast (b :: u8)) = [0, b]"
proof -
  have "ucast (drop_bit 8 (ucast b :: u16)) = (0 :: u8)" "ucast (ucast b :: u16) = b"
    by (rule bit_word_eqI; auto simp: bit_simps dest: bit_imp_le_length)+
  then show ?thesis by (simp add: badvpn_write_be16_def)
qed

lemma finish_value:
  assumes "unat acc = ones n"
  shows "unat (pseudo_finish e proto plen acc) = 65535 - ones (n + osum e False ([0, proto] @ badvpn_write_be16 plen))"
proof -
  let ?acc = "acc + ucast (hton16 e (ucast proto)) + ucast (hton16 e plen)"
  have "unat (hton16 e (ucast proto)) + unat (hton16 e plen) = osum e False ([0, proto] @ badvpn_write_be16 plen)"
    by (simp only: unat_hton16 write_be16_byte osum_append) simp
  moreover have "unat ?acc = unat acc + (unat (hton16 e (ucast proto)) + unat (hton16 e plen))"
    using unat_u16_le [of "hton16 e (ucast proto)"] unat_u16_le [of "hton16 e plen"] ones_props(2) [of n] assms by (simp add: unat_word_ariths)
  ultimately have "unat (FOLD_U32T (FOLD_U32T ?acc)) = ones (n + osum e False ([0, proto] @ badvpn_write_be16 plen))"
    unfolding fold_twice by (simp only: assms ones_add)
  then show ?thesis unfolding pseudo_finish_def Let_def using unat_complement [of "FOLD_U32T (FOLD_U32T ?acc)"] ones_props(2) by simp
qed

lemma take_append_min:
  assumes "k = min (length xs) c"
  shows "osum e sw (take c (xs @ ys)) = osum e sw (take k xs) + osum e (sw \<noteq> odd (length xs)) (take (c - k) ys)"
proof (cases "length xs \<le> c")
  case True
  then show ?thesis using assms by (simp add: osum_append)
qed (use assms in simp)

lemma chain_partial_value:
  assumes "unat acc = ones ((if sw then 256 else 1) * n)" "pbufs_ok p" "unat clen < 0x7FFF"
  shows "\<exists>r. chksum_chain_partial e p clen acc sw = Some r \<and> unat (unswap e r) = ones (n + osum e sw (take (unat clen) (pbuf_data p)))"
  using assms
proof (induction e p clen acc sw arbitrary: n rule: chksum_chain_partial.induct)
  case (1 e clen acc sw)
  then show ?case using swap_step [of acc sw n] by (cases sw) (simp_all add: unswap_def pbuf_data_def)
next
  case (2 e od payload q clen acc sw)
  show ?case
  proof (cases "clen = 0")
    case True
    then show ?thesis using "2.prems" swap_step [of acc sw n] by (cases sw) (simp_all add: unswap_def)
  next
    case False
    define k where "k = min (length payload) (unat clen)"
    let ?acc = "FOLD_U32T (acc + ucast (lwip_standard_chksum e od (take k payload)))" and ?n = "n + osum e sw (take k payload)"
    have ok: "length (take k payload) \<le> 0x20000" "pbufs_ok q" using "2.prems"(2) by (simp_all add: pbufs_ok_def min_le_iff_disj)
    have c: "unat (clen - of_nat k) = unat clen - k" "clen - of_nat k < 0x7FFF"
    proof -
      have "unat (of_nat k :: u16) = k" using unat_u16_le [of clen] by (simp add: k_def unat_of_nat min_def)
      then show "unat (clen - of_nat k) = unat clen - k" using unat_sub [of "of_nat k" clen] by (simp add: k_def word_le_nat_alt)
      then show "clen - of_nat k < 0x7FFF" using "2.prems"(3) by (simp add: word_less_nat_alt)
    qed
    have data: "osum e sw (take (unat clen) (pbuf_data ((od, payload) # q))) =
        osum e sw (take k payload) + osum e (sw \<noteq> odd (length payload)) (take (unat clen - k) (pbuf_data q))"
      using take_append_min [OF k_def, of e sw "pbuf_data q"] by (simp add: pbuf_data_def)
    note acc = chain_step [OF "2.prems"(1) ok(1), of e od]
    have acc': "unat (SWAP_BYTES_IN_WORD e ?acc) = ones ((if \<not> sw then 256 else 1) * ?n)" using swap_step [OF acc] by simp
    have less: "unat (clen - of_nat k) < 0x7FFF" using c "2.prems"(3) by simp
    show ?thesis
      using False c(2) "2.IH"(1) [OF False refl refl refl _ _ acc' [unfolded k_def] ok(2) less [unfolded k_def]]
        "2.IH"(2) [OF False refl refl refl _ _ acc [unfolded k_def] ok(2) less [unfolded k_def]]
      unfolding data c(1) [unfolded k_def] k_def
      by (cases "odd (length payload)") (simp_all add: Let_def c odd_iff_mod_2_eq_one add.assoc)
  qed
qed

definition ipv4_pseudo_header :: "endian \<Rightarrow> u8 \<Rightarrow> u16 \<Rightarrow> u32 \<Rightarrow> u32 \<Rightarrow> bytes" where
  "ipv4_pseudo_header e proto plen src dest = mem32 e src @ mem32 e dest @ [0, proto] @ badvpn_write_be16 plen"

definition ipv6_pseudo_header :: "endian \<Rightarrow> u8 \<Rightarrow> u16 \<Rightarrow> u32 list \<Rightarrow> u32 list \<Rightarrow> bytes" where
  "ipv6_pseudo_header e proto plen src dest =
     concat (map (mem32 e) src) @ concat (map (mem32 e) dest) @ badvpn_write_be32 (ucast plen) @ [0, 0, 0, proto]"

lemma base_value:
  assumes "unat acc = ones n" "pbufs_ok p" "length hdr + length data \<le> 0x20000" "even (length hdr)"
    and "osum e False hdr = n + osum e False ([0, proto] @ badvpn_write_be16 plen)"
  shows "data = pbuf_data p \<Longrightarrow> inet_cksum_pseudo_base e p proto plen acc = inet_chksum e od (hdr @ data)"
    and "data = take (unat clen) (pbuf_data p) \<Longrightarrow> unat clen < 0x7FFF \<Longrightarrow>
      inet_cksum_pseudo_partial_base e p proto plen clen acc = Some (inet_chksum e od (hdr @ data))"
proof -
  have fin: "pseudo_finish e proto plen a = inet_chksum e od (hdr @ data)" if "unat a = ones (n + osum e False data)" for a
    using finish_value [OF that, of e proto plen] buffer_value [of "hdr @ data" e od] assms(3-5)
    by (simp add: word_unat_eq_iff osum_append ac_simps)
  have acc: "unat acc = ones ((if False then 256 else 1) * n)" using assms(1) by simp
  show "inet_cksum_pseudo_base e p proto plen acc = inet_chksum e od (hdr @ data)" if "data = pbuf_data p"
    unfolding inet_cksum_pseudo_base_def by (rule fin) (simp add: that chain_value [OF acc assms(2)])
  show "inet_cksum_pseudo_partial_base e p proto plen clen acc = Some (inet_chksum e od (hdr @ data))"
    if "data = take (unat clen) (pbuf_data p)" "unat clen < 0x7FFF"
    unfolding inet_cksum_pseudo_partial_base_def using chain_partial_value [OF acc assms(2) that(2), of e] fin that(1) by fastforce
qed

lemma sum_addr_le: "osum e False (mem32 e a) \<le> 131070"
  unfolding osum_mem32 using unat_hi_less [of a] mod_less_divisor [of 65536 "unat a"] by linarith

lemma header4_value:
  "unat (FOLD_U32T (FOLD_U32T (sum_addr (sum_addr 0 src) dest))) = ones (osum e False (mem32 e src @ mem32 e dest))"
  using sum_addr_value [of 0 src e] sum_addr_value [of "sum_addr 0 src" dest e] sum_addr_le [of e src]
  by (simp add: fold_twice osum_append)

lemma addrs_value:
  assumes "m \<le> 4" "m \<le> length src" "m \<le> length dest"
  shows "unat (fold (\<lambda>i acc. sum_addr (sum_addr acc (src ! i)) (dest ! i)) [0..<m] 0) =
     osum e False (concat (map (mem32 e) (take m src)) @ concat (map (mem32 e) (take m dest)))"
  using assms
proof (induction m)
  case (Suc m)
  let ?f = "fold (\<lambda>i acc. sum_addr (sum_addr acc (src ! i)) (dest ! i)) [0..<m] 0"
  have len: "even (length (concat (map (mem32 e) xs)))" for xs by (induction xs) auto
  have "length (concat (map (mem32 e) xs)) = 4 * length xs" for xs by (induction xs) auto
  then have "unat ?f \<le> 65535 * 16"
    using Suc osum_bound [of e False "concat (map (mem32 e) (take m src)) @ concat (map (mem32 e) (take m dest))"]
    by (simp del: length_concat)
  then show ?case
    using Suc sum_addr_value [of ?f "src ! m" e] sum_addr_value [of "sum_addr ?f (src ! m)" "dest ! m" e] sum_addr_le [of e "src ! m"] len
    by (simp add: take_Suc_conv_app_nth osum_append del: length_concat)
qed simp

lemma header6_value:
  assumes "length src = 4" "length dest = 4"
  shows "unat (FOLD_U32T (FOLD_U32T (fold (\<lambda>i acc. sum_addr (sum_addr acc (src ! i)) (dest ! i)) [0..<4] 0))) =
     ones (osum e False (concat (map (mem32 e) src) @ concat (map (mem32 e) dest)))"
  using addrs_value [of 4 src dest e] assms by (simp only: fold_twice) simp

lemma pseudo_header_facts:
  "even (length (ipv4_pseudo_header e proto plen src dest))" "length (ipv4_pseudo_header e proto plen src dest) = 12"
  "osum e False (ipv4_pseudo_header e proto plen src dest) =
     osum e False (mem32 e src @ mem32 e dest) + osum e False ([0, proto] @ badvpn_write_be16 plen)"
  "length src6 = 4 \<Longrightarrow> length dest6 = 4 \<Longrightarrow> length (ipv6_pseudo_header e proto plen src6 dest6) = 40"
  "length src6 = 4 \<Longrightarrow> length dest6 = 4 \<Longrightarrow> osum e False (ipv6_pseudo_header e proto plen src6 dest6) =
     osum e False (concat (map (mem32 e) src6) @ concat (map (mem32 e) dest6)) + osum e False ([0, proto] @ badvpn_write_be16 plen)"
proof -
  have len: "length (concat (map (mem32 e) xs)) = 4 * length xs" for xs by (induction xs) auto
  show "even (length (ipv4_pseudo_header e proto plen src dest))" "length (ipv4_pseudo_header e proto plen src dest) = 12"
    by (simp_all add: ipv4_pseudo_header_def be16.wr_length)
  show "osum e False (ipv4_pseudo_header e proto plen src dest) =
     osum e False (mem32 e src @ mem32 e dest) + osum e False ([0, proto] @ badvpn_write_be16 plen)"
    by (simp add: ipv4_pseudo_header_def osum_append)
  show "length (ipv6_pseudo_header e proto plen src6 dest6) = 40" if "length src6 = 4" "length dest6 = 4"
    using that by (simp add: ipv6_pseudo_header_def be32.wr_length len del: length_concat)
  have "ucast (drop_bit 24 (ucast plen :: u32)) = (0 :: u8)" "ucast (drop_bit 16 (ucast plen :: u32)) = (0 :: u8)"
    "ucast (drop_bit 8 (ucast plen :: u32)) = (ucast (drop_bit 8 plen) :: u8)" "ucast (ucast plen :: u32) = (ucast plen :: u8)"
    by (rule bit_word_eqI; auto simp: bit_simps dest: bit_imp_le_length)+
  then have w: "badvpn_write_be32 (ucast plen) = [0, 0] @ badvpn_write_be16 plen"
    by (simp add: badvpn_write_be32_def badvpn_write_be16_def)
  show "osum e False (ipv6_pseudo_header e proto plen src6 dest6) =
     osum e False (concat (map (mem32 e) src6) @ concat (map (mem32 e) dest6)) + osum e False ([0, proto] @ badvpn_write_be16 plen)"
    if "length src6 = 4" "length dest6 = 4"
    using that by (simp add: ipv6_pseudo_header_def osum_append len w be16.wr_length del: length_concat)
qed

text \<open>
  C21. The checksums of TCP and UDP are those of RFC 793 and RFC 2460: the checksum of a chain with a pseudo header is the checksum of one
  buffer with the addresses, the protocol and the length in network order followed by the bytes of the chain, for IPv4 and IPv6, on either
  byte order. The partial checksums cover the first bytes of the chain instead, and their assertion holds below 32767 bytes,
  although the parity of a whole buffer is used where only a part of it is summed.
\<close>

theorem pseudo_checksums_exact:
  assumes "pbufs_ok p" "length (pbuf_data p) < 65536" "length src6 = 4" "length dest6 = 4" "unat clen < 0x7FFF"
  shows "inet_chksum_pseudo e p proto plen src dest = inet_chksum e od (ipv4_pseudo_header e proto plen src dest @ pbuf_data p) \<and>
     ip6_chksum_pseudo e p proto plen src6 dest6 = inet_chksum e od (ipv6_pseudo_header e proto plen src6 dest6 @ pbuf_data p) \<and>
     inet_chksum_pseudo_partial e p proto plen clen src dest =
       Some (inet_chksum e od (ipv4_pseudo_header e proto plen src dest @ take (unat clen) (pbuf_data p))) \<and>
     ip6_chksum_pseudo_partial e p proto plen clen src6 dest6 =
       Some (inet_chksum e od (ipv6_pseudo_header e proto plen src6 dest6 @ take (unat clen) (pbuf_data p)))"
  (is "?a \<and> ?b \<and> ?c \<and> ?d")
proof (intro conjI)
  note h4 = header4_value [of src dest e] and h6 = header6_value [OF assms(3,4), of e]
  note facts = pseudo_header_facts(1-3) pseudo_header_facts(4,5) [OF assms(3,4)]
  show ?a unfolding inet_chksum_pseudo_def by (rule base_value(1) [OF h4 assms(1)]) (use assms(2) in \<open>simp_all add: facts\<close>)
  show ?b unfolding ip6_chksum_pseudo_def by (rule base_value(1) [OF h6 assms(1)]) (use assms(2) in \<open>simp_all add: facts\<close>)
  show ?c unfolding inet_chksum_pseudo_partial_def
    by (rule base_value(2) [OF h4 assms(1) _ _ _ refl assms(5)]) (use assms(2) in \<open>simp_all add: facts\<close>)
  show ?d unfolding ip6_chksum_pseudo_partial_def
    by (rule base_value(2) [OF h6 assms(1) _ _ _ refl assms(5)]) (use assms(2) in \<open>simp_all add: facts\<close>)
qed

theorem pseudo_checksums_exact_witness:
  "inet_chksum_pseudo LittleEndian [(True, [1]), (False, [2, 3])] 17 3 0x0100000A 0x0200000A =
     inet_chksum LittleEndian False [10, 0, 0, 1, 10, 0, 0, 2, 0, 17, 0, 3, 1, 2, 3] \<and>
   inet_chksum_pseudo_partial LittleEndian [(True, [1]), (False, [2, 3])] 17 3 2 0x0100000A 0x0200000A =
     Some (inet_chksum LittleEndian False [10, 0, 0, 1, 10, 0, 0, 2, 0, 17, 0, 3, 1, 2])"
proof -
  have "ipv4_pseudo_header LittleEndian 17 3 0x0100000A 0x0200000A = [10, 0, 0, 1, 10, 0, 0, 2, 0, 17, 0, 3]" by code_simp
  then show ?thesis
    using pseudo_checksums_exact [of "[(True, [1]), (False, [2, 3])]" "[1, 2, 3, 4]" "[5, 6, 7, 8]" 2 LittleEndian 17 3 "0x0100000A" "0x0200000A" False]
    by (simp add: pbufs_ok_def pbuf_data_def)
qed

end
