(* ===== verification/Parse_Number.thy ===== *)
theory Parse_Number
  imports Prelude
begin

text \<open>
  Numeric strings (\<open>misc/parse_number.h\<close>): the decimal and hexadecimal parsers with their
  two different overflow checks, the sign-magnitude parser, and the generator of decimal
  representations, which writes backwards into a caller's buffer. A \<open>MemRef\<close> is a string;
  \<open>uintmax_t\<close> is a 64-bit word; a parser that returns 0 is \<^term>\<open>None\<close>.
\<close>

section \<open>Digits\<close>

text \<open>The two \<open>switch\<close> statements, as tables of case labels and results.\<close>

definition switch_table :: "(char \<times> int) list \<Rightarrow> char \<Rightarrow> int" where
  "switch_table table c = (case map_of table c of Some d \<Rightarrow> d | None \<Rightarrow> -1)"

definition decode_decimal_digit :: "char \<Rightarrow> int" where
  "decode_decimal_digit c = switch_table (zip ''0123456789'' [0, 1, 2, 3, 4, 5, 6, 7, 8, 9]) c"

definition decode_hex_digit :: "char \<Rightarrow> int" where
  "decode_hex_digit c =
     switch_table (zip ''0123456789AaBbCcDdEeFf''
       [0, 1, 2, 3, 4, 5, 6, 7, 8, 9, 10, 10, 11, 11, 12, 12, 13, 13, 14, 14, 15, 15]) c"

section \<open>Parsers\<close>

definition parse_number__uintmax_max_str :: string where
  "parse_number__uintmax_max_str = ''18446744073709551615''"

fun memcmp :: "string \<Rightarrow> string \<Rightarrow> int" where
  \<comment> \<open>the sign of \<open>memcmp\<close> on two objects of the same size\<close>
  "memcmp (x # xs) (y # ys) =
     (if x = y then memcmp xs ys else if of_char x < (of_char y :: nat) then -1 else 1)"
| "memcmp _ _ = 0"

fun parse__no_overflow_loop :: "string \<Rightarrow> u64 \<Rightarrow> u64 option" where
  "parse__no_overflow_loop [] n = Some n"
| "parse__no_overflow_loop (c # cs) n =
     (if of_char c < (48 :: nat) \<or> (57 :: nat) < of_char c then None
      else parse__no_overflow_loop cs (10 * n + of_nat (of_char c - 48)))"

definition parse__no_overflow :: "string \<Rightarrow> u64 option" where
  "parse__no_overflow str = parse__no_overflow_loop str 0"

definition parse_unsigned_integer :: "string \<Rightarrow> u64 option" where
  "parse_unsigned_integer str =
     (if length str = 0 then None
      else let str = dropWhile (\<lambda>c. c = CHR ''0'') str;
               max_len = length parse_number__uintmax_max_str
           in if max_len < length str \<or>
                 (length str = max_len \<and> 0 < memcmp str parse_number__uintmax_max_str) then None
              else parse__no_overflow str)"

fun parse_unsigned_hex_integer_loop :: "string \<Rightarrow> u64 \<Rightarrow> u64 option" where
  "parse_unsigned_hex_integer_loop [] n = Some n"
| "parse_unsigned_hex_integer_loop (c # cs) n =
     (let digit = decode_hex_digit c in
      if digit < 0 then None
      else if n > (- 1) div 16 then None
      else let n = n * 16 in
           if (word_of_int digit :: u64) > (- 1) - n then None
           else parse_unsigned_hex_integer_loop cs (n + word_of_int digit))"

definition parse_unsigned_hex_integer :: "string \<Rightarrow> u64 option" where
  "parse_unsigned_hex_integer str =
     (if length str = 0 then None else parse_unsigned_hex_integer_loop str 0)"

definition parse_signmag_integer :: "string \<Rightarrow> (int \<times> u64) option" where
  "parse_signmag_integer str =
     (let (sign, str) =
        (case str of
           c # cs \<Rightarrow> if c = CHR ''+'' \<or> c = CHR ''-''
                     then (1 - 2 * (if c = CHR ''-'' then 1 else 0), cs) else (1, str)
         | [] \<Rightarrow> (1, str))
      in case parse_unsigned_integer str of None \<Rightarrow> None | Some mag \<Rightarrow> Some (sign, mag))"

section \<open>Generating decimal representations\<close>

lemma word_div_10_less: "x div 10 > 0 \<Longrightarrow> unat (x div 10) < unat (x :: u64)"
  by (simp add: unat_div word_less_nat_alt)

function compute_decimal_repr_size_loop :: "u64 \<Rightarrow> nat \<Rightarrow> nat" where
  "compute_decimal_repr_size_loop x sz =
     (if x div 10 > 0 then compute_decimal_repr_size_loop (x div 10) (Suc sz) else Suc sz)"
  by pat_completeness auto
termination
  by (relation "measure (\<lambda>(x, _). unat x)") (auto simp: word_div_10_less)

definition compute_decimal_repr_size :: "u64 \<Rightarrow> nat" where
  "compute_decimal_repr_size x = compute_decimal_repr_size_loop x 0"

text \<open>
  \<open>out\<close> is the caller's buffer; the loop's pointer starts \<open>repr_size\<close> characters into it
  and moves down before each write. A write below or past the buffer is \<^term>\<open>None\<close>.
\<close>

function generate_decimal_repr_loop :: "u64 \<Rightarrow> string \<Rightarrow> nat \<Rightarrow> string option" where
  "generate_decimal_repr_loop x out p =
     (if p = 0 \<or> length out < p then None
      else let out = out[p - 1 := char_of (48 + unat (x mod 10))] in
           if x div 10 > 0 then generate_decimal_repr_loop (x div 10) out (p - 1) else Some out)"
  by pat_completeness auto
termination
  by (relation "measure (\<lambda>(x, _). unat x)") (auto simp: word_div_10_less)

definition generate_decimal_repr :: "u64 \<Rightarrow> string \<Rightarrow> nat \<Rightarrow> string option" where
  "generate_decimal_repr x out repr_size =
     do { cassert (repr_size = compute_decimal_repr_size x);
          generate_decimal_repr_loop x out repr_size }"

definition generate_decimal_repr_string :: "u64 \<Rightarrow> string \<Rightarrow> (nat \<times> string) option" where
  "generate_decimal_repr_string x out =
     (let repr_size = compute_decimal_repr_size x in
      do { out \<leftarrow> generate_decimal_repr x out repr_size;
           cassert (repr_size < length out);
           Some (repr_size, out[repr_size := CHR 0x00]) })"

declare compute_decimal_repr_size_loop.simps [simp del] generate_decimal_repr_loop.simps [simp del]

section \<open>Values of digit strings\<close>

definition digit_value :: "char \<Rightarrow> nat" where
  "digit_value c = of_char c - 48"

definition is_digit :: "char \<Rightarrow> bool" where
  "is_digit c \<longleftrightarrow> (48 :: nat) \<le> of_char c \<and> of_char c \<le> (57 :: nat)"

fun dec_value :: "string \<Rightarrow> nat" where
  "dec_value [] = 0"
| "dec_value (c # cs) = digit_value c * 10 ^ length cs + dec_value cs"

fun hex_value :: "string \<Rightarrow> nat" where
  "hex_value [] = 0"
| "hex_value (c # cs) = nat (decode_hex_digit c) * 16 ^ length cs + hex_value cs"

definition is_hex :: "char \<Rightarrow> bool" where
  "is_hex c \<longleftrightarrow> decode_hex_digit c \<ge> 0"

lemma char_eq_code: "(c = d) = (of_char c = (of_char d :: nat))"
  by simp

lemma decode_decimal_digit_code:
  "decode_decimal_digit c = (if is_digit c then int (digit_value c) else -1)"
  unfolding decode_decimal_digit_def switch_table_def is_digit_def digit_value_def
  by (simp add: char_eq_code del: of_char_eq_iff) presburger

lemma decode_hex_digit_bounds: "-1 \<le> decode_hex_digit c \<and> decode_hex_digit c \<le> 15"
  unfolding decode_hex_digit_def switch_table_def by simp

lemma digit_value_less: "is_digit c \<Longrightarrow> digit_value c < 10"
  by (auto simp: is_digit_def digit_value_def)

lemma dec_value_less: "list_all is_digit s \<Longrightarrow> dec_value s < 10 ^ length s"
proof (induction s)
  case (Cons c cs)
  then have "digit_value c \<le> 9" "dec_value cs < 10 ^ length cs"
    using digit_value_less [of c] by auto
  moreover have "digit_value c * 10 ^ length cs \<le> 9 * 10 ^ length cs"
    using calculation(1) by simp
  ultimately show ?case 
    using add_le_less_mono [of _ "9 * 10 ^ length cs" "dec_value cs" "10 ^ length cs"] by fastforce
qed simp

lemma dec_value_ge: "list_all is_digit (c # cs) \<Longrightarrow> c \<noteq> CHR ''0'' \<Longrightarrow> 10 ^ length cs \<le> dec_value (c # cs)"
proof -
  assume "list_all is_digit (c # cs)" "c \<noteq> CHR ''0''"
  then have "1 \<le> digit_value c"
    unfolding char_eq_code by (simp add: is_digit_def digit_value_def del: of_char_eq_iff) arith
  then have "1 * 10 ^ length cs \<le> digit_value c * 10 ^ length cs"
    by (rule mult_le_mono1)
  then show ?thesis unfolding dec_value.simps by linarith
qed

lemma dec_value_dropWhile: "dec_value (dropWhile (\<lambda>c. c = CHR ''0'') s) = dec_value s"
  by (induction s) (auto simp: digit_value_def)

lemma list_all_dropWhile_zero:
  "list_all is_digit (dropWhile (\<lambda>c. c = CHR ''0'') s) = list_all is_digit s"
  by (induction s) (auto simp: is_digit_def)

text \<open>On digit strings of the same length, byte order is the order of the values.\<close>

lemma memcmp_dec_value:
  assumes "length xs = length ys" "list_all is_digit xs" "list_all is_digit ys"
  shows "0 < memcmp xs ys \<longleftrightarrow> dec_value ys < dec_value xs"
  using assms
proof (induction xs ys rule: list_induct2)
  case (Cons x xs y ys)
  have bx: "dec_value xs < 10 ^ length xs" and "dec_value ys < 10 ^ length ys"
    using Cons.prems by (auto intro: dec_value_less)
  then have bound: "dec_value xs < 10 ^ length xs" "dec_value ys < 10 ^ length xs"
    using Cons.hyps by auto
  have lex: "a < b \<Longrightarrow> a * m + v < b * m + w" if "v < m" for a b m v w :: nat
  proof -
    assume "a < b"
    then have "Suc a * m \<le> b * m" by (intro mult_le_mono1) simp
    with that show ?thesis by simp
  qed
  show ?case
  proof (cases "x = y")
    case True
    then show ?thesis using Cons by simp
  next
    case False
    have dig: "digit_value x < digit_value y \<longleftrightarrow> of_char x < (of_char y :: nat)"
      using Cons.prems by (auto simp: is_digit_def digit_value_def)
    have ne: "digit_value x \<noteq> digit_value y"
      using Cons.prems False unfolding char_eq_code
      by (auto simp: is_digit_def digit_value_def simp del: of_char_eq_iff)
    show ?thesis
    proof (cases "digit_value x < digit_value y")
      case True
      then have "dec_value (x # xs) < dec_value (y # ys)"
        using lex [OF bound(1)] Cons.hyps by simp
      then show ?thesis using True False dig by simp
    next
      case ge: False
      then have "dec_value (y # ys) < dec_value (x # xs)"
        using lex [OF bound(2)] Cons.hyps ne by simp
      then show ?thesis using ge False dig by simp
    qed
  qed
qed simp

lemma uintmax_max_str:
  "length parse_number__uintmax_max_str = 20" "list_all is_digit parse_number__uintmax_max_str"
  "dec_value parse_number__uintmax_max_str = 18446744073709551615"
  by (simp_all add: parse_number__uintmax_max_str_def is_digit_def digit_value_def)

lemma no_overflow_loop:
  "parse__no_overflow_loop s n =
     (if list_all is_digit s then Some (n * 10 ^ length s + of_nat (dec_value s)) else None)"
proof (induction s arbitrary: n)
  case (Cons c cs)
  have "is_digit c \<longleftrightarrow> \<not> (of_char c < (48 :: nat) \<or> (57 :: nat) < of_char c)"
    by (auto simp: is_digit_def)
  then show ?case
    using Cons by (simp add: distrib_right mult.assoc power_commutes flip: digit_value_def)
qed simp

lemma overflow_check:
  assumes "list_all is_digit s" and "s = [] \<or> hd s \<noteq> CHR ''0''"
  shows "20 < length s \<or> (length s = 20 \<and> 0 < memcmp s parse_number__uintmax_max_str) \<longleftrightarrow> 2 ^ 64 \<le> dec_value s"
proof (cases "length s" "20 :: nat" rule: linorder_cases)
  case less
  then have "dec_value s < 10 ^ length s" "(10 :: nat) ^ length s \<le> 10 ^ 19"
    using dec_value_less [OF assms(1)] power_increasing [of "length s" 19 "10 :: nat"] by auto
  then have "dec_value s < 2 ^ 64" by simp
  then show ?thesis using less by simp
next
  case equal
  then show ?thesis
    using memcmp_dec_value [of s parse_number__uintmax_max_str] assms(1)
    by (simp add: uintmax_max_str) linarith
next
  case greater
  then obtain c cs where s: "s = c # cs" by (cases s) auto
  then have "(10 :: nat) ^ length cs \<le> dec_value s"
    using assms dec_value_ge by auto
  moreover have "(10 :: nat) ^ 20 \<le> 10 ^ length cs"
    using greater s by (intro power_increasing) auto
  ultimately have "2 ^ 64 \<le> dec_value s" by simp
  then show ?thesis using greater by simp
qed

lemma parse_unsigned_integer_eq:
  "parse_unsigned_integer s =
     (if s \<noteq> [] \<and> list_all is_digit s \<and> dec_value s < 2 ^ 64 then Some (of_nat (dec_value s)) else None)"
proof -
  let ?z = "dropWhile (\<lambda>c. c = CHR ''0'') s"
  have hd: "?z = [] \<or> hd ?z \<noteq> CHR ''0''"
    by (induction s) auto
  show ?thesis
  proof (cases "list_all is_digit s")
    case True
    then have z: "list_all is_digit ?z" by (simp add: list_all_dropWhile_zero)
    show ?thesis
      using overflow_check [OF z hd] True
      by (auto simp: parse_unsigned_integer_def Let_def uintmax_max_str parse__no_overflow_def
          no_overflow_loop list_all_dropWhile_zero dec_value_dropWhile)
  next
    case False
    then show ?thesis
      by (auto simp: parse_unsigned_integer_def Let_def parse__no_overflow_def
          no_overflow_loop list_all_dropWhile_zero)
  qed
qed

lemma parse_unsigned_integer_Some_iff:
  "parse_unsigned_integer s = Some v \<longleftrightarrow> s \<noteq> [] \<and> list_all is_digit s \<and> dec_value s = unat v"
  using unsigned_less [of v] by (auto simp: parse_unsigned_integer_eq unat_of_nat)

lemma tag_Some_iff: "(case r of None \<Rightarrow> None | Some m \<Rightarrow> Some (t, m)) = Some (t', m') \<longleftrightarrow> r = Some m' \<and> t = t'"
  by (cases r) auto

lemma sign_not_digit: "\<not> is_digit CHR ''-''" "\<not> is_digit CHR ''+''"
  by (simp_all add: is_digit_def)

text \<open>
  C36. \<open>parse_unsigned_integer\<close> returns \<open>v\<close> exactly on the non-empty strings of decimal
  digits, leading zeros included, whose value is the 64-bit \<open>v\<close>: the comparison with the
  text of \<open>UINTMAX_MAX\<close> rejects all overflows and nothing else. \<open>parse_signmag_integer\<close>
  accepts in addition one leading sign, and reports it beside the magnitude.
\<close>

theorem parse_unsigned_integer_exact:
  "(parse_unsigned_integer s = Some v \<longleftrightarrow> s \<noteq> [] \<and> list_all is_digit s \<and> dec_value s = unat v) \<and>
   (parse_signmag_integer s = Some (sg, v) \<longleftrightarrow>
      (\<exists>ds. ds \<noteq> [] \<and> list_all is_digit ds \<and> dec_value ds = unat v \<and>
         (s = CHR ''-'' # ds \<and> sg = -1 \<or> (s = CHR ''+'' # ds \<or> s = ds) \<and> sg = 1)))"
  by (cases s) (auto simp: parse_signmag_integer_def parse_unsigned_integer_Some_iff sign_not_digit tag_Some_iff)

section \<open>Hexadecimal strings\<close>

lemma hex_digit_range:
  "is_hex c \<Longrightarrow> nat (decode_hex_digit c) \<le> 15 \<and> decode_hex_digit c = int (nat (decode_hex_digit c))"
  using decode_hex_digit_bounds [of c] by (auto simp: is_hex_def)

lemma hex_step_overflow:
  fixes n :: u64
  assumes "d \<le> 15"
  shows "n > (- 1) div 16 \<or> (word_of_nat d :: u64) > (- 1) - n * 16 \<longleftrightarrow> 2 ^ 64 \<le> unat n * 16 + d"
    and "unat n * 16 + d < 2 ^ 64 \<Longrightarrow> unat (n * 16 + word_of_nat d) = unat n * 16 + d"
proof -
  have big: "n > (- 1) div 16 \<longleftrightarrow> 2 ^ 64 \<le> unat n * 16"
    by (simp add: word_less_nat_alt unat_div) linarith
  have d: "unat (word_of_nat d :: u64) = d"
    using assms by (simp add: unat_of_nat)
  show "n > (- 1) div 16 \<or> (word_of_nat d :: u64) > (- 1) - n * 16 \<longleftrightarrow> 2 ^ 64 \<le> unat n * 16 + d"
  proof (cases "2 ^ 64 \<le> unat n * 16")
    case False
    then have "unat (n * 16) = unat n * 16"
      by (simp add: unat_word_ariths)
    moreover have "unat (- 1 - n * 16) = 2 ^ 64 - 1 - unat (n * 16)"
      by (subst unat_sub) (simp_all add: word_order.extremum unsigned_minus_1_eq_mask mask_eq_exp_minus_1)
    ultimately show ?thesis
      using False big d by (auto simp: word_less_nat_alt)
  qed (use big in auto)
  show "unat (n * 16 + word_of_nat d) = unat n * 16 + d" if "unat n * 16 + d < 2 ^ 64"
    using that d by (simp add: unat_word_ariths)
qed

lemma hex_loop_exact:
  "parse_unsigned_hex_integer_loop s n =
     (if list_all is_hex s \<and> unat n * 16 ^ length s + hex_value s < 2 ^ 64
      then Some (of_nat (unat n * 16 ^ length s + hex_value s)) else None)"
proof (induction s arbitrary: n)
  case (Cons c cs)
  show ?case
  proof (cases "is_hex c")
    case True
    define d where "d = nat (decode_hex_digit c)"
    have d: "d \<le> 15" "decode_hex_digit c = int d" "\<not> decode_hex_digit c < 0"
      using hex_digit_range [OF True] by (auto simp: d_def)
    have split: "unat n * 16 ^ length (c # cs) + hex_value (c # cs) =
        (unat n * 16 + d) * 16 ^ length cs + hex_value cs"
      by (simp add: d_def algebra_simps)
    show ?thesis
    proof (cases "2 ^ 64 \<le> unat n * 16 + d")
      case over: True
      then have "(2 ^ 64 :: nat) * 1 \<le> (unat n * 16 + d) * 16 ^ length cs"
        by (intro mult_le_mono) simp_all
      then show ?thesis
        using over hex_step_overflow(1) [OF d(1), of n] True d
        unfolding split by (auto simp: Let_def simp flip: word_of_nat_eq_0_iff)
    next
      case False
      then have "unat (n * 16 + word_of_nat d) = unat n * 16 + d"
        using hex_step_overflow(2) [OF d(1), of n] by simp
      then show ?thesis
        using False hex_step_overflow(1) [OF d(1), of n] True d Cons.IH [of "n * 16 + word_of_nat d"]
        unfolding split by (auto simp: Let_def)
    qed
  qed (simp add: is_hex_def)
qed (use unsigned_less [where ?'a = nat and ?'b = 64] in simp)

text \<open>
  \<open>parse_unsigned_hex_integer\<close> accepts exactly the non-empty strings of hexadecimal
  digits (either case) whose value fits in 64 bits, and returns that value: the two
  incremental checks before the shift and before the addition catch all overflows.
\<close>

lemma parse_unsigned_hex_integer_exact:
  "parse_unsigned_hex_integer s =
     (if s \<noteq> [] \<and> list_all is_hex s \<and> hex_value s < 2 ^ 64 then Some (of_nat (hex_value s)) else None)"
  by (auto simp: parse_unsigned_hex_integer_def hex_loop_exact)

section \<open>Round trip through the decimal representation\<close>

lemma repr_size_loop_Suc: "compute_decimal_repr_size_loop x (Suc sz) = Suc (compute_decimal_repr_size_loop x sz)"
proof (induction x sz rule: compute_decimal_repr_size_loop.induct)
  case (1 x sz)
  then show ?case
    by (simp add: compute_decimal_repr_size_loop.simps [of x])
qed

lemma repr_size_step:
  "compute_decimal_repr_size x = (if x div 10 > 0 then Suc (compute_decimal_repr_size (x div 10)) else 1)"
  unfolding compute_decimal_repr_size_def
  by (subst compute_decimal_repr_size_loop.simps) (simp add: repr_size_loop_Suc)

lemma repr_size_pos: "0 < compute_decimal_repr_size x"
  by (subst repr_size_step) simp

lemma repr_size_lower: "x \<noteq> 0 \<Longrightarrow> 10 ^ (compute_decimal_repr_size x - 1) \<le> unat x"
proof (induction "unat x" arbitrary: x rule: less_induct)
  case less
  show ?case
  proof (cases "x div 10 > 0")
    case True
    let ?k = "compute_decimal_repr_size (x div 10)"
    have "10 ^ (?k - 1) \<le> unat (x div 10)"
      using True by (intro less.hyps word_div_10_less) auto
    then have "10 * 10 ^ (?k - 1) \<le> unat x"
      by (simp add: unat_div)
    moreover have "compute_decimal_repr_size x - 1 = Suc (?k - 1)"
      using True repr_size_pos [of "x div 10"] by (subst repr_size_step) simp
    ultimately show ?thesis by simp
  next
    case False
    then show ?thesis using less.prems by (subst repr_size_step) (simp add: unat_gt_0 Suc_leI)
  qed
qed

lemma repr_size_le: "compute_decimal_repr_size x \<le> 20"
proof (cases "x = 0")
  case False
  have "unat x < 2 ^ 64"
    using unsigned_less [of x] by simp
  then have "(10 :: nat) ^ (compute_decimal_repr_size x - 1) < 10 ^ 20"
    using repr_size_lower [OF False] by simp
  then show ?thesis
    using power_less_imp_less_exp [of "10 :: nat" "compute_decimal_repr_size x - 1" 20] by simp
qed (simp add: repr_size_step [of 0])

lemma dec_value_snoc: "dec_value (s @ [c]) = 10 * dec_value s + digit_value c"
  by (induction s) (auto simp: algebra_simps)

lemma digit_char: "n < 10 \<Longrightarrow> is_digit (char_of (48 + n)) \<and> digit_value (char_of (48 + n)) = n"
  by (simp add: is_digit_def digit_value_def)

lemma generate_loop:
  assumes "compute_decimal_repr_size x \<le> length out"
  shows "\<exists>out'. generate_decimal_repr_loop x out (compute_decimal_repr_size x) = Some out' \<and>
     length out' = length out \<and>
     drop (compute_decimal_repr_size x) out' = drop (compute_decimal_repr_size x) out \<and>
     list_all is_digit (take (compute_decimal_repr_size x) out') \<and>
     dec_value (take (compute_decimal_repr_size x) out') = unat x"
  using assms
proof (induction x out "compute_decimal_repr_size x" rule: generate_decimal_repr_loop.induct)
  case (1 x out)
  let ?d = "char_of (48 + unat (x mod 10))"
  have dig: "is_digit ?d" "digit_value ?d = unat x mod 10"
    using digit_char [of "unat (x mod 10)"] by (auto simp: unat_mod)
  show ?case
  proof (cases "x div 10 > 0")
    case True
    define k where "k = compute_decimal_repr_size (x div 10)"
    have k: "compute_decimal_repr_size x = Suc k"
      using True by (subst repr_size_step) (simp add: k_def)
    from 1 True k obtain out' where out':
      "generate_decimal_repr_loop (x div 10) (out[k := ?d]) k = Some out'"
      "length out' = length out" "drop k out' = drop k (out[k := ?d])"
      "list_all is_digit (take k out')" "dec_value (take k out') = unat (x div 10)"
      by (auto simp: k_def)
    have "k < length out'" using 1 k out' by auto
    moreover have "out' ! k = ?d"
      using arg_cong [OF out'(3), of hd] calculation out'(2) by (simp add: hd_drop_conv_nth)
    ultimately have "take (Suc k) out' = take k out' @ [?d]"
      by (simp add: take_Suc_conv_app_nth)
    moreover have "drop (Suc k) out' = drop (Suc k) out"
      using arg_cong [OF out'(3), of "drop 1"] by simp
    ultimately show ?thesis
      using 1 True k out' dig
      by (simp add: generate_decimal_repr_loop.simps [of x] dec_value_snoc unat_div)
  next
    case False
    then have "unat (x div 10) = 0"
      using word_gt_0 by (metis unat_0)
    then have k: "compute_decimal_repr_size x = 1" "unat x < 10"
      using False by (auto simp: repr_size_step [of x] unat_div)
    then obtain o1 os where "out = o1 # os" using 1 by (cases out) auto
    then show ?thesis
      using False k dig by (simp add: generate_decimal_repr_loop.simps [of x])
  qed
qed

text \<open>
  With room for the digits and the terminator, \<open>generate_decimal_repr_string\<close> never
  writes outside the buffer, needs at most 20 digits, terminates the text with a zero byte,
  leaves the rest of the buffer alone, and \<open>parse_unsigned_integer\<close> reads the text back as
  the number it was made from.
\<close>

lemma decimal_repr_round_trip:
  assumes "compute_decimal_repr_size x < length out"
  shows "\<exists>out'. generate_decimal_repr_string x out = Some (compute_decimal_repr_size x, out') \<and>
           compute_decimal_repr_size x \<le> 20 \<and>
           out' ! compute_decimal_repr_size x = CHR 0x00 \<and>
           drop (Suc (compute_decimal_repr_size x)) out' = drop (Suc (compute_decimal_repr_size x)) out \<and>
           parse_unsigned_integer (take (compute_decimal_repr_size x) out') = Some x"
proof -
  let ?k = "compute_decimal_repr_size x"
  obtain out' where out': "generate_decimal_repr_loop x out ?k = Some out'" "length out' = length out"
    "drop ?k out' = drop ?k out" "list_all is_digit (take ?k out')" "dec_value (take ?k out') = unat x"
    using generate_loop [of x out] assms by auto
  have "drop (Suc ?k) out' = drop (Suc ?k) out"
    using arg_cong [OF out'(3), of "drop 1"] by simp
  moreover have "parse_unsigned_integer (take ?k out') = Some x"
    using out' repr_size_pos [of x] assms unsigned_less [of x]
    by (auto simp: parse_unsigned_integer_eq)
  ultimately show ?thesis
    using out' assms repr_size_le [of x]
    by (auto simp: generate_decimal_repr_string_def generate_decimal_repr_def Let_def)
qed

lemma decimal_repr_round_trip_witness:
  "compute_decimal_repr_size 4096 < length (replicate 8 CHR ''x'') \<and>
   (\<exists>out'. generate_decimal_repr_string 4096 (replicate 8 CHR ''x'') = Some (4, out') \<and>
           parse_unsigned_integer (take 4 out') = Some 4096)"
proof -
  have "compute_decimal_repr_size 4096 = 4"
    by (simp add: repr_size_step)
  then show ?thesis
    using decimal_repr_round_trip [of 4096 "replicate 8 CHR ''x''"] by auto
qed

end
