(* ===== verification/Mem_Ref.thy ===== *)
theory Mem_Ref
  imports Prelude
begin

text \<open>
  Counted strings (\<open>misc/memref.h\<close>, \<open>misc/find_char.h\<close>). A \<open>MemRef\<close> is a pointer and a
  length; here it is the string of the characters it covers, and an access outside of it,
  or a failed range assertion, is \<^term>\<open>None\<close>. A C string is the buffer that holds it, and
  \<open>MemRef_MakeCstr\<close> covers what stands before the first zero byte.
\<close>

abbreviation NUL :: char where "NUL \<equiv> CHR 0x00"

fun strlen :: "string \<Rightarrow> nat option" where
  \<comment> \<open>\<^term>\<open>None\<close>: no terminator before the end of the buffer\<close>
  "strlen [] = None"
| "strlen (c # cs) = (if c = NUL then Some 0 else map_option Suc (strlen cs))"

fun b_find_char_bin :: "string \<Rightarrow> char \<Rightarrow> nat option" where
  "b_find_char_bin [] c = None"
| "b_find_char_bin (x # xs) c = (if x = c then Some 0 else map_option Suc (b_find_char_bin xs c))"

fun MemRef_FindChar :: "string \<Rightarrow> char \<Rightarrow> nat option" where
  "MemRef_FindChar [] ch = None"
| "MemRef_FindChar (x # xs) ch = (if x = ch then Some 0 else map_option Suc (MemRef_FindChar xs ch))"

definition MemRef_MakeCstr :: "string \<Rightarrow> string option" where
  "MemRef_MakeCstr buf = do { n \<leftarrow> strlen buf; Some (take n buf) }"

definition MemRef_At :: "string \<Rightarrow> nat \<Rightarrow> char option" where
  "MemRef_At m pos = do { cassert (pos < length m); Some (m ! pos) }"

definition MemRef_AssertRange :: "string \<Rightarrow> nat \<Rightarrow> nat \<Rightarrow> unit option" where
  "MemRef_AssertRange m offset len =
     do { cassert (offset \<le> length m); cassert (len \<le> length m - offset) }"

definition MemRef_SubFrom :: "string \<Rightarrow> nat \<Rightarrow> string option" where
  "MemRef_SubFrom m offset = do { cassert (offset \<le> length m); Some (drop offset m) }"

definition MemRef_SubTo :: "string \<Rightarrow> nat \<Rightarrow> string option" where
  "MemRef_SubTo m len = do { cassert (len \<le> length m); Some (take len m) }"

definition MemRef_Sub :: "string \<Rightarrow> nat \<Rightarrow> nat \<Rightarrow> string option" where
  "MemRef_Sub m offset len =
     do { MemRef_AssertRange m offset len; Some (take len (drop offset m)) }"

definition MemRef_Equal :: "string \<Rightarrow> string \<Rightarrow> bool" where
  "MemRef_Equal m other \<longleftrightarrow> length m = length other \<and> take (length m) m = take (length m) other"

definition MemRef_CopyOut :: "string \<Rightarrow> string \<Rightarrow> string option" where
  "MemRef_CopyOut m out = overwrite out 0 m"

lemma MemRef_Equal_iff [simp]: "MemRef_Equal m m' \<longleftrightarrow> m = m'"
  by (auto simp: MemRef_Equal_def)

lemma b_find_char_bin_Some_iff:
  "b_find_char_bin xs c = Some i \<longleftrightarrow> i < length xs \<and> xs ! i = c \<and> c \<notin> set (take i xs)"
proof (induction xs arbitrary: i)
  case (Cons x xs)
  then show ?case by (cases i) auto
qed simp

lemma MemRef_FindChar_eq: "MemRef_FindChar m ch = b_find_char_bin m ch"
  by (induction m) auto

lemma b_find_char_bin_None_iff: "b_find_char_bin xs c = None \<longleftrightarrow> c \<notin> set xs"
  by (induction xs) auto

lemma b_find_char_bin_append: "c \<notin> set xs \<Longrightarrow> b_find_char_bin (xs @ c # ys) c = Some (length xs)"
  by (induction xs) auto

lemma strlen_Some_iff: "strlen buf = Some n \<longleftrightarrow> b_find_char_bin buf NUL = Some n"
  by (induction buf arbitrary: n) auto

lemma strlen_append: "NUL \<notin> set s \<Longrightarrow> strlen (s @ NUL # rest) = Some (length s)"
  by (simp add: strlen_Some_iff b_find_char_bin_append)

lemma MemRef_MakeCstr_append [simp]: "NUL \<notin> set s \<Longrightarrow> MemRef_MakeCstr (s @ NUL # rest) = Some s"
  by (simp add: MemRef_MakeCstr_def strlen_append)

text \<open>Splitting at a character that was found covers the string, without a failed assertion.\<close>

lemma MemRef_split_at:
  assumes "MemRef_FindChar m ch = Some i"
  shows "\<exists>l r. MemRef_SubTo m i = Some l \<and> MemRef_SubFrom m (i + 1) = Some r \<and> m = l @ ch # r \<and> ch \<notin> set l"
  using assms id_take_nth_drop [of i m]
  by (auto simp: MemRef_FindChar_eq MemRef_SubTo_def MemRef_SubFrom_def b_find_char_bin_Some_iff)

end
