(* ===== verification/IPAddr6.thy ===== *)
theory IPAddr6
  imports Byte_Order Parse_Number Mem_Ref
begin

text \<open>
  IPv6 addresses (\<open>misc/ipaddr6.h\<close>): the parser of textual addresses with its compressed
  and IPv4 endings, prefixes and masks, and the printer. The 16 bytes of a
  \<open>struct ipv6_addr\<close> are a list; \<open>out_addr\<close> enters the parser with whatever it held.
  Results are doubly optional: the outer \<^term>\<open>None\<close> is an access outside an object or a
  failed assertion, the inner one the return value 0.
\<close>

section \<open>Parsing addresses\<close>

type_synonym ipv6_addr = bytes

record ipv6_ifaddr =
  if6_addr :: ipv6_addr
  if6_prefix :: int

text \<open>The local variables of \<open>ipaddr6_parse_ipv6_addr\<close>, apart from the position.\<close>

record scan6 =
  s6_num_blocks :: nat
  s6_compress_pos :: int
  s6_block :: u16
  s6_empty :: bool
  s6_bytes :: bytes

datatype scan6_result = Reject | Ipv4_ending nat scan6 | Name_end scan6

definition store_block :: "scan6 \<Rightarrow> scan6 option" where
  "store_block st =
     do { bs \<leftarrow> overwrite (s6_bytes st) (2 * s6_num_blocks st)
            [ucast (drop_bit 8 (s6_block st)), ucast (s6_block st AND 0xFF)];
          Some (st\<lparr>s6_bytes := bs, s6_num_blocks := s6_num_blocks st + 1\<rparr>) }"

definition parse_colon :: "string \<Rightarrow> nat \<Rightarrow> scan6 \<Rightarrow> (bool \<times> scan6) option option" where
  \<comment> \<open>the branch for a colon at position \<open>i\<close>: whether it was a double colon, and the new state\<close>
  "parse_colon name i st =
     (let is_double = (i + 1 < length name \<and> name ! (i + 1) = CHR '':'');
          compress = (\<lambda>st. if is_double
             then if s6_compress_pos st \<noteq> -1 then None
                  else Some (True, st\<lparr>s6_compress_pos := int (s6_num_blocks st)\<rparr>)
             else Some (False, st))
      in if i > 0
         then if s6_empty st \<or> s6_num_blocks st = 7 then Some None
              else do { st \<leftarrow> store_block st;
                        Some (compress (st\<lparr>s6_block := 0, s6_empty := True\<rparr>)) }
         else if \<not> is_double then Some None
         else Some (compress st))"

definition parse_hex :: "char \<Rightarrow> scan6 \<Rightarrow> scan6 option" where
  "parse_hex c st =
     (let digit = decode_hex_digit c in
      if digit < 0 then None
      else if s6_block st > 65535 div 16 then None
      else let block = s6_block st * 16 in
           if digit > UINT16_MAX - uint block then None
           else Some (st\<lparr>s6_block := block + word_of_int digit, s6_empty := False\<rparr>))"

function parse_blocks :: "string \<Rightarrow> nat \<Rightarrow> scan6 \<Rightarrow> scan6_result option" where
  "parse_blocks name i st =
     (if i < length name then
        if name ! i = CHR ''.'' then Some (Ipv4_ending i st)
        else if name ! i = CHR '':'' then
          (case parse_colon name i st of
             None \<Rightarrow> None
           | Some None \<Rightarrow> Some Reject
           | Some (Some (is_double, st')) \<Rightarrow> parse_blocks name (i + 1 + of_bool is_double) st')
        else
          (case parse_hex (name ! i) st of
             None \<Rightarrow> Some Reject
           | Some st' \<Rightarrow> parse_blocks name (i + 1) st')
      else Some (Name_end st))"
  by pat_completeness auto
termination
  by (relation "measure (\<lambda>(name, i, _). length name - i)") auto

primrec back_to_colon :: "string \<Rightarrow> nat \<Rightarrow> nat option" where
  "back_to_colon name 0 = None"
| "back_to_colon name (Suc i) = (if name ! i \<noteq> CHR '':'' then back_to_colon name i else Some (Suc i))"

record scan4 =
  s4_bytes :: bytes
  s4_cur_byte :: nat
  s4_byte :: u8
  s4_empty :: bool

definition parse_dot :: "scan4 \<Rightarrow> scan4 option option" where
  "parse_dot st =
     (if s4_empty st \<or> s4_cur_byte st = 3 then Some None
      else do { bs \<leftarrow> overwrite (s4_bytes st) (s4_cur_byte st) [s4_byte st];
                Some (Some (st\<lparr>s4_bytes := bs, s4_cur_byte := s4_cur_byte st + 1,
                               s4_byte := 0, s4_empty := True\<rparr>)) })"

definition parse_decimal :: "char \<Rightarrow> scan4 \<Rightarrow> scan4 option" where
  "parse_decimal c st =
     (if \<not> s4_empty st \<and> s4_byte st = 0 then None
      else let digit = decode_decimal_digit c in
        if digit < 0 then None
        else if s4_byte st > 255 div 10 then None
        else let byte = s4_byte st * 10 in
             if digit > 255 - uint byte then None
             else Some (st\<lparr>s4_byte := byte + word_of_int digit, s4_empty := False\<rparr>))"

fun parse_ipv4 :: "string \<Rightarrow> scan4 \<Rightarrow> scan4 option option" where
  "parse_ipv4 [] st = Some (Some st)"
| "parse_ipv4 (c # cs) st =
     (if c = CHR ''.'' then
        (case parse_dot st of
           None \<Rightarrow> None | Some None \<Rightarrow> Some None | Some (Some st') \<Rightarrow> parse_ipv4 cs st')
      else
        (case parse_decimal c st of None \<Rightarrow> Some None | Some st' \<Rightarrow> parse_ipv4 cs st'))"

definition ipv4_done :: "scan6 \<Rightarrow> ipv6_addr option option" where
  "ipv4_done st =
     (if s6_compress_pos st = -1 \<and> s6_num_blocks st \<noteq> 8 then Some None
      else let compress_pos = (if s6_compress_pos st = -1 then 0 else nat (s6_compress_pos st));
               num_rear = s6_num_blocks st - compress_pos
        in do { cassert (compress_pos \<le> s6_num_blocks st \<and> s6_num_blocks st \<le> 8);
                rear \<leftarrow> subbytes (s6_bytes st) (2 * compress_pos) (2 * num_rear);
                bs \<leftarrow> overwrite (s6_bytes st) (2 * (8 - num_rear)) rear;
                bs \<leftarrow> overwrite bs (2 * compress_pos) (replicate (2 * (8 - num_rear - compress_pos)) 0);
                Some (Some bs) })"

definition ipv4_ending :: "string \<Rightarrow> nat \<Rightarrow> scan6 \<Rightarrow> ipv6_addr option option" where
  "ipv4_ending name i st =
     (if s6_empty st \<or> (s6_num_blocks st = 0 \<and> s6_compress_pos st = -1) then Some None
      else do { i \<leftarrow> back_to_colon name i;
                r \<leftarrow> parse_ipv4 (drop i name)
                      \<lparr>s4_bytes = replicate 4 0, s4_cur_byte = 0, s4_byte = 0, s4_empty = True\<rparr>;
                case r of
                  None \<Rightarrow> Some None
                | Some q \<Rightarrow>
                    if s4_cur_byte q \<noteq> 3 \<or> s4_empty q then Some None
                    else do { four \<leftarrow> overwrite (s4_bytes q) (s4_cur_byte q) [s4_byte q];
                              if 8 - int (s6_num_blocks st) < 2 then Some None
                              else do { bs \<leftarrow> overwrite (s6_bytes st) (2 * s6_num_blocks st) four;
                                        ipv4_done (st\<lparr>s6_bytes := bs, s6_num_blocks := s6_num_blocks st + 2\<rparr>) } } })"

definition scan6_start :: "bytes \<Rightarrow> scan6" where
  "scan6_start out_addr =
     \<lparr>s6_num_blocks = 0, s6_compress_pos = -1, s6_block = 0, s6_empty = True, s6_bytes = out_addr\<rparr>"

definition ipaddr6_parse_ipv6_addr :: "string \<Rightarrow> bytes \<Rightarrow> ipv6_addr option option" where
  "ipaddr6_parse_ipv6_addr name out_addr =
     do { r \<leftarrow> parse_blocks name 0 (scan6_start out_addr);
          case r of
            Reject \<Rightarrow> Some None
          | Ipv4_ending i st \<Rightarrow> ipv4_ending name i st
          | Name_end st \<Rightarrow>
              if \<not> s6_empty st then do { st \<leftarrow> store_block st; ipv4_done st }
              else if int (s6_num_blocks st) \<noteq> s6_compress_pos st then Some None
              else ipv4_done st }"

definition ipaddr6_parse_ipv6_prefix :: "string \<Rightarrow> int option" where
  "ipaddr6_parse_ipv6_prefix str =
     (case parse_unsigned_integer str of
        None \<Rightarrow> None
      | Some d \<Rightarrow> if d > 128 then None else Some (uint d))"

definition ipaddr6_parse_ipv6_ifaddr :: "string \<Rightarrow> bytes \<Rightarrow> ipv6_ifaddr option option" where
  "ipaddr6_parse_ipv6_ifaddr str out_addr =
     (case MemRef_FindChar str CHR ''/'' of
        None \<Rightarrow> Some None
      | Some slash_pos \<Rightarrow>
          do { name \<leftarrow> MemRef_SubTo str slash_pos;
               r \<leftarrow> ipaddr6_parse_ipv6_addr name out_addr;
               case r of
                 None \<Rightarrow> Some None
               | Some a \<Rightarrow>
                   do { rest \<leftarrow> MemRef_SubFrom str (slash_pos + 1);
                        case ipaddr6_parse_ipv6_prefix rest of
                          None \<Rightarrow> Some None
                        | Some p \<Rightarrow> Some (Some \<lparr>if6_addr = a, if6_prefix = p\<rparr>) } })"

section \<open>Prefixes and masks\<close>

definition top_bits :: "nat \<Rightarrow> u8 \<Rightarrow> u8" where
  \<comment> \<open>the loop that sets the first \<open>rem\<close> bits of a byte\<close>
  "top_bits rem t = fold (\<lambda>i t. t OR push_bit (8 - i - 1) 1) [0..<rem] t"

definition ipaddr6_ipv6_mask_from_prefix :: "int \<Rightarrow> ipv6_addr option" where
  "ipaddr6_ipv6_mask_from_prefix prefix =
     do { cassert (prefix \<ge> 0);
          cassert (prefix \<le> 128);
          let quot = nat (prefix div 8);
              rem = nat (prefix mod 8);
              msk = replicate quot 0xFF @ replicate (16 - quot) 0
          in if rem = 0 then Some msk
             else do { b \<leftarrow> byte_at msk quot; Some (msk[quot := top_bits rem b]) } }"

fun skip_ones :: "bytes \<Rightarrow> nat \<Rightarrow> bytes \<times> nat" where
  "skip_ones [] prefix = ([], prefix)"
| "skip_ones (b # bs) prefix = (if b = 0xFF then skip_ones bs (prefix + 8) else (b # bs, prefix))"

function match_partial :: "u8 \<Rightarrow> nat \<Rightarrow> u8 \<Rightarrow> nat" where
  "match_partial m j t =
     (if j \<le> 8 then
        if m = t then j
        else match_partial m (j + 1) (if j < 8 then t OR push_bit (8 - j - 1) 1 else t)
      else j)"
  by pat_completeness auto
termination
  by (relation "measure (\<lambda>(_, j, _). 9 - j)") auto

definition ipaddr6_ipv6_prefix_from_mask :: "ipv6_addr \<Rightarrow> int option" where
  "ipaddr6_ipv6_prefix_from_mask msk =
     (case skip_ones msk 0 of
        ([], prefix) \<Rightarrow> Some (int prefix)
      | (b # bs, prefix) \<Rightarrow>
          let j = match_partial b 0 0 in
          if \<not> j \<le> 8 then None
          else if list_all (\<lambda>b. b = 0) bs then Some (int (prefix + j)) else None)"

definition ipaddr6_ipv6_ifaddr_from_addr_mask :: "ipv6_addr \<Rightarrow> ipv6_addr \<Rightarrow> ipv6_ifaddr option" where
  "ipaddr6_ipv6_ifaddr_from_addr_mask a msk =
     (case ipaddr6_ipv6_prefix_from_mask msk of
        None \<Rightarrow> None
      | Some prefix \<Rightarrow> Some \<lparr>if6_addr = a, if6_prefix = prefix\<rparr>)"

definition ipaddr6_ipv6_addrs_in_network :: "ipv6_addr \<Rightarrow> ipv6_addr \<Rightarrow> int \<Rightarrow> bool option" where
  "ipaddr6_ipv6_addrs_in_network addr1 addr2 netprefix =
     do { cassert (netprefix \<ge> 0);
          cassert (netprefix \<le> 128);
          let quot = nat (netprefix div 8);
              rem = nat (netprefix mod 8)
          in if take quot addr1 \<noteq> take quot addr2 then Some False
             else if rem = 0 then Some True
             else do { b1 \<leftarrow> byte_at addr1 quot;
                       b2 \<leftarrow> byte_at addr2 quot;
                       Some (b1 AND top_bits rem 0 = b2 AND top_bits rem 0) } }"

section \<open>Printing\<close>

text \<open>The conversions \<open>%x\<close> and \<open>%d\<close> of \<open>sprintf\<close>, on the values the printers pass.\<close>

definition hex_char :: "nat \<Rightarrow> char" where
  "hex_char n = (if n < 10 then char_of (48 + n) else char_of (87 + n))"

fun print_x :: "nat \<Rightarrow> string" where
  "print_x n = (if n < 16 then [hex_char n] else print_x (n div 16) @ [hex_char (n mod 16)])"

fun print_d :: "nat \<Rightarrow> string" where
  "print_d n = (if n < 10 then [char_of (48 + n)] else print_d (n div 10) @ [char_of (48 + n mod 10)])"

declare parse_blocks.simps [simp del] match_partial.simps [simp del] print_x.simps [simp del] print_d.simps [simp del]

definition addr_block :: "ipv6_addr \<Rightarrow> nat \<Rightarrow> u16" where
  "addr_block a i = push_bit 8 (ucast (a ! (2 * i))) OR ucast (a ! (2 * i + 1))"

definition zero_run_step :: "ipv6_addr \<Rightarrow> nat \<Rightarrow> nat \<times> nat \<times> nat \<times> nat \<Rightarrow> nat \<times> nat \<times> nat \<times> nat" where
  "zero_run_step a i st =
     (case st of (largest_start, largest_len, current_start, current_len) \<Rightarrow>
        if a ! (2 * i) = 0 \<and> a ! (2 * i + 1) = 0 then
          (if current_len + 1 > largest_len
           then (current_start, current_len + 1, current_start, current_len + 1)
           else (largest_start, largest_len, current_start, current_len + 1))
        else (largest_start, largest_len, i + 1, 0))"

definition largest_zero_run :: "ipv6_addr \<Rightarrow> nat \<times> nat" where
  "largest_zero_run a =
     (case fold (zero_run_step a) [0..<8] (0, 0, 0, 0) of (start, len, _) \<Rightarrow> (start, len))"

definition ipaddr6_print_addr :: "ipv6_addr \<Rightarrow> string" where
  "ipaddr6_print_addr a =
     (case largest_zero_run a of (largest_start, largest_len) \<Rightarrow>
        if largest_len > 1 then
          concat (map (\<lambda>i. print_x (unat (addr_block a i)) @ '':'') [0..<largest_start]) @
          (if largest_start = 0 then '':'' else []) @
          concat (map (\<lambda>i. '':'' @ print_x (unat (addr_block a i))) [largest_start + largest_len..<8]) @
          (if largest_start + largest_len = 8 then '':'' else [])
        else
          concat (map (\<lambda>i. (if i = 0 then [] else '':'') @ print_x (unat (addr_block a i))) [0..<8]))"

definition ipaddr6_print_ifaddr :: "ipv6_ifaddr \<Rightarrow> string option" where
  "ipaddr6_print_ifaddr x =
     do { cassert (if6_prefix x \<ge> 0);
          cassert (if6_prefix x \<le> 128);
          Some (ipaddr6_print_addr (if6_addr x) @ ''/'' @ print_d (nat (if6_prefix x))) }"

section \<open>The parser stays inside its objects\<close>

text \<open>
  Every state the parser reaches has written the blocks it has read and nothing else:
  it is \<open>scan6_at\<close> of the list of those blocks.
\<close>

definition block_bytes :: "u16 \<Rightarrow> bytes" where
  "block_bytes b = [ucast (drop_bit 8 b), ucast (b AND 0xFF)]"

definition scan6_at :: "u16 list \<Rightarrow> int \<Rightarrow> u16 \<Rightarrow> bool \<Rightarrow> bytes \<Rightarrow> scan6" where
  "scan6_at bl cp blk e out =
     \<lparr>s6_num_blocks = length bl, s6_compress_pos = cp, s6_block = blk, s6_empty = e,
      s6_bytes = concat (map block_bytes bl) @ drop (2 * length bl) out\<rparr>"

lemma scan6_at_sel [simp]:
  "s6_num_blocks (scan6_at bl cp blk e out) = length bl"
  "s6_compress_pos (scan6_at bl cp blk e out) = cp"
  "s6_block (scan6_at bl cp blk e out) = blk"
  "s6_empty (scan6_at bl cp blk e out) = e"
  "scan6_at bl cp blk e out\<lparr>s6_compress_pos := cp'\<rparr> = scan6_at bl cp' blk e out"
  "scan6_at bl cp blk e out\<lparr>s6_block := blk', s6_empty := e'\<rparr> = scan6_at bl cp blk' e' out"
  by (simp_all add: scan6_at_def)

lemma scan6_at_bytes: "s6_bytes (scan6_at bl cp blk e out) = concat (map block_bytes bl) @ drop (2 * length bl) out"
  by (simp add: scan6_at_def)

lemma scan6_start_at: "scan6_start out = scan6_at [] (-1) 0 True out"
  by (simp add: scan6_start_def scan6_at_def)

lemma length_block_bytes [simp]: "length (block_bytes b) = 2"
  by (simp add: block_bytes_def)

lemma length_concat_blocks [simp]: "length (concat (map block_bytes bl)) = 2 * length bl"
  by (induction bl) auto

lemma take_concat_blocks: "take (2 * k) (concat (map block_bytes bl)) = concat (map block_bytes (take k bl))"
proof (induction bl arbitrary: k)
  case (Cons b bl)
  show ?case using Cons [of "k - 1"] by (cases k) auto
qed simp

lemma drop_concat_blocks: "drop (2 * k) (concat (map block_bytes bl)) = concat (map block_bytes (drop k bl))"
proof (induction bl arbitrary: k)
  case (Cons b bl)
  show ?case using Cons [of "k - 1"] by (cases k) auto
qed simp

lemma store_block_at:
  assumes "length bl \<le> 7" "length out = 16"
  shows "store_block (scan6_at bl cp blk e out) = Some (scan6_at (bl @ [blk]) cp blk e out)"
proof -
  have "drop 2 (drop (2 * length bl) out) = drop (2 * length (bl @ [blk])) out"
    by simp
  then show ?thesis
    using assms by (simp add: store_block_def overwrite_total scan6_at_def flip: block_bytes_def)
qed

text \<open>What the last part of the parser makes of the blocks before and after a double colon.\<close>

definition expand_blocks :: "u16 list \<Rightarrow> int \<Rightarrow> u16 list option" where
  "expand_blocks bl cp =
     (if cp = -1 then if length bl = 8 then Some bl else None
      else Some (take (nat cp) bl @ replicate (8 - length bl) 0 @ drop (nat cp) bl))"

definition scan_ok :: "u16 list \<Rightarrow> int \<Rightarrow> bool" where
  "scan_ok bl cp \<longleftrightarrow> cp = -1 \<or> 0 \<le> cp \<and> cp \<le> int (length bl)"

lemma block_bytes_0: "concat (replicate n (block_bytes 0)) = replicate (2 * n) 0"
  by (induction n) (auto simp: block_bytes_def)

lemma move_rear:
  assumes "length b = 16" "c \<le> n" "n \<le> 8"
  shows "do { rear \<leftarrow> subbytes b (2 * c) (2 * (n - c));
              bs \<leftarrow> overwrite b (2 * (8 - (n - c))) rear;
              bs \<leftarrow> overwrite bs (2 * c) (replicate (2 * (8 - (n - c) - c)) 0);
              Some (Some bs) } =
         Some (Some (take (2 * c) b @ replicate (2 * (8 - n)) 0 @ take (2 * (n - c)) (drop (2 * c) b)))"
proof -
  let ?r = "take (2 * (n - c)) (drop (2 * c) b)"
  let ?b = "take (2 * (8 - (n - c))) b @ ?r"
  have "subbytes b (2 * c) (2 * (n - c)) = Some ?r"
    using assms by (intro subbytes_total) simp
  moreover have "length ?r = 2 * (n - c)"
    using assms by simp
  then have "overwrite b (2 * (8 - (n - c))) ?r = Some ?b"
    using assms by (subst overwrite_total) simp_all
  moreover have "2 * c + 2 * (8 - (n - c) - c) = 2 * (8 - (n - c))" "8 - (n - c) - c = 8 - n"
    using assms by simp_all
  then have "overwrite ?b (2 * c) (replicate (2 * (8 - (n - c) - c)) 0) =
      Some (take (2 * c) b @ replicate (2 * (8 - n)) 0 @ ?r)"
    using assms unfolding overwrite_def by (auto simp: min_def)
  ultimately show ?thesis by simp
qed

lemma ipv4_done_at:
  assumes "scan_ok bl cp" "length bl \<le> 8" "length out = 16"
  shows "ipv4_done (scan6_at bl cp blk e out) = Some (map_option (\<lambda>bs. concat (map block_bytes bs)) (expand_blocks bl cp))"
proof (cases "cp = -1 \<and> length bl \<noteq> 8")
  case False
  define c where "c = (if cp = -1 then 0 else nat cp)"
  have c: "c \<le> length bl" using assms by (auto simp: c_def scan_ok_def)
  let ?b = "concat (map block_bytes bl) @ drop (2 * length bl) out"
  have "take (2 * c) ?b = concat (map block_bytes (take c bl))"
    "take (2 * (length bl - c)) (drop (2 * c) ?b) = concat (map block_bytes (drop c bl))"
    using c by (simp_all add: take_concat_blocks drop_concat_blocks)
  moreover have "ipv4_done (scan6_at bl cp blk e out) =
      Some (Some (take (2 * c) ?b @ replicate (2 * (8 - length bl)) 0 @ take (2 * (length bl - c)) (drop (2 * c) ?b)))"
    using move_rear [of ?b c "length bl"] assms c
    unfolding ipv4_done_def Let_def scan6_at_sel c_def [symmetric] scan6_at_bytes if_not_P [OF False]
    by simp
  ultimately show ?thesis
    using False by (auto simp: expand_blocks_def c_def block_bytes_0)
qed (simp add: ipv4_done_def expand_blocks_def)

lemma parse_colon_at:
  assumes "length bl \<le> 7" "length out = 16"
  shows "parse_colon name i (scan6_at bl cp blk e out) =
     (let dbl = (i + 1 < length name \<and> name ! (i + 1) = CHR '':'') in
      if i > 0 \<and> (e \<or> length bl = 7) \<or> i = 0 \<and> \<not> dbl \<or> dbl \<and> cp \<noteq> -1 then Some None
      else let bl' = (if i > 0 then bl @ [blk] else bl) in
        Some (Some (dbl, scan6_at bl' (if dbl then int (length bl') else cp)
                           (if i > 0 then 0 else blk) (i > 0 \<or> e) out)))"
  using assms by (cases "i > 0") (simp_all add: parse_colon_def Let_def store_block_at)

lemma parse_hex_at:
  "parse_hex c (scan6_at bl cp blk e out) =
     map_option (\<lambda>st. scan6_at bl cp (s6_block st) False out) (parse_hex c (scan6_at [] (-1) blk True []))"
  by (simp add: parse_hex_def Let_def)

definition colon_before :: "string \<Rightarrow> nat \<Rightarrow> bool" where
  "colon_before name i \<longleftrightarrow> (\<exists>j < i. name ! j = CHR '':'')"

definition scan_inv :: "string \<Rightarrow> nat \<Rightarrow> u16 list \<Rightarrow> int \<Rightarrow> bool" where
  "scan_inv name i bl cp \<longleftrightarrow> length bl \<le> 7 \<and> scan_ok bl cp \<and> (bl \<noteq> [] \<or> cp \<noteq> -1 \<longrightarrow> colon_before name i)"

lemma parse_blocks_colon:
  assumes "i < length name" "name ! i = CHR '':''" "length bl \<le> 7" "length out = 16"
    and dbl: "dbl \<longleftrightarrow> i + 1 < length name \<and> name ! (i + 1) = CHR '':''"
    and ok: "\<not> (i > 0 \<and> (e \<or> length bl = 7) \<or> i = 0 \<and> \<not> dbl \<or> dbl \<and> cp \<noteq> -1)"
    and bl': "bl' = (if i > 0 then bl @ [blk] else bl)"
  shows "parse_blocks name i (scan6_at bl cp blk e out) =
     parse_blocks name (i + 1 + of_bool dbl) (scan6_at bl' (if dbl then int (length bl') else cp)
       (if i > 0 then 0 else blk) (i > 0 \<or> e) out)"
proof -
  have "parse_colon name i (scan6_at bl cp blk e out) =
      Some (Some (dbl, scan6_at bl' (if dbl then int (length bl') else cp)
        (if i > 0 then 0 else blk) (i > 0 \<or> e) out))"
    using parse_colon_at [OF assms(3,4), of name i cp blk e] ok
    unfolding Let_def dbl [symmetric] bl' [symmetric] by (simp only: if_False)
  then show ?thesis
    using assms(1,2) by (subst parse_blocks.simps) simp
qed

lemma parse_blocks_at:
  assumes "scan_inv name i bl cp"
  shows "(\<forall>out. length out = 16 \<longrightarrow> parse_blocks name i (scan6_at bl cp blk e out) = Some Reject) \<or>
     (\<exists>i' bl' cp' blk' e'. scan_inv name i' bl' cp' \<and>
        ((\<forall>out. length out = 16 \<longrightarrow>
            parse_blocks name i (scan6_at bl cp blk e out) = Some (Ipv4_ending i' (scan6_at bl' cp' blk' e' out))) \<or>
         (\<forall>out. length out = 16 \<longrightarrow>
            parse_blocks name i (scan6_at bl cp blk e out) = Some (Name_end (scan6_at bl' cp' blk' e' out)))))"
  using assms
proof (induction "length name - i" arbitrary: i bl cp blk e rule: less_induct)
  case less
  note unf = parse_blocks.simps [of name i]
  consider "\<not> i < length name" | "i < length name" "name ! i = CHR ''.''"
    | "i < length name" "name ! i = CHR '':''"
    | "i < length name" "name ! i \<noteq> CHR '':''" "name ! i \<noteq> CHR ''.''" by blast
  then show ?case
  proof cases
    case 3
    let ?dbl = "i + 1 < length name \<and> name ! (i + 1) = CHR '':''"
    let ?bl = "if i > 0 then bl @ [blk] else bl"
    let ?cp = "if ?dbl then int (length ?bl) else cp"
    show ?thesis
    proof (cases "i > 0 \<and> (e \<or> length bl = 7) \<or> i = 0 \<and> \<not> ?dbl \<or> ?dbl \<and> cp \<noteq> -1")
      case True
      then show ?thesis
        using 3 less.prems by (intro disjI1) (simp add: unf parse_colon_at scan_inv_def Let_def)
    next
      case False
      have "colon_before name (i + 1 + of_bool ?dbl)"
        using 3 by (auto simp: colon_before_def)
      then have inv: "scan_inv name (i + 1 + of_bool ?dbl) ?bl ?cp"
        using False less.prems by (auto simp: scan_inv_def scan_ok_def)
      note step = parse_blocks_colon [OF 3 _ _ refl False refl]
      show ?thesis
        using less.hyps [OF _ inv, of "if i > 0 then 0 else blk" "i > 0 \<or> e"] 3(1) step less.prems
        by (simp add: scan_inv_def)
    qed
  next
    case 4
    show ?thesis
    proof (cases "parse_hex (name ! i) (scan6_at [] (-1) blk True [])")
      case None
      then show ?thesis
        using 4 by (intro disjI1) (simp add: unf parse_hex_at [of _ bl])
    next
      case (Some st)
      have inv: "scan_inv name (i + 1) bl cp"
        using less.prems by (auto simp: scan_inv_def colon_before_def intro: less_SucI)
      have step: "parse_blocks name i (scan6_at bl cp blk e out) =
          parse_blocks name (i + 1) (scan6_at bl cp (s6_block st) False out)" for out
        using 4 Some by (subst unf) (simp add: parse_hex_at [of _ bl])
      show ?thesis
        using less.hyps [OF _ inv, of "s6_block st" False] 4(1) step by auto
    qed
  qed (use less.prems in \<open>auto simp: unf intro!: exI\<close>)
qed

lemma back_to_colon_total: "colon_before name i \<Longrightarrow> \<exists>k. back_to_colon name i = Some k"
  by (induction i) (auto simp: colon_before_def less_Suc_eq)

lemma parse_ipv4_total:
  assumes "length (s4_bytes st) = 4" "s4_cur_byte st \<le> 3"
  shows "\<exists>r. parse_ipv4 cs st = Some r \<and>
     (\<forall>q. r = Some q \<longrightarrow> length (s4_bytes q) = 4 \<and> s4_cur_byte q \<le> 3)"
  using assms
proof (induction cs st rule: parse_ipv4.induct)
  case (2 c cs st)
  show ?case
  proof (cases "c = CHR ''.''")
    case True
    with 2 show ?thesis
      by (auto simp: parse_dot_def overwrite_total)
  next
    case False
    then show ?thesis
      using 2 by (cases "parse_decimal c st") (auto simp: parse_decimal_def Let_def split: if_splits)
  qed
qed auto

lemma block_bytes_be16: "block_bytes b = badvpn_write_be16 b"
proof -
  have "b AND 0xFF = take_bit 8 b"
    by (simp add: take_bit_eq_mask mask_eq_exp_minus_1)
  moreover have "ucast (take_bit 8 b) = (ucast b :: u8)"
    by (rule bit_word_eqI) (simp add: bit_simps)
  ultimately show ?thesis by (simp add: block_bytes_def badvpn_write_be16_def)
qed

lemma block_bytes_surj: "\<exists>w. block_bytes w = [a, b]"
  using be16.wr_rd [of "[a, b]"] unfolding block_bytes_be16 by auto

lemma four_bytes_blocks:
  assumes "length four = 4"
  shows "\<exists>w1 w2. four = block_bytes w1 @ block_bytes w2"
proof -
  obtain a b c d where "four = [a, b] @ [c, d]"
    using assms by (auto simp: length_Suc_conv numeral_eq_Suc)
  then show ?thesis
    by (metis block_bytes_surj)
qed

lemma store_four_at:
  assumes "length bl \<le> 6" "length out = 16" "four = block_bytes w1 @ block_bytes w2"
  shows "\<exists>bs. overwrite (s6_bytes (scan6_at bl cp blk e out)) (2 * length bl) four = Some bs \<and>
     scan6_at bl cp blk e out\<lparr>s6_bytes := bs, s6_num_blocks := length bl + 2\<rparr> = scan6_at (bl @ [w1, w2]) cp blk e out"
  using assms by (simp add: overwrite_total scan6_at_def drop_drop add.commute numeral_eq_Suc)

lemma ipv4_ending_at:
  assumes inv: "scan_inv name i bl cp"
  shows "\<exists>r. (\<forall>bs. r = Some bs \<longrightarrow> length bs = 8) \<and>
     (\<forall>out. length out = 16 \<longrightarrow> ipv4_ending name i (scan6_at bl cp blk e out) =
        Some (map_option (\<lambda>bs. concat (map block_bytes bs)) r))"
proof (cases "e \<or> (length bl = 0 \<and> cp = -1)")
  case True
  then show ?thesis by (intro exI [of _ None]) (simp add: ipv4_ending_def)
next
  case False
  then obtain k where k: "back_to_colon name i = Some k"
    using inv back_to_colon_total [of name i] by (auto simp: scan_inv_def)
  let ?s4 = "\<lparr>s4_bytes = replicate 4 0, s4_cur_byte = 0, s4_byte = 0, s4_empty = True\<rparr>"
  obtain r where r: "parse_ipv4 (drop k name) ?s4 = Some r"
      "\<And>q. r = Some q \<Longrightarrow> length (s4_bytes q) = 4 \<and> s4_cur_byte q \<le> 3"
    using parse_ipv4_total [of ?s4 "drop k name"] by auto
  show ?thesis
  proof (cases "\<exists>q. r = Some q \<and> s4_cur_byte q = 3 \<and> \<not> s4_empty q \<and> length bl \<le> 6")
    case reject: False
    then show ?thesis
      using False k r by (intro exI [of _ None]) (auto simp: ipv4_ending_def overwrite_total split: option.splits)
  next
    case True
    then obtain q where q: "r = Some q" "s4_cur_byte q = 3" "\<not> s4_empty q" "length bl \<le> 6" by blast
    obtain four where four: "overwrite (s4_bytes q) 3 [s4_byte q] = Some four" "length four = 4"
      using r(2) [OF q(1)] overwrite_total [of 3 "[s4_byte q]" "s4_bytes q"] overwrite_length by fastforce
    then obtain w1 w2 where w: "four = block_bytes w1 @ block_bytes w2"
      using four_bytes_blocks by blast
    have ok: "scan_ok (bl @ [w1, w2]) cp" "length (bl @ [w1, w2]) \<le> 8"
      using inv q by (auto simp: scan_inv_def scan_ok_def)
    have "ipv4_ending name i (scan6_at bl cp blk e out) =
        Some (map_option (\<lambda>bs. concat (map block_bytes bs)) (expand_blocks (bl @ [w1, w2]) cp))"
      if "length out = 16" for out
      using store_four_at [OF q(4) that w, of cp blk e] False k r q four ipv4_done_at [OF ok that, of blk e]
      by (auto simp: ipv4_ending_def)
    then show ?thesis
      using ok by (intro exI [of _ "expand_blocks (bl @ [w1, w2]) cp"])
        (auto simp: expand_blocks_def scan_ok_def split: if_splits)
  qed
qed

lemma parse_addr_blocks:
  "\<exists>r. (\<forall>bs. r = Some bs \<longrightarrow> length bs = 8) \<and>
     (\<forall>out. length out = 16 \<longrightarrow>
        ipaddr6_parse_ipv6_addr name out = Some (map_option (\<lambda>bs. concat (map block_bytes bs)) r))"
proof -
  have "scan_inv name 0 [] (-1)" by (simp add: scan_inv_def scan_ok_def)
  from parse_blocks_at [OF this, of 0 True]
  consider (reject) "\<forall>out. length out = 16 \<longrightarrow> parse_blocks name 0 (scan6_start out) = Some Reject"
    | (ipv4) i bl cp blk e where "scan_inv name i bl cp"
        "\<forall>out. length out = 16 \<longrightarrow> parse_blocks name 0 (scan6_start out) = Some (Ipv4_ending i (scan6_at bl cp blk e out))"
    | (ended) i bl cp blk e where "scan_inv name i bl cp"
        "\<forall>out. length out = 16 \<longrightarrow> parse_blocks name 0 (scan6_start out) = Some (Name_end (scan6_at bl cp blk e out))"
    unfolding scan6_start_at by blast
  then show ?thesis
  proof cases
    case reject
    then show ?thesis by (intro exI [of _ None]) (simp add: ipaddr6_parse_ipv6_addr_def)
  next
    case ipv4
    obtain r where "\<forall>bs. r = Some bs \<longrightarrow> length bs = 8"
        "\<forall>out. length out = 16 \<longrightarrow> ipv4_ending name i (scan6_at bl cp blk e out) =
          Some (map_option (\<lambda>bs. concat (map block_bytes bs)) r)"
      using ipv4_ending_at [OF ipv4(1), of blk e] by blast
    then show ?thesis
      using ipv4(2) by (intro exI [of _ r]) (simp add: ipaddr6_parse_ipv6_addr_def)
  next
    case ended
    let ?r = "if \<not> e then expand_blocks (bl @ [blk]) cp
      else if int (length bl) \<noteq> cp then None else expand_blocks bl cp"
    have ok: "scan_ok bl cp" "scan_ok (bl @ [blk]) cp" "length bl \<le> 7"
      using ended(1) by (auto simp: scan_inv_def scan_ok_def)
    have "length bs = 8" if "?r = Some bs" for bs
      using ok that by (auto simp: expand_blocks_def scan_ok_def split: if_splits)
    moreover have "ipaddr6_parse_ipv6_addr name out = Some (map_option (\<lambda>bs. concat (map block_bytes bs)) ?r)"
      if "length out = 16" for out
    proof -
      have "parse_blocks name 0 (scan6_start out) = Some (Name_end (scan6_at bl cp blk e out))"
        using ended(2) that by blast
      then show ?thesis
        using ok that by (simp add: ipaddr6_parse_ipv6_addr_def store_block_at ipv4_done_at)
    qed
    ultimately show ?thesis by blast
  qed
qed

lemma parse_addr_total:
  assumes "length out = 16"
  shows "\<exists>r. ipaddr6_parse_ipv6_addr name out = Some r \<and> (\<forall>a. r = Some a \<longrightarrow> length a = 16)"
proof -
  obtain r where "\<forall>bs. r = Some bs \<longrightarrow> length bs = 8"
      "\<forall>out. length out = 16 \<longrightarrow> ipaddr6_parse_ipv6_addr name out = Some (map_option (\<lambda>bs. concat (map block_bytes bs)) r)"
    using parse_addr_blocks by blast
  then show ?thesis using assms by auto
qed



section \<open>Printing and parsing back\<close>

lemma hex_char_props:
  assumes "n < 16"
  shows "decode_hex_digit (hex_char n) = int n" "hex_char n \<noteq> CHR ''.''" "hex_char n \<noteq> CHR '':''" "hex_char n \<noteq> CHR ''/''"
proof -
  have "list_all (\<lambda>n. decode_hex_digit (hex_char n) = int n \<and> hex_char n \<noteq> CHR ''.'' \<and>
      hex_char n \<noteq> CHR '':'' \<and> hex_char n \<noteq> CHR ''/'') [0..<16]"
    by code_simp
  then show "decode_hex_digit (hex_char n) = int n" "hex_char n \<noteq> CHR ''.''" "hex_char n \<noteq> CHR '':''" "hex_char n \<noteq> CHR ''/''"
    using assms by (auto simp: list_all_iff)
qed

lemma parse_hex_step:
  assumes "d < 16" "16 * n + d < 65536"
  shows "parse_hex (hex_char d) (scan6_at bl cp (of_nat n) e out) =
     Some (scan6_at bl cp (of_nat (16 * n + d)) False out)"
proof -
  have n: "n \<le> 4095" using assms by simp
  have "(of_nat n :: u16) \<le> 4095"
    using n by (simp add: word_le_nat_alt unat_of_nat)
  moreover have "uint (of_nat n * 16 :: u16) = int n * 16"
    using n by (simp add: uint_word_ariths unsigned_of_nat take_bit_nat_eq_self)
  ultimately show ?thesis
    using assms by (simp add: parse_hex_def hex_char_props Let_def mult.commute)
qed

lemma parse_print_x:
  assumes "n < 65536"
  shows "parse_blocks (pre @ print_x n @ rest) (length pre) (scan6_at bl cp 0 e out) =
     parse_blocks (pre @ print_x n @ rest) (length pre + length (print_x n)) (scan6_at bl cp (of_nat n) False out)"
  using assms
proof (induction n arbitrary: rest rule: print_x.induct)
  case (1 n)
  show ?case
  proof (cases "n < 16")
    case True
    then show ?thesis
      using parse_hex_step [of n 0 bl cp e out]
      by (simp add: print_x.simps [of n] parse_blocks.simps [of _ "length pre"] nth_append hex_char_props)
  next
    case False
    let ?p = "pre @ print_x (n div 16)"
    have "parse_blocks (?p @ hex_char (n mod 16) # rest) (length ?p) (scan6_at bl cp (of_nat (n div 16)) False out) =
        parse_blocks (?p @ hex_char (n mod 16) # rest) (Suc (length ?p)) (scan6_at bl cp (of_nat n) False out)"
      using parse_hex_step [of "n mod 16" "n div 16" bl cp False out] "1.prems"
      by (subst parse_blocks.simps) (simp add: nth_append hex_char_props)
    then show ?thesis
      using "1.IH" [OF False, of "hex_char (n mod 16) # rest"] "1.prems" False
      by (simp add: print_x.simps [of n])
  qed
qed

fun colon_list :: "u16 list \<Rightarrow> string" where
  "colon_list [] = []"
| "colon_list [b] = print_x (unat b)"
| "colon_list (b # c # bs) = print_x (unat b) @ '':'' @ colon_list (c # bs)"

lemma print_x_ne: "print_x n \<noteq> []"
  by (subst print_x.simps) simp

lemma print_x_set: "c \<in> set (print_x n) \<Longrightarrow> c \<noteq> CHR '':'' \<and> c \<noteq> CHR ''/''"
proof (induction n rule: print_x.induct)
  case (1 n)
  then show ?case
    using hex_char_props [of n] hex_char_props [of "n mod 16"]
    by (cases "n < 16") (auto simp: print_x.simps [of n])
qed

lemma hd_colon_list: "bs \<noteq> [] \<Longrightarrow> (colon_list bs @ rest) ! 0 \<noteq> CHR '':'' \<and> colon_list bs \<noteq> []"
  using print_x_set [of "print_x (unat (hd bs)) ! 0" "unat (hd bs)"] print_x_ne [of "unat (hd bs)"]
  by (cases bs rule: colon_list.cases) (auto simp: nth_append)

lemma u16_bound: "unat (b :: u16) < 65536"
  using unsigned_less [of b] by simp

lemma parse_colon_list:
  assumes "bs \<noteq> []" "length bl + length bs \<le> 8" "length out = 16"
  shows "parse_blocks (pre @ colon_list bs @ rest) (length pre) (scan6_at bl cp 0 True out) =
     parse_blocks (pre @ colon_list bs @ rest) (length (pre @ colon_list bs))
       (scan6_at (bl @ butlast bs) cp (last bs) False out)"
  using assms
proof (induction bs arbitrary: pre bl rule: colon_list.induct)
  case (2 b)
  then show ?case using parse_print_x [OF u16_bound, of pre b rest] by simp
next
  case (3 b c bs)
  let ?p = "pre @ print_x (unat b)"
  let ?r = "colon_list (c # bs) @ rest"
  let ?name = "?p @ CHR '':'' # ?r"
  have "?r ! 0 \<noteq> CHR '':''" using hd_colon_list [of "c # bs" rest] by simp
  then have nd: "False \<longleftrightarrow> length ?p + 1 < length ?name \<and> ?name ! (length ?p + 1) = CHR '':''"
    by (simp add: nth_append)
  have "parse_blocks ?name (length ?p) (scan6_at bl cp b False out) =
      parse_blocks ?name (length ?p + 1) (scan6_at (bl @ [b]) cp 0 True out)"
    using 3 print_x_ne [of "unat b"] parse_blocks_colon [OF _ _ _ _ nd, of bl out False cp "bl @ [b]" b]
    by simp
  moreover have "parse_blocks ?name (length pre) (scan6_at bl cp 0 True out) =
      parse_blocks ?name (length ?p) (scan6_at bl cp b False out)"
    using parse_print_x [OF u16_bound, of pre b "CHR '':'' # ?r"] by simp
  ultimately show ?case
    using "3.IH" [of "bl @ [b]" "?p @ '':''"] "3.prems" by simp
qed simp

lemma colon_front: "concat (map (\<lambda>b. print_x (unat b) @ '':'') bs) = (if bs = [] then [] else colon_list bs @ '':'')"
  by (induction bs rule: colon_list.induct) auto

lemma colon_rear: "concat (map (\<lambda>b. '':'' @ print_x (unat b)) bs) = (if bs = [] then [] else '':'' @ colon_list bs)"
  by (induction bs rule: colon_list.induct) auto

text \<open>The text of blocks around a double colon parses to those blocks with zeros between.\<close>

lemma parse_compressed:
  assumes len: "length fs + length rs \<le> 7" and out: "length out = 16"
  shows "ipaddr6_parse_ipv6_addr (colon_list fs @ ''::'' @ colon_list rs) out =
     Some (Some (concat (map block_bytes (fs @ replicate (8 - length fs - length rs) 0 @ rs))))"
proof -
  let ?name = "colon_list fs @ ''::'' @ colon_list rs"
  let ?i = "length (colon_list fs)"
  have dbl: "True \<longleftrightarrow> ?i + 1 < length ?name \<and> ?name ! (?i + 1) = CHR '':''"
    by (simp add: nth_append)
  have front: "parse_blocks ?name 0 (scan6_start out) =
      parse_blocks ?name (?i + 2) (scan6_at fs (int (length fs)) 0 True out)"
  proof (cases "fs = []")
    case True
    then show ?thesis
      using parse_blocks_colon [OF _ _ _ out dbl, of "[]" True "-1" "[]" 0] by (simp add: scan6_start_at)
  next
    case False
    then have "?i > 0" using hd_colon_list by auto
    then show ?thesis
      using parse_blocks_colon [OF _ _ _ out dbl, of "butlast fs" False "-1" fs "last fs"] False len
        parse_colon_list [OF False, of "[]" out "[]" "''::'' @ colon_list rs" "-1"] out
      by (simp add: scan6_start_at)
  qed
  have fin: "parse_blocks ?name (length ?name) st = Some (Name_end st)" for st
    by (subst parse_blocks.simps) simp
  show ?thesis
  proof (cases "rs = []")
    case True
    then show ?thesis
      using front fin out len
      by (simp add: ipaddr6_parse_ipv6_addr_def ipv4_done_at scan_ok_def expand_blocks_def)
  next
    case False
    then have "parse_blocks ?name 0 (scan6_start out) =
        Some (Name_end (scan6_at (fs @ butlast rs) (int (length fs)) (last rs) False out))"
      using front fin parse_colon_list [OF False, of fs out "colon_list fs @ ''::''" "[]" "int (length fs)"] len out
      by simp
    moreover have "(fs @ butlast rs) @ [last rs] = fs @ rs" using False by simp
    ultimately show ?thesis
      using out len False
      by (simp add: ipaddr6_parse_ipv6_addr_def store_block_at ipv4_done_at scan_ok_def expand_blocks_def)
  qed
qed

lemma parse_uncompressed:
  assumes "length bs = 8" "length out = 16"
  shows "ipaddr6_parse_ipv6_addr (colon_list bs) out = Some (Some (concat (map block_bytes bs)))"
proof -
  have "parse_blocks (colon_list bs) (length (colon_list bs)) st = Some (Name_end st)" for st
    by (subst parse_blocks.simps) simp
  moreover have "bs \<noteq> []" using assms by auto
  ultimately have "parse_blocks (colon_list bs) 0 (scan6_start out) =
      Some (Name_end (scan6_at (butlast bs) (-1) (last bs) False out))"
    using parse_colon_list [of bs "[]" out "[]" "[]" "-1"] assms by (simp add: scan6_start_at)
  with \<open>bs \<noteq> []\<close> show ?thesis
    using assms by (simp add: ipaddr6_parse_ipv6_addr_def store_block_at ipv4_done_at scan_ok_def expand_blocks_def)
qed

lemma zero_block: "a ! (2 * i) = 0 \<and> a ! (2 * i + 1) = 0 \<Longrightarrow> addr_block a i = 0"
  by (simp add: addr_block_def)

lemma zero_run_fold:
  assumes "fold (zero_run_step a) [0..<n] (0, 0, 0, 0) = (ls, ll, cs, cl)"
  shows "ls + ll \<le> n \<and> (\<forall>i. ls \<le> i \<and> i < ls + ll \<longrightarrow> addr_block a i = 0) \<and>
     cs + cl = n \<and> (\<forall>i. cs \<le> i \<and> i < cs + cl \<longrightarrow> addr_block a i = 0)"
  using assms
proof (induction n arbitrary: ls ll cs cl)
  case (Suc n)
  obtain ls' ll' cs' cl' where prev: "fold (zero_run_step a) [0..<n] (0, 0, 0, 0) = (ls', ll', cs', cl')"
    by (metis prod_cases4)
  have "zero_run_step a n (ls', ll', cs', cl') = (ls, ll, cs, cl)"
    using Suc.prems prev by simp
  then show ?case
    using Suc.IH [OF prev] zero_block [of a n]
    by (auto simp: zero_run_step_def less_Suc_eq split: if_splits)
qed simp

lemma largest_zero_run_props:
  assumes "largest_zero_run a = (s, l)"
  shows "s + l \<le> 8" "\<And>i. s \<le> i \<Longrightarrow> i < s + l \<Longrightarrow> addr_block a i = 0"
proof -
  obtain cs cl where "fold (zero_run_step a) [0..<8] (0, 0, 0, 0) = (s, l, cs, cl)"
    using assms by (auto simp: largest_zero_run_def split: prod.splits)
  from zero_run_fold [OF this]
  show "s + l \<le> 8" "\<And>i. s \<le> i \<Longrightarrow> i < s + l \<Longrightarrow> addr_block a i = 0" by auto
qed

text \<open>The printer writes one of the two forms, for the blocks of the address.\<close>

lemma print_addr_form:
  "\<exists>fs rs. map (addr_block a) [0..<8] = fs @ replicate (8 - length fs - length rs) 0 @ rs \<and>
     length fs + length rs \<le> 6 \<and> ipaddr6_print_addr a = colon_list fs @ ''::'' @ colon_list rs \<or>
   ipaddr6_print_addr a = colon_list (map (addr_block a) [0..<8])"
proof -
  obtain s l where run: "largest_zero_run a = (s, l)" by fastforce
  note props = largest_zero_run_props [OF run]
  show ?thesis
  proof (cases "l > 1")
    case True
    let ?f = "map (addr_block a) [0..<s]" and ?r = "map (addr_block a) [s + l..<8]"
    have "[0..<8] = [0..<s] @ [s..<s + l] @ [s + l..<8]"
      using props(1) by (metis append.assoc le_add1 upt_add_eq_append zero_le le_add_diff_inverse)
    moreover have "map (addr_block a) [s..<s + l] = replicate l 0"
      using props(2) by (intro nth_equalityI) auto
    ultimately have "map (addr_block a) [0..<8] = ?f @ replicate (8 - length ?f - length ?r) 0 @ ?r"
      using props(1) by simp
    moreover have "ipaddr6_print_addr a = colon_list ?f @ ''::'' @ colon_list ?r"
      using True run props(1) colon_front [of ?f] colon_rear [of ?r]
      by (auto simp: ipaddr6_print_addr_def comp_def split: if_splits)
    moreover have "length ?f + length ?r \<le> 6" using True props(1) by simp
    ultimately show ?thesis by blast
  next
    case False
    have "concat (map (\<lambda>i. (if i = 0 then [] else '':'') @ print_x (unat (addr_block a i))) [0..<8]) =
        colon_list (map (addr_block a) [0..<8])"
      by (simp add: upt_rec)
    then show ?thesis
      using False run by (auto simp: ipaddr6_print_addr_def)
  qed
qed

lemma addr_of_blocks:
  assumes "length a = 16"
  shows "concat (map block_bytes (map (addr_block a) [0..<8])) = a"
proof -
  have "block_bytes (addr_block a i) = [a ! (2 * i), a ! (2 * i + 1)]" for i
    unfolding block_bytes_be16 badvpn_write_be16_def addr_block_def split16 ..
  moreover have "map ((!) a) [0..<16] = a"
    using map_nth [of a] assms by simp
  ultimately show ?thesis by (simp add: upt_rec numeral_eq_Suc)
qed

lemma print_x_length: "n < 16 ^ Suc k \<Longrightarrow> length (print_x n) \<le> Suc k"
proof (induction k arbitrary: n)
  case (Suc k)
  then show ?case
    by (cases "n < 16") (auto simp: print_x.simps [of n] less_mult_imp_div_less)
qed (simp add: print_x.simps)

lemma colon_list_length: "bs \<noteq> [] \<Longrightarrow> Suc (length (colon_list bs)) \<le> 5 * length bs"
proof (induction bs rule: colon_list.induct)
  case (2 b)
  then show ?case using print_x_length [of "unat b" 3] u16_bound [of b] by simp
next
  case (3 b c bs)
  then show ?case using print_x_length [of "unat b" 3] u16_bound [of b] by simp
qed simp

lemma colon_list_set: "c \<in> set (colon_list bs) \<Longrightarrow> c \<noteq> CHR ''/''"
  by (induction bs rule: colon_list.induct) (auto dest: print_x_set)

lemma print_addr_shape: "length (ipaddr6_print_addr a) \<le> 39 \<and> CHR ''/'' \<notin> set (ipaddr6_print_addr a)"
  using print_addr_form [of a]
proof (elim exE disjE conjE)
  fix fs rs
  assume "length fs + length rs \<le> 6" "ipaddr6_print_addr a = colon_list fs @ ''::'' @ colon_list rs"
  then show ?thesis
    using colon_list_length [of fs] colon_list_length [of rs] colon_list_set
    by (cases "fs = []"; cases "rs = []") fastforce+
qed (use colon_list_length [of "map (addr_block a) [0..<8]"] colon_list_set in fastforce)

lemma parse_print_addr:
  assumes "length a = 16" "length out = 16"
  shows "ipaddr6_parse_ipv6_addr (ipaddr6_print_addr a) out = Some (Some a)"
  using print_addr_form [of a]
proof (elim exE disjE conjE)
  fix fs rs
  assume "map (addr_block a) [0..<8] = fs @ replicate (8 - length fs - length rs) 0 @ rs"
    "length fs + length rs \<le> 6" "ipaddr6_print_addr a = colon_list fs @ ''::'' @ colon_list rs"
  then show ?thesis
    using parse_compressed [of fs rs out] addr_of_blocks [OF assms(1)] assms(2) by simp
qed (use parse_uncompressed [of "map (addr_block a) [0..<8]" out] addr_of_blocks [OF assms(1)] assms(2) in simp)

lemma print_d_digits: "list_all is_digit (print_d n) \<and> dec_value (print_d n) = n \<and> print_d n \<noteq> []"
proof (induction n rule: print_d.induct)
  case (1 n)
  then show ?case
    using digit_char [of n] digit_char [of "n mod 10"]
    by (cases "n < 10") (auto simp: print_d.simps [of n] dec_value_snoc)
qed

lemma print_d_length: "n < 10 ^ Suc k \<Longrightarrow> length (print_d n) \<le> Suc k"
proof (induction k arbitrary: n)
  case (Suc k)
  then show ?case
    by (cases "n < 10") (auto simp: print_d.simps [of n] less_mult_imp_div_less)
qed (simp add: print_d.simps)

lemma parse_print_prefix:
  assumes "0 \<le> p" "p \<le> 128"
  shows "ipaddr6_parse_ipv6_prefix (print_d (nat p)) = Some p"
proof -
  have "unat (word_of_int p :: u64) = nat p"
    using assms by (simp add: unsigned_of_int take_bit_int_eq_self)
  then have "parse_unsigned_integer (print_d (nat p)) = Some (word_of_int p)"
    using print_d_digits [of "nat p"] by (simp add: parse_unsigned_integer_Some_iff)
  moreover have "uint (word_of_int p :: u64) = p"
    using assms by (simp add: unsigned_of_int take_bit_int_eq_self)
  ultimately show ?thesis
    using assms by (simp add: ipaddr6_parse_ipv6_prefix_def word_less_def)
qed

text \<open>
  C33. The printer of interface addresses fits the \<open>IPADDR6_PRINT_MAX\<close> (44) bytes its callers
  provide, terminator included, and the parser reads every printed address back: the
  longest run of zero blocks, wherever it is, can be left out without loss.
\<close>

theorem ipaddr6_print_parse:
  assumes "length (if6_addr x) = 16" "0 \<le> if6_prefix x" "if6_prefix x \<le> 128" "length out = 16"
  shows "\<exists>s. ipaddr6_print_ifaddr x = Some s \<and> length s + 1 \<le> 44 \<and>
     ipaddr6_parse_ipv6_ifaddr s out = Some (Some x)"
proof -
  let ?a = "ipaddr6_print_addr (if6_addr x)" and ?p = "print_d (nat (if6_prefix x))"
  let ?s = "?a @ CHR ''/'' # ?p"
  have "MemRef_FindChar ?s CHR ''/'' = Some (length ?a)"
    using print_addr_shape by (simp add: MemRef_FindChar_eq b_find_char_bin_append)
  then have "ipaddr6_parse_ipv6_ifaddr ?s out = Some (Some x)"
    using parse_print_addr [OF assms(1,4)] parse_print_prefix [OF assms(2,3)]
    by (simp add: ipaddr6_parse_ipv6_ifaddr_def MemRef_SubTo_def MemRef_SubFrom_def)
  moreover have "length ?s + 1 \<le> 44"
    using print_addr_shape [of "if6_addr x"] print_d_length [of "nat (if6_prefix x)" 2] assms(3) by simp linarith
  ultimately show ?thesis
    using assms by (simp add: ipaddr6_print_ifaddr_def)
qed

theorem ipaddr6_print_parse_witness:
  "\<exists>s. ipaddr6_print_ifaddr \<lparr>if6_addr = 0x20 # 1 # replicate 14 0, if6_prefix = 64\<rparr> = Some s \<and> length s + 1 \<le> 44 \<and>
     ipaddr6_parse_ipv6_ifaddr s (replicate 16 9) = Some (Some \<lparr>if6_addr = 0x20 # 1 # replicate 14 0, if6_prefix = 64\<rparr>)"
  by (rule ipaddr6_print_parse) simp_all

section \<open>Masks and networks\<close>

lemma top_bits_0 [simp]: "top_bits 0 t = t"
  by (simp add: top_bits_def)

lemma top_bits_Suc: "top_bits (Suc r) t = top_bits r t OR push_bit (8 - r - 1) 1"
  by (simp add: top_bits_def)

lemma top_bits_step: "top_bits r t OR 2 ^ (7 - r) = top_bits (Suc r) t"
  by (simp add: top_bits_Suc)

lemma bit_top_bits: "r \<le> 8 \<Longrightarrow> bit (top_bits r 0) n \<longleftrightarrow> 8 - r \<le> n \<and> n < 8"
proof (induction r)
  case (Suc r)
  then show ?case by (auto simp: top_bits_Suc bit_simps)
qed (simp add: top_bits_def)

lemma top_bits_8: "top_bits 8 0 = 0xFF"
  by (simp add: top_bits_def upt_rec)

lemma top_bits_inj: "r \<le> 8 \<Longrightarrow> r' \<le> 8 \<Longrightarrow> top_bits r 0 = top_bits r' 0 \<Longrightarrow> r = r'"
proof (induction r r' rule: linorder_wlog)
  case (le r r')
  then have "8 - r \<le> 8 - r' \<and> 8 - r' < 8 \<longleftrightarrow> 8 - r' < 8"
    using bit_top_bits [of r "8 - r'"] bit_top_bits [of r' "8 - r'"] by simp
  then show ?case using le by arith
qed simp

lemma match_partial_eq:
  "match_partial m j (top_bits j 0) \<le> 8 \<Longrightarrow> m = top_bits (match_partial m j (top_bits j 0)) 0"
proof (induction m j "top_bits j 0" rule: match_partial.induct)
  case (1 m j)
  show ?case
  proof (cases "j < 8 \<and> m \<noteq> top_bits j 0")
    case True
    then show ?thesis
      using 1 by (simp add: match_partial.simps [of m j] top_bits_step)
  next
    case False
    then show ?thesis
      using "1.prems" by (auto simp: match_partial.simps [of m] match_partial.simps [of m "Suc j"] split: if_splits)
  qed
qed

lemma match_partial_top: "j \<le> r \<Longrightarrow> r \<le> 8 \<Longrightarrow> match_partial (top_bits r 0) j (top_bits j 0) = r"
proof (induction "r - j" arbitrary: j)
  case 0
  then show ?case by (simp add: match_partial.simps [of _ j])
next
  case (Suc d)
  then have "top_bits r 0 \<noteq> top_bits j 0" "j < 8" using top_bits_inj [of r j] by auto
  then show ?case
    using Suc by (simp add: match_partial.simps [of _ j] top_bits_step)
qed

lemma skip_ones_eq: "skip_ones bs n = (rest, n') \<Longrightarrow>
    \<exists>k. bs = replicate k 0xFF @ rest \<and> n' = n + 8 * k \<and> (rest = [] \<or> hd rest \<noteq> 0xFF)"
proof (induction bs n rule: skip_ones.induct)
  case (2 b bs n)
  show ?case
  proof (cases "b = 0xFF")
    case True
    then obtain k where "bs = replicate k 0xFF @ rest \<and> n' = n + 8 + 8 * k \<and> (rest = [] \<or> hd rest \<noteq> 0xFF)"
      using 2 by auto
    then show ?thesis using True by (intro exI [of _ "Suc k"]) simp
  next
    case False
    then show ?thesis using 2 by (intro exI [of _ 0]) auto
  qed
qed simp

lemma skip_ones_replicate:
  "rest = [] \<or> hd rest \<noteq> 0xFF \<Longrightarrow> skip_ones (replicate k 0xFF @ rest) n = (rest, n + 8 * k)"
proof (induction k arbitrary: n)
  case 0
  then show ?case by (cases rest) auto
qed auto

text \<open>The mask of \<open>8 * k + r\<close> bits.\<close>

definition mask_bytes :: "nat \<Rightarrow> nat \<Rightarrow> bytes" where
  "mask_bytes k r = replicate k 0xFF @ (if k = 16 then [] else top_bits r 0 # replicate (15 - k) 0)"

lemma mask_from_prefix_eq:
  assumes "k \<le> 16" "r < 8" "k = 16 \<Longrightarrow> r = 0"
  shows "ipaddr6_ipv6_mask_from_prefix (int (8 * k + r)) = Some (mask_bytes k r)"
proof -
  have qr: "nat (int (8 * k + r) div 8) = k" "nat (int (8 * k + r) mod 8) = r"
    using assms by (simp_all add: zdiv_int zmod_int nat_add_distrib)
  have "replicate (16 - k) (0 :: u8) = 0 # replicate (15 - k) 0" if "k \<noteq> 16"
    using that assms by (simp flip: replicate_Suc)
  then show ?thesis
    using assms qr
    by (auto simp: ipaddr6_ipv6_mask_from_prefix_def mask_bytes_def byte_at_def nth_append list_update_append Let_def)
qed

lemma prefix_from_mask_eq:
  assumes "k \<le> 16" "r < 8" "k = 16 \<Longrightarrow> r = 0"
  shows "ipaddr6_ipv6_prefix_from_mask (mask_bytes k r) = Some (int (8 * k + r))"
proof -
  have "top_bits r 0 \<noteq> 0xFF"
    using top_bits_inj [of r 8] assms by (auto simp: top_bits_8)
  then show ?thesis
    using assms match_partial_top [of 0 r]
    by (auto simp: ipaddr6_ipv6_prefix_from_mask_def mask_bytes_def skip_ones_replicate list_all_iff Let_def)
qed

lemma prefix_from_mask_SomeD:
  assumes "ipaddr6_ipv6_prefix_from_mask m = Some p" "length m = 16"
  shows "\<exists>k r. m = mask_bytes k r \<and> p = int (8 * k + r) \<and> k \<le> 16 \<and> r < 8 \<and> (k = 16 \<longrightarrow> r = 0)"
proof -
  obtain rest n where skip: "skip_ones m 0 = (rest, n)" by fastforce
  then obtain k where k: "m = replicate k 0xFF @ rest" "n = 8 * k" "rest = [] \<or> hd rest \<noteq> 0xFF"
    using skip_ones_eq by fastforce
  show ?thesis
  proof (cases rest)
    case Nil
    then show ?thesis
      using assms skip k by (intro exI [of _ 16] exI [of _ 0]) (auto simp: ipaddr6_ipv6_prefix_from_mask_def mask_bytes_def)
  next
    case (Cons b bs)
    define r where "r = match_partial b 0 0"
    have r: "r \<le> 8" "p = int (n + r)" "list_all (\<lambda>b. b = 0) bs"
      using assms skip Cons by (auto simp: ipaddr6_ipv6_prefix_from_mask_def r_def Let_def split: if_splits)
    have b: "b = top_bits r 0"
      using match_partial_eq [of b 0] r(1) by (simp add: r_def)
    have "r \<noteq> 8" using b k(3) Cons by (auto simp: top_bits_8)
    moreover have "length bs = 15 - k" "k \<le> 15" using assms(2) k Cons by auto
    moreover have "bs = replicate (length bs) 0"
      using r(3) by (induction bs) auto
    ultimately show ?thesis
      using k r b Cons by (intro exI [of _ k] exI [of _ r]) (auto simp: mask_bytes_def)
  qed
qed

lemma prefix_split:
  assumes "0 \<le> p" "p \<le> 128"
  obtains k r where "p = int (8 * k + r)" "k \<le> 16" "r < 8" "k = 16 \<Longrightarrow> r = 0"
proof
  show "p = int (8 * (nat p div 8) + nat p mod 8)" using assms by simp
  show "nat p div 8 \<le> 16" "nat p mod 8 < 8" "nat p div 8 = 16 \<Longrightarrow> nat p mod 8 = 0"
    using assms mult_div_mod_eq [of 8 "nat p"] by linarith+
qed

text \<open>
  C37. Prefix lengths and masks are in bijection: \<open>ipaddr6_ipv6_mask_from_prefix\<close> is defined
  exactly on 0..128, and \<open>ipaddr6_ipv6_prefix_from_mask\<close> accepts exactly the masks it
  produces, with the prefix they come from.
\<close>

theorem ipv6_mask_prefix_bijection:
  "(\<exists>m. ipaddr6_ipv6_mask_from_prefix p = Some m) = (0 \<le> p \<and> p \<le> 128) \<and>
   (length m = 16 \<and> ipaddr6_ipv6_prefix_from_mask m = Some p) = (ipaddr6_ipv6_mask_from_prefix p = Some m)"
proof (cases "0 \<le> p \<and> p \<le> 128")
  case True
  then obtain k r where kr: "p = int (8 * k + r)" "k \<le> 16" "r < 8" "k = 16 \<Longrightarrow> r = 0"
    using prefix_split by blast
  have len: "length (mask_bytes k r) = 16" using kr(2) by (simp add: mask_bytes_def)
  have "mask_bytes k' r' = mask_bytes k r" if "p = int (8 * k' + r')" "r' < 8" for k' r'
  proof -
    have "8 * k' + r' = 8 * k + r" using that(1) kr(1) by linarith
    then have "k' = k" using that(2) kr(3) by linarith
    then have "r' = r" using \<open>8 * k' + r' = 8 * k + r\<close> by simp
    note \<open>k' = k\<close> this
    then show ?thesis by simp
  qed
  then show ?thesis
    using True kr(1) len mask_from_prefix_eq [OF kr(2-4)] prefix_from_mask_eq [OF kr(2-4)]
      prefix_from_mask_SomeD [of m p] by auto
next
  case False
  then have none: "ipaddr6_ipv6_mask_from_prefix p = None"
    by (auto simp: ipaddr6_ipv6_mask_from_prefix_def)
  have "ipaddr6_ipv6_prefix_from_mask m \<noteq> Some p" if "length m = 16"
    using prefix_from_mask_SomeD [OF _ that] False by fastforce
  then show ?thesis using False none by auto
qed

definition addr_bit :: "ipv6_addr \<Rightarrow> nat \<Rightarrow> bool" where
  \<comment> \<open>bit \<open>i\<close> in network order\<close>
  "addr_bit a i = bit (a ! (i div 8)) (7 - i mod 8)"

lemma byte_eq_bits: "(x :: u8) = y \<longleftrightarrow> (\<forall>j<8. bit x (7 - j) = bit y (7 - j))"
proof
  assume eq: "\<forall>j<8. bit x (7 - j) = bit y (7 - j)"
  show "x = y"
  proof (rule bit_word_eqI)
    fix n assume "n < LENGTH(8)"
    then have "7 - (7 - n) = n" "7 - n < 8" by simp_all
    then show "bit x n = bit y n" using eq by metis
  qed
qed simp

lemma masked_eq_bits:
  assumes "r < 8"
  shows "x AND top_bits r 0 = y AND top_bits r 0 \<longleftrightarrow> (\<forall>j<r. bit x (7 - j) = bit y (7 - j))"
proof -
  have "bit (z AND top_bits r 0) (7 - j) \<longleftrightarrow> bit z (7 - j) \<and> j < r" if "j < 8" for z j
    using assms that by (auto simp: bit_simps bit_top_bits)
  then show ?thesis
    unfolding byte_eq_bits [of "x AND _"] using assms less_trans by blast
qed

lemma take_eq_nth: "k \<le> length a \<Longrightarrow> k \<le> length b \<Longrightarrow> take k a = take k b \<longleftrightarrow> (\<forall>i<k. a ! i = b ! i)"
  by (simp add: list_eq_iff_nth_eq)

text \<open>
  For every prefix of 0 to 128 bits, \<open>ipaddr6_ipv6_addrs_in_network\<close> stays inside the
  two addresses and answers whether their first \<open>netprefix\<close> bits, in network order, agree.
\<close>

lemma ipv6_addrs_in_network_iff:
  assumes "length a = 16" "length b = 16" "0 \<le> p" "p \<le> 128"
  shows "ipaddr6_ipv6_addrs_in_network a b p = Some (\<forall>i < nat p. addr_bit a i = addr_bit b i)"
proof -
  obtain k r where kr: "p = int (8 * k + r)" "k \<le> 16" "r < 8" "k = 16 \<Longrightarrow> r = 0"
    using assms(3,4) prefix_split by blast
  have qr: "nat (p div 8) = k" "nat (p mod 8) = r" "nat p = 8 * k + r"
    using kr by (simp_all add: zdiv_int zmod_int nat_add_distrib)
  have full: "(\<forall>i < 8 * k. addr_bit a i = addr_bit b i) \<longleftrightarrow> (\<forall>i<k. a ! i = b ! i)"
  proof
    assume bits: "\<forall>i < 8 * k. addr_bit a i = addr_bit b i"
    have "bit (a ! i) (7 - j) = bit (b ! i) (7 - j)" if "i < k" "j < 8" for i j
      using bits [rule_format, of "8 * i + j"] that by (simp add: addr_bit_def)
    then show "\<forall>i<k. a ! i = b ! i" by (simp add: byte_eq_bits)
  qed (auto simp: addr_bit_def)
  have part: "(\<forall>i < 8 * k + r. addr_bit a i = addr_bit b i) \<longleftrightarrow>
      (\<forall>i < 8 * k. addr_bit a i = addr_bit b i) \<and> (\<forall>j<r. bit (a ! k) (7 - j) = bit (b ! k) (7 - j))"
  proof -
    have "(\<forall>i < 8 * k + r. P i) \<longleftrightarrow> (\<forall>i < 8 * k. P i) \<and> (\<forall>j<r. P (8 * k + j))" for P
    proof (intro iffI conjI allI impI)
      fix i assume "(\<forall>i < 8 * k. P i) \<and> (\<forall>j<r. P (8 * k + j))" "i < 8 * k + r"
      then show "P i" by (cases "i < 8 * k") (auto dest: spec [of _ "i - 8 * k"])
    qed auto
    then show ?thesis using kr(3) by (simp add: addr_bit_def)
  qed
  show ?thesis
    using assms kr(2-4) qr take_eq_nth [of k a b]
    by (simp add: ipaddr6_ipv6_addrs_in_network_def Let_def byte_at_def part full masked_eq_bits)
qed

lemma ipv6_addrs_in_network_iff_witness:
  "ipaddr6_ipv6_addrs_in_network (replicate 16 0xFE) (replicate 16 0xFF) 7 =
     Some (\<forall>i < nat 7. addr_bit (replicate 16 0xFE) i = addr_bit (replicate 16 0xFF) i)"
  by (rule ipv6_addrs_in_network_iff) simp_all

end
