(* ===== verification/Socket_Address.thy ===== *)
theory Socket_Address
  imports IPAddr6 "HOL-Library.List_Lexorder" "HOL-Library.Product_Lexorder"
begin

text \<open>
  Addresses of hosts and sockets (\<open>system/BAddr.h\<close>): construction, access, comparison,
  printing and parsing. The tagged unions are datatypes, so the assertions on the tag hold
  by construction and are left out, except where an operation is meant for some tags only.
  IP addresses and ports are kept as they are in memory, in network byte order; \<open>e\<close> is the
  byte order of the host. \<open>getaddrinfo\<close> is a parameter.
\<close>

section \<open>Addresses\<close>

datatype BIPAddr = BIPAddr_None | BIPAddr_IPv4 u32 | BIPAddr_IPv6 bytes

datatype BAddr =
    BAddr_None
  | BAddr_IPv4 u32 u16
  | BAddr_IPv6 bytes u16
  | BAddr_Packet u16 int int int bytes
    \<comment> \<open>EtherType, interface index, header type, packet type, physical address\<close>

fun baddr_type :: "BAddr \<Rightarrow> int" where
  "baddr_type BAddr_None = 0"
| "baddr_type (BAddr_IPv4 _ _) = 1"
| "baddr_type (BAddr_IPv6 _ _) = 2"
| "baddr_type (BAddr_Packet _ _ _ _ _) = 5"

definition BIPAddr_InitInvalid :: BIPAddr where
  "BIPAddr_InitInvalid = BIPAddr_None"

definition BIPAddr_InitIPv4 :: "u32 \<Rightarrow> BIPAddr" where
  "BIPAddr_InitIPv4 ip = BIPAddr_IPv4 ip"

definition BIPAddr_InitIPv6 :: "bytes \<Rightarrow> BIPAddr option" where
  "BIPAddr_InitIPv6 ip = do { bs \<leftarrow> subbytes ip 0 16; Some (BIPAddr_IPv6 bs) }"

definition BIPAddr_IsInvalid :: "BIPAddr \<Rightarrow> bool" where
  "BIPAddr_IsInvalid a \<longleftrightarrow> a = BIPAddr_None"

definition BIPAddr_Compare :: "BIPAddr \<Rightarrow> BIPAddr \<Rightarrow> bool" where
  "BIPAddr_Compare a b =
     (case (a, b) of
        (BIPAddr_IPv4 x, BIPAddr_IPv4 y) \<Rightarrow> x = y
      | (BIPAddr_IPv6 x, BIPAddr_IPv6 y) \<Rightarrow> x = y
      | _ \<Rightarrow> False)"

definition BAddr_MakeNone :: BAddr where
  "BAddr_MakeNone = BAddr_None"

definition BAddr_MakeIPv4 :: "u32 \<Rightarrow> u16 \<Rightarrow> BAddr" where
  "BAddr_MakeIPv4 ip port = BAddr_IPv4 ip port"

definition BAddr_MakeIPv6 :: "bytes \<Rightarrow> u16 \<Rightarrow> BAddr option" where
  "BAddr_MakeIPv6 ip port = do { bs \<leftarrow> subbytes ip 0 16; Some (BAddr_IPv6 bs port) }"

fun BAddr_MakeFromIpaddrAndPort :: "BIPAddr \<Rightarrow> u16 \<Rightarrow> BAddr option" where
  "BAddr_MakeFromIpaddrAndPort BIPAddr_None port = Some BAddr_MakeNone"
| "BAddr_MakeFromIpaddrAndPort (BIPAddr_IPv4 ip) port = Some (BAddr_MakeIPv4 ip port)"
| "BAddr_MakeFromIpaddrAndPort (BIPAddr_IPv6 ip) port = BAddr_MakeIPv6 ip port"

definition BAddr_InitPacket :: "u16 \<Rightarrow> int \<Rightarrow> int \<Rightarrow> int \<Rightarrow> bytes \<Rightarrow> BAddr option" where
  "BAddr_InitPacket phys_proto interface_index header_type packet_type phys_addr =
     do { cassert (header_type = 1);
          cassert (packet_type = 1 \<or> packet_type = 2 \<or> packet_type = 3 \<or> packet_type = 4 \<or> packet_type = 5);
          six \<leftarrow> subbytes phys_addr 0 6;
          Some (BAddr_Packet phys_proto interface_index header_type packet_type six) }"

definition BAddr_IsInvalid :: "BAddr \<Rightarrow> bool" where
  "BAddr_IsInvalid a \<longleftrightarrow> baddr_type a = 0"

fun BAddr_GetPort :: "BAddr \<Rightarrow> u16 option" where
  "BAddr_GetPort (BAddr_IPv4 _ port) = Some port"
| "BAddr_GetPort (BAddr_IPv6 _ port) = Some port"
| "BAddr_GetPort _ = None"

fun BAddr_GetIPAddr :: "BAddr \<Rightarrow> BIPAddr option" where
  "BAddr_GetIPAddr (BAddr_IPv4 ip _) = Some (BIPAddr_InitIPv4 ip)"
| "BAddr_GetIPAddr (BAddr_IPv6 ip _) = BIPAddr_InitIPv6 ip"
| "BAddr_GetIPAddr _ = Some BIPAddr_InitInvalid"

fun BAddr_SetPort :: "BAddr \<Rightarrow> u16 \<Rightarrow> BAddr option" where
  "BAddr_SetPort (BAddr_IPv4 ip _) port = Some (BAddr_IPv4 ip port)"
| "BAddr_SetPort (BAddr_IPv6 ip _) port = Some (BAddr_IPv6 ip port)"
| "BAddr_SetPort _ _ = None"

section \<open>Comparison\<close>

definition B_COMPARE :: "'a::linorder \<Rightarrow> 'a \<Rightarrow> int" where
  "B_COMPARE a b = of_bool (a > b) - of_bool (a < b)"

fun BAddr_Compare :: "BAddr \<Rightarrow> BAddr \<Rightarrow> bool" where
  "BAddr_Compare (BAddr_IPv4 ip1 port1) (BAddr_IPv4 ip2 port2) = (ip1 = ip2 \<and> port1 = port2)"
| "BAddr_Compare (BAddr_IPv6 ip1 port1) (BAddr_IPv6 ip2 port2) = (ip1 = ip2 \<and> port1 = port2)"
| "BAddr_Compare _ _ = False"

fun memcmp_bytes :: "bytes \<Rightarrow> bytes \<Rightarrow> int" where
  \<comment> \<open>the sign of \<open>memcmp\<close> on objects of the same size\<close>
  "memcmp_bytes (x # xs) (y # ys) = (if x = y then memcmp_bytes xs ys else if x < y then -1 else 1)"
| "memcmp_bytes _ _ = 0"

definition BAddr_CompareOrder :: "endian \<Rightarrow> BAddr \<Rightarrow> BAddr \<Rightarrow> int" where
  "BAddr_CompareOrder e addr1 addr2 =
     (let cmp = B_COMPARE (baddr_type addr1) (baddr_type addr2) in
      if cmp \<noteq> 0 then cmp
      else case (addr1, addr2) of
          (BAddr_IPv4 ip1 port1, BAddr_IPv4 ip2 port2) \<Rightarrow>
            (let cmp = B_COMPARE (ntoh32 e ip1) (ntoh32 e ip2) in
             if cmp \<noteq> 0 then cmp else B_COMPARE (ntoh16 e port1) (ntoh16 e port2))
        | (BAddr_IPv6 ip1 port1, BAddr_IPv6 ip2 port2) \<Rightarrow>
            (let cmp = memcmp_bytes ip1 ip2 in
             if cmp \<noteq> 0 then B_COMPARE cmp 0 else B_COMPARE (ntoh16 e port1) (ntoh16 e port2))
        | _ \<Rightarrow> 0)"

section \<open>Printing\<close>

definition print_int :: "int \<Rightarrow> string" where
  "print_int i = (if i < 0 then CHR ''-'' # print_d (nat (- i)) else print_d (nat i))"

definition print_02x :: "u8 \<Rightarrow> string" where
  "print_02x b = (let s = print_x (unat b) in if length s < 2 then CHR ''0'' # s else s)"

definition read_block :: "bytes \<Rightarrow> nat \<Rightarrow> string option" where
  "read_block ip i = map_option (\<lambda>w. print_x (unat w)) (badvpn_read_be16 (drop (2 * i) ip))"

fun BIPAddr_Print :: "endian \<Rightarrow> BIPAddr \<Rightarrow> string option" where
  "BIPAddr_Print e BIPAddr_None = Some ''(none)''"
| "BIPAddr_Print e (BIPAddr_IPv4 ip) =
     (case mem32 e ip of
        [a, b, c, d] \<Rightarrow>
          Some (print_d (unat a) @ ''.'' @ print_d (unat b) @ ''.'' @ print_d (unat c) @ ''.'' @ print_d (unat d))
      | _ \<Rightarrow> None)"
| "BIPAddr_Print e (BIPAddr_IPv6 ip) =
     do { b0 \<leftarrow> read_block ip 0; b1 \<leftarrow> read_block ip 1; b2 \<leftarrow> read_block ip 2; b3 \<leftarrow> read_block ip 3;
          b4 \<leftarrow> read_block ip 4; b5 \<leftarrow> read_block ip 5; b6 \<leftarrow> read_block ip 6; b7 \<leftarrow> read_block ip 7;
          Some (b0 @ '':'' @ b1 @ '':'' @ b2 @ '':'' @ b3 @ '':'' @ b4 @ '':'' @ b5 @ '':'' @ b6 @ '':'' @ b7) }"

fun BAddr_Print :: "endian \<Rightarrow> BAddr \<Rightarrow> string option" where
  "BAddr_Print e BAddr_None = Some ''(none)''"
| "BAddr_Print e (BAddr_IPv4 ip port) =
     do { out \<leftarrow> BIPAddr_Print e (BIPAddr_InitIPv4 ip);
          Some (out @ '':'' @ print_d (unat (ntoh16 e port))) }"
| "BAddr_Print e (BAddr_IPv6 ip port) =
     do { ipaddr \<leftarrow> BIPAddr_InitIPv6 ip;
          out \<leftarrow> BIPAddr_Print e ipaddr;
          Some (out @ '':'' @ print_d (unat (ntoh16 e port))) }"
| "BAddr_Print e (BAddr_Packet proto ifindex htype ptype phys) =
     do { cassert (htype = 1);
          p0 \<leftarrow> byte_at phys 0; p1 \<leftarrow> byte_at phys 1; p2 \<leftarrow> byte_at phys 2;
          p3 \<leftarrow> byte_at phys 3; p4 \<leftarrow> byte_at phys 4; p5 \<leftarrow> byte_at phys 5;
          Some (''proto='' @ print_d (unat proto) @ '',ifindex='' @ print_int ifindex @
                '',htype=eth,ptype='' @ print_int ptype @ '',addr='' @
                print_02x p0 @ '':'' @ print_02x p1 @ '':'' @ print_02x p2 @ '':'' @
                print_02x p3 @ '':'' @ print_02x p4 @ '':'' @ print_02x p5) }"

section \<open>Parsing\<close>

datatype sockaddr = Sockaddr_in u32 | Sockaddr_in6 bytes
datatype ai_family = AF_INET | AF_INET6

type_synonym getaddrinfo = "ai_family \<Rightarrow> bool \<Rightarrow> string \<Rightarrow> sockaddr option"
  \<comment> \<open>family, whether \<open>AI_NUMERICHOST\<close> is set, and the node; the first address found\<close>

definition isspace :: "char \<Rightarrow> bool" where
  "isspace c \<longleftrightarrow> c = CHR '' '' \<or> (of_char c :: nat) \<in> {9..13}"

definition strtol :: "string \<Rightarrow> int \<times> string" where
  \<comment> \<open>\<open>strtol\<close> of the C library in base 10 on a short string: the value and the unparsed rest\<close>
  "strtol s =
     (let t = dropWhile isspace s;
          (sg, u) = (case t of c # cs \<Rightarrow> if c = CHR ''-'' then (-1, cs) else if c = CHR ''+'' then (1, cs) else (1, t)
                     | [] \<Rightarrow> (1, t));
          ds = takeWhile is_digit u
      in if ds = [] then (0, s) else (sg * int (dec_value ds), dropWhile is_digit u))"

definition resolve_host :: "getaddrinfo \<Rightarrow> ai_family \<Rightarrow> bool \<Rightarrow> string \<Rightarrow> BIPAddr option option" where
  \<comment> \<open>the call of \<open>getaddrinfo\<close> and the copy of the address it found\<close>
  "resolve_host getaddrinfo family noresolve node =
     (case getaddrinfo family noresolve node of
        None \<Rightarrow> Some None
      | Some sa \<Rightarrow>
          (case (family, sa) of
             (AF_INET, Sockaddr_in ip) \<Rightarrow> Some (Some (BIPAddr_IPv4 ip))
           | (AF_INET6, Sockaddr_in6 ip) \<Rightarrow>
               do { bs \<leftarrow> subbytes ip 0 16; Some (Some (BIPAddr_IPv6 bs)) }
           | _ \<Rightarrow> None))"

definition BIPAddr_Resolve :: "getaddrinfo \<Rightarrow> string \<Rightarrow> bool \<Rightarrow> BIPAddr option option" where
  "BIPAddr_Resolve getaddrinfo buf noresolve =
     do { len \<leftarrow> strlen buf;
          let bracketed = (len \<ge> 1 \<and> buf ! 0 = CHR ''['' \<and> buf ! (len - 1) = CHR '']'');
              family = (if bracketed then AF_INET6 else AF_INET);
              addr_start = (if bracketed then 1 else 0);
              addr_len = (if bracketed then int len - 2 else int len)
          in if addr_len > 128 then Some None
             else do { cassert (0 \<le> addr_len);
                       node \<leftarrow> subbytes buf addr_start (nat addr_len);
                       addr_str \<leftarrow> overwrite (replicate 129 NUL) 0 (node @ [NUL]);
                       node \<leftarrow> MemRef_MakeCstr addr_str;
                       resolve_host getaddrinfo family noresolve node } }"

fun find_from :: "string \<Rightarrow> nat \<Rightarrow> char \<Rightarrow> nat" where
  \<comment> \<open>\<open>while (i < len && str[i] != c) i++\<close> on the characters from position \<open>i\<close>\<close>
  "find_from [] i c = i"
| "find_from (x # xs) i c = (if x \<noteq> c then find_from xs (i + 1) c else i)"

definition split_port :: "string \<Rightarrow> (ai_family \<times> nat \<times> nat \<times> nat) option" where
  \<comment> \<open>family, start and length of the address, start of the port\<close>
  "split_port str =
     (let len = length str in
      if str ! 0 = CHR ''['' then
        (let i = find_from (drop 1 str) 1 CHR '']'' in
         if i \<ge> len then None
         else if i + 1 \<ge> len \<or> str ! (i + 1) \<noteq> CHR '':'' then None
         else Some (AF_INET6, 1, i - 1, i + 2))
      else
        (let i = find_from str 0 CHR '':'' in
         if i \<ge> len then None else Some (AF_INET, 0, i, i + 1)))"

definition parse_port :: "string \<Rightarrow> u16 option" where
  "parse_port port_str =
     (case strtol port_str of (conv_res, err) \<Rightarrow>
        if port_str = [] \<or> err \<noteq> [] then None
        else if conv_res < 0 \<or> conv_res > UINT16_MAX then None
        else Some (word_of_int conv_res))"

fun make_baddr :: "BIPAddr \<Rightarrow> u16 \<Rightarrow> BAddr" where
  "make_baddr (BIPAddr_IPv4 ip) port = BAddr_IPv4 ip port"
| "make_baddr (BIPAddr_IPv6 ip) port = BAddr_IPv6 ip port"
| "make_baddr BIPAddr_None port = BAddr_None"

definition BAddr_Parse2 :: "endian \<Rightarrow> getaddrinfo \<Rightarrow> string \<Rightarrow> nat option \<Rightarrow> bool \<Rightarrow> (BAddr \<times> string option) option option" where
  \<comment> \<open>\<open>name_len\<close> is \<^term>\<open>None\<close> when no name is asked for\<close>
  "BAddr_Parse2 e getaddrinfo buf name_len noresolve =
     do { len \<leftarrow> strlen buf;
          if len < 1 \<or> len > 1000 then Some None
          else let str = take len buf in
            case split_port str of
              None \<Rightarrow> Some None
            | Some (family, addr_start, addr_len, port_start) \<Rightarrow>
                let port_len = len - port_start in
                if addr_len \<ge> 128 then Some None
                else do {
                  addr_part \<leftarrow> subbytes buf addr_start addr_len;
                  addr_str \<leftarrow> overwrite (replicate 128 NUL) 0 (addr_part @ [NUL]);
                  if port_len \<ge> 6 then Some None
                  else do {
                    port_part \<leftarrow> subbytes buf port_start port_len;
                    port_str \<leftarrow> overwrite (replicate 6 NUL) 0 (port_part @ [NUL]);
                    port_str \<leftarrow> MemRef_MakeCstr port_str;
                    case parse_port port_str of
                      None \<Rightarrow> Some None
                    | Some port \<Rightarrow>
                        do { node \<leftarrow> MemRef_MakeCstr addr_str;
                             r \<leftarrow> resolve_host getaddrinfo family noresolve node;
                             case r of
                               None \<Rightarrow> Some None
                             | Some ip \<Rightarrow>
                                 (case name_len of
                                    None \<Rightarrow> Some (Some (make_baddr ip (hton16 e port), None))
                                  | Some n \<Rightarrow>
                                      if length node \<ge> n then Some None
                                      else Some (Some (make_baddr ip (hton16 e port), Some node))) } } } }"

definition BAddr_Parse :: "endian \<Rightarrow> getaddrinfo \<Rightarrow> string \<Rightarrow> nat option \<Rightarrow> (BAddr \<times> string option) option option" where
  "BAddr_Parse e getaddrinfo buf name_len = BAddr_Parse2 e getaddrinfo buf name_len False"

section \<open>The order of addresses\<close>

fun is_ip :: "BAddr \<Rightarrow> bool" where
  \<comment> \<open>not a data link layer address, and of the right size\<close>
  "is_ip (BAddr_IPv6 ip _) \<longleftrightarrow> length ip = 16"
| "is_ip (BAddr_Packet _ _ _ _ _) \<longleftrightarrow> False"
| "is_ip _ \<longleftrightarrow> True"

fun order_key :: "endian \<Rightarrow> BAddr \<Rightarrow> int \<times> u32 \<times> bytes \<times> u16" where
  "order_key e (BAddr_IPv4 ip port) = (1, ntoh32 e ip, [], ntoh16 e port)"
| "order_key e (BAddr_IPv6 ip port) = (2, 0, ip, ntoh16 e port)"
| "order_key e a = (baddr_type a, 0, [], 0)"

lemma memcmp_bytes_compare: "length xs = length ys \<Longrightarrow> memcmp_bytes xs ys = B_COMPARE xs ys"
  by (induction xs ys rule: list_induct2) (auto simp: B_COMPARE_def)

lemma B_COMPARE_eq_0 [simp]: "B_COMPARE a b = 0 \<longleftrightarrow> a = b"
  by (auto simp: B_COMPARE_def)

lemma B_COMPARE_sign: "B_COMPARE (B_COMPARE a b) 0 = B_COMPARE a b"
  by (auto simp: B_COMPARE_def)

lemma CompareOrder_key:
  assumes "is_ip a" "is_ip b"
  shows "BAddr_CompareOrder e a b = B_COMPARE (order_key e a) (order_key e b)"
  using assms
  by (cases a; cases b) (auto simp: BAddr_CompareOrder_def Let_def memcmp_bytes_compare B_COMPARE_sign,
      auto simp: B_COMPARE_def)

lemma order_key_inj: "is_ip a \<Longrightarrow> is_ip b \<Longrightarrow> order_key e a = order_key e b \<longleftrightarrow> a = b"
proof -
  have "ntoh16 e x = ntoh16 e y \<longleftrightarrow> x = y" "ntoh32 e z = ntoh32 e w \<longleftrightarrow> z = w" for x y z w
    by (metis ntoh_hton(1) ntoh16_def, metis ntoh_hton(2) ntoh32_def)
  then show "is_ip a \<Longrightarrow> is_ip b \<Longrightarrow> order_key e a = order_key e b \<longleftrightarrow> a = b"
    by (cases a; cases b) auto
qed

text \<open>
  On addresses that are not data link layer addresses, \<open>BAddr_CompareOrder\<close> is a total
  order: equal exactly on equal addresses, antisymmetric and transitive; and
  \<open>BAddr_Compare\<close> is its equality, except that the invalid address equals nothing.
\<close>

lemma BAddr_CompareOrder_total_order:
  assumes "is_ip a" "is_ip b" "is_ip c"
  shows "(BAddr_CompareOrder e a b = 0 \<longleftrightarrow> a = b) \<and>
     BAddr_CompareOrder e b a = - BAddr_CompareOrder e a b \<and>
     (BAddr_CompareOrder e a b \<le> 0 \<and> BAddr_CompareOrder e b c \<le> 0 \<longrightarrow> BAddr_CompareOrder e a c \<le> 0) \<and>
     (BAddr_Compare a b \<longleftrightarrow> BAddr_CompareOrder e a b = 0 \<and> \<not> BAddr_IsInvalid a)"
proof -
  have cmp: "BAddr_Compare a b \<longleftrightarrow> a = b \<and> \<not> BAddr_IsInvalid a"
    using assms by (cases a; cases b) (auto simp: BAddr_IsInvalid_def)
  have neg: "B_COMPARE y x = - B_COMPARE x y" and le: "B_COMPARE x y \<le> 0 \<longleftrightarrow> x \<le> y" for x y :: "'x :: linorder"
    by (auto simp: B_COMPARE_def)
  show ?thesis
    using assms order_key_inj [of a b e] neg [of "order_key e b" "order_key e a"]
    by (auto simp: CompareOrder_key cmp le)
qed

lemma BAddr_CompareOrder_total_order_witness:
  "BAddr_CompareOrder LittleEndian (BAddr_IPv4 1 2) (BAddr_IPv4 2 1) =
   - BAddr_CompareOrder LittleEndian (BAddr_IPv4 2 1) (BAddr_IPv4 1 2)"
  using BAddr_CompareOrder_total_order [of "BAddr_IPv4 2 1" "BAddr_IPv4 1 2" BAddr_None LittleEndian] by simp

section \<open>Parsing is safe\<close>

definition gai_well_typed :: "getaddrinfo \<Rightarrow> bool" where
  \<comment> \<open>addresses have the family that the hints ask for\<close>
  "gai_well_typed getaddrinfo \<longleftrightarrow>
     (\<forall>nr node sa. (getaddrinfo AF_INET nr node = Some sa \<longrightarrow> (\<exists>ip. sa = Sockaddr_in ip)) \<and>
        (getaddrinfo AF_INET6 nr node = Some sa \<longrightarrow> (\<exists>ip. sa = Sockaddr_in6 ip \<and> length ip = 16)))"

lemma resolve_host_total: "gai_well_typed gai \<Longrightarrow> \<exists>r. resolve_host gai f nr node = Some r \<and> r \<noteq> Some BIPAddr_None"
  by (cases f; cases "gai f nr node") (fastforce simp: resolve_host_def gai_well_typed_def subbytes_def)+

lemma find_from_bounds: "i \<le> find_from s i c \<and> find_from s i c \<le> i + length s"
  by (induction s i c rule: find_from.induct) auto

lemma split_port_bounds:
  assumes "split_port str = Some (f, start, n, port_start)" "str \<noteq> []"
  shows "start + n \<le> length str \<and> port_start \<le> length str"
proof (cases "str ! 0 = CHR ''[''")
  case True
  define i where "i = find_from (drop 1 str) 1 CHR '']''"
  then have "1 \<le> i" using find_from_bounds by simp
  then show ?thesis
    using assms True by (auto simp: split_port_def Let_def i_def [symmetric] split: if_splits)
next
  case False
  define i where "i = find_from str 0 CHR '':''"
  then show ?thesis
    using assms False by (auto simp: split_port_def Let_def i_def [symmetric] split: if_splits)
qed

lemma copy_cstr:
  assumes "length s < k"
  shows "overwrite (replicate k NUL) 0 (s @ [NUL]) = Some (s @ replicate (k - length s) NUL)"
proof -
  have "NUL # replicate (k - Suc (length s)) NUL = replicate (k - length s) NUL"
    using assms by (metis Suc_diff_Suc replicate_Suc)
  then show ?thesis using assms by (simp add: overwrite_total)
qed

lemma MakeCstr_padded: "NUL \<notin> set s \<Longrightarrow> length s < k \<Longrightarrow> MemRef_MakeCstr (s @ replicate (k - length s) NUL) = Some s"
  by (metis MemRef_MakeCstr_append Suc_diff_Suc replicate_Suc)

lemma BIPAddr_Resolve_total:
  assumes "gai_well_typed gai" "NUL \<notin> set str"
  shows "\<exists>r. BIPAddr_Resolve gai (str @ [NUL]) nr = Some r \<and> r \<noteq> Some BIPAddr_None"
proof -
  define br where "br \<longleftrightarrow> length str \<ge> 1 \<and> (str @ [NUL]) ! 0 = CHR ''['' \<and> (str @ [NUL]) ! (length str - 1) = CHR '']''"
  let ?start = "if br then 1 else 0 :: nat" and ?len = "if br then int (length str) - 2 else int (length str)"
  have len: "0 \<le> ?len" "?start + nat ?len \<le> length str"
    by (cases "length str = 1"; auto simp: br_def)+
  let ?node = "take (nat ?len) (drop ?start str)"
  have node: "NUL \<notin> set ?node" "length ?node = nat ?len"
    using assms(2) len by (auto dest!: in_set_takeD in_set_dropD)
  have slen: "strlen (str @ [NUL]) = Some (length str)" using assms(2) by (induction str) auto
  have sub: "subbytes (str @ [NUL]) ?start (nat ?len) = Some ?node" using len by (auto simp: subbytes_def)
  have eq: "BIPAddr_Resolve gai (str @ [NUL]) nr = (if ?len > 128 then Some None
      else do { cassert (0 \<le> ?len); node \<leftarrow> subbytes (str @ [NUL]) ?start (nat ?len);
                addr_str \<leftarrow> overwrite (replicate 129 NUL) 0 (node @ [NUL]); node \<leftarrow> MemRef_MakeCstr addr_str;
                resolve_host gai (if br then AF_INET6 else AF_INET) nr node })"
    using slen by (simp add: BIPAddr_Resolve_def br_def Let_def)
  show ?thesis
  proof (cases "?len > 128")
    case True
    then show ?thesis unfolding eq by simp
  next
    case False
    then have short: "length ?node < 129" using node(2) by linarith
    obtain r where "resolve_host gai (if br then AF_INET6 else AF_INET) nr ?node = Some r" "r \<noteq> Some BIPAddr_None"
      using resolve_host_total [OF assms(1)] by blast
    then have "BIPAddr_Resolve gai (str @ [NUL]) nr = Some r"
      unfolding eq sub using len(1) False copy_cstr [OF short] MakeCstr_padded [OF node(1) short] by simp
    then show ?thesis using \<open>r \<noteq> _\<close> by blast
  qed
qed

text \<open>What \<open>BAddr_Parse2\<close> does, without its buffers.\<close>

definition parse2_result :: "endian \<Rightarrow> getaddrinfo \<Rightarrow> string \<Rightarrow> nat option \<Rightarrow> bool \<Rightarrow> (BAddr \<times> string option) option option" where
  "parse2_result e gai str name_len noresolve =
     (if str = [] \<or> length str > 1000 then Some None
      else case split_port str of
        None \<Rightarrow> Some None
      | Some (family, addr_start, addr_len, port_start) \<Rightarrow>
          if addr_len \<ge> 128 \<or> length str - port_start \<ge> 6 then Some None
          else case parse_port (drop port_start str) of
            None \<Rightarrow> Some None
          | Some port \<Rightarrow>
              let node = take addr_len (drop addr_start str) in
              do { r \<leftarrow> resolve_host gai family noresolve node;
                   Some (do { ip \<leftarrow> r;
                              case name_len of
                                None \<Rightarrow> Some (make_baddr ip (hton16 e port), None)
                              | Some n \<Rightarrow> if length node \<ge> n then None
                                          else Some (make_baddr ip (hton16 e port), Some node) }) })"

lemma bind_finish:
  "case_option (Some None) (\<lambda>ip. case nl of None \<Rightarrow> Some (Some (f ip)) | Some n \<Rightarrow> if P n then Some None else Some (Some (g ip))) =
   (\<lambda>r. Some (do { ip \<leftarrow> r; case nl of None \<Rightarrow> Some (f ip) | Some n \<Rightarrow> if P n then None else Some (g ip) }))"
  by (rule ext; cases nl) (auto split: option.split)

lemma BAddr_Parse2_eq:
  assumes "NUL \<notin> set str"
  shows "BAddr_Parse2 e gai (str @ NUL # rest) name_len noresolve = parse2_result e gai str name_len noresolve"
proof (cases "str = [] \<or> length str > 1000 \<or> split_port str = None")
  case True
  then show ?thesis
    using assms by (auto simp: BAddr_Parse2_def parse2_result_def strlen_append Let_def)
next
  case False
  then obtain f st n ps where sp: "split_port str = Some (f, st, n, ps)" by (cases "split_port str") auto
  then have b: "st + n \<le> length str" "ps \<le> length str"
    using split_port_bounds False by auto
  define node where "node = take n (drop st str)"
  define port where "port = drop ps str"
  have node: "subbytes (str @ NUL # rest) st n = Some node" "length node = n" "NUL \<notin> set node"
    using b assms by (auto simp: subbytes_def node_def dest: in_set_takeD in_set_dropD)
  have port: "subbytes (str @ NUL # rest) ps (length str - ps) = Some port" "length port = length str - ps" "NUL \<notin> set port"
    using b assms by (auto simp: subbytes_def port_def dest: in_set_dropD)
  show ?thesis
  proof (cases "n \<ge> 128 \<or> length str - ps \<ge> 6")
    case True
    then show ?thesis
      using sp False assms node copy_cstr [of node 128]
      by (cases "n \<ge> 128") (auto simp: BAddr_Parse2_def parse2_result_def strlen_append Let_def)
  next
    case False
    then have "overwrite (replicate 128 NUL) 0 (node @ [NUL]) = Some (node @ replicate (128 - length node) NUL)"
        "overwrite (replicate 6 NUL) 0 (port @ [NUL]) = Some (port @ replicate (6 - length port) NUL)"
        "MemRef_MakeCstr (node @ replicate (128 - length node) NUL) = Some node"
        "MemRef_MakeCstr (port @ replicate (6 - length port) NUL) = Some port"
      using node(2,3) port(2,3) by (intro copy_cstr MakeCstr_padded; simp)+
    then show ?thesis
      using sp \<open>\<not> (str = [] \<or> _ \<or> _)\<close> False assms node(1) port(1)
      by (cases "parse_port port")
        (simp_all add: BAddr_Parse2_def parse2_result_def strlen_append node_def [symmetric] port_def [symmetric]
          bind_finish Let_def Suc_le_eq)
  qed
qed

lemma BAddr_Parse2_total:
  assumes "gai_well_typed gai" "NUL \<in> set buf"
  shows "\<exists>r. BAddr_Parse2 e gai buf name_len noresolve = Some r \<and>
     (\<forall>a name. r = Some (a, name) \<longrightarrow> (baddr_type a = 1 \<or> baddr_type a = 2) \<and>
        (\<forall>n node. name_len = Some n \<and> name = Some node \<longrightarrow> length node < n))"
proof -
  obtain str rest where buf: "buf = str @ NUL # rest" "NUL \<notin> set str"
    using assms(2) by (metis split_list_first)
  have ty: "baddr_type (make_baddr ip p) = 1 \<or> baddr_type (make_baddr ip p) = 2" if "ip \<noteq> BIPAddr_None" for ip p
    using that by (cases ip) auto
  consider "parse2_result e gai str name_len noresolve = Some None"
    | f node port ip where "ip \<noteq> BIPAddr_None"
        "parse2_result e gai str name_len noresolve =
           Some (case name_len of None \<Rightarrow> Some (make_baddr ip (hton16 e port), None)
             | Some n \<Rightarrow> if length node \<ge> n then None else Some (make_baddr ip (hton16 e port), Some node))"
  proof (cases "\<exists>f st n ps port. str \<noteq> [] \<and> \<not> length str > 1000 \<and> split_port str = Some (f, st, n, ps) \<and>
      \<not> (n \<ge> 128 \<or> length str - ps \<ge> 6) \<and> parse_port (drop ps str) = Some port")
    case True
    then obtain f st n ps port where ok: "str \<noteq> []" "\<not> length str > 1000" "split_port str = Some (f, st, n, ps)"
        "\<not> (n \<ge> 128 \<or> length str - ps \<ge> 6)" "parse_port (drop ps str) = Some port" by blast
    obtain r where r: "resolve_host gai f noresolve (take n (drop st str)) = Some r" "r \<noteq> Some BIPAddr_None"
      using resolve_host_total [OF assms(1)] by blast
    then show thesis
      using that ok by (cases r) (auto simp: parse2_result_def Let_def)
  next
    case False
    then have "parse2_result e gai str name_len noresolve = Some None"
      by (auto simp: parse2_result_def split: option.splits)
    then show thesis by (rule that)
  qed
  then have "\<exists>r. parse2_result e gai str name_len noresolve = Some r \<and>
     (\<forall>a name. r = Some (a, name) \<longrightarrow> (baddr_type a = 1 \<or> baddr_type a = 2) \<and>
        (\<forall>n node. name_len = Some n \<and> name = Some node \<longrightarrow> length node < n))"
    by cases (use ty in \<open>auto split: option.splits if_splits\<close>)
  then show ?thesis using buf by (simp add: BAddr_Parse2_eq)
qed

text \<open>
  C34. \<open>BAddr_Parse2\<close> is memory safe on every terminated string: it reads nothing past the
  terminator, the copies fit the 128 and 6 bytes of its buffers, and a name it returns
  fits the caller's buffer with its terminator; every accepted address is an IPv4 or IPv6
  address.
\<close>

theorem BAddr_Parse2_safe:
  assumes "gai_well_typed gai" "NUL \<in> set buf"
  shows "\<exists>r. BAddr_Parse2 e gai buf name_len noresolve = Some r \<and>
     (\<forall>a name. r = Some (a, name) \<longrightarrow> (baddr_type a = 1 \<or> baddr_type a = 2) \<and>
        (\<forall>n node. name_len = Some n \<and> name = Some node \<longrightarrow> length node < n))"
  using assms by (rule BAddr_Parse2_total)

definition fixed_gai :: getaddrinfo where
  "fixed_gai family numeric node =
     (case family of AF_INET \<Rightarrow> Some (Sockaddr_in 0x0100007F) | AF_INET6 \<Rightarrow> None)"

theorem BAddr_Parse2_safe_witness:
  "\<exists>r. BAddr_Parse2 LittleEndian fixed_gai (''localhost:80'' @ [NUL]) (Some 16) False = Some r \<and>
     (\<forall>a name. r = Some (a, name) \<longrightarrow> (baddr_type a = 1 \<or> baddr_type a = 2) \<and>
        (\<forall>n node. Some 16 = Some n \<and> name = Some node \<longrightarrow> length node < n))"
  by (rule BAddr_Parse2_safe) (simp_all add: gai_well_typed_def fixed_gai_def)

section \<open>Printing and parsing back\<close>

lemma print_d_chars: "c \<in> set (print_d n) \<Longrightarrow> is_digit c"
  using print_d_digits [of n] by (simp add: list_all_iff)

lemma digit_not: "is_digit c \<Longrightarrow> c \<noteq> CHR '':'' \<and> c \<noteq> CHR ''['' \<and> c \<noteq> NUL \<and> c \<noteq> CHR ''-'' \<and> c \<noteq> CHR ''+'' \<and> \<not> isspace c"
  unfolding isspace_def char_eq_code by (auto simp: is_digit_def simp del: of_char_eq_iff)

lemma strtol_digits:
  assumes "list_all is_digit ds" "ds \<noteq> []"
  shows "strtol ds = (int (dec_value ds), [])"
proof -
  obtain c cs where ds: "ds = c # cs" using assms(2) by (cases ds) auto
  then have tw: "takeWhile is_digit cs = cs" "dropWhile is_digit cs = []"
    using assms(1) by (auto simp: list_all_iff takeWhile_eq_all_conv)
  show ?thesis
    using assms(1) digit_not [of c] ds by (simp add: strtol_def tw)
qed

lemma parse_port_print: "n < 65536 \<Longrightarrow> parse_port (print_d n) = Some (of_nat n)"
  using print_d_digits [of n] by (simp add: parse_port_def strtol_digits)

lemma find_from_append: "c \<notin> set xs \<Longrightarrow> find_from (xs @ c # ys) i c = i + length xs"
  by (induction xs arbitrary: i) auto

lemma parse2_ipv4:
  assumes "txt \<noteq> []" "length txt < 128" "CHR '':'' \<notin> set txt" "CHR ''['' \<notin> set txt" "n < 65536"
    and "gai AF_INET nr txt = Some (Sockaddr_in ip)"
  shows "parse2_result e gai (txt @ '':'' @ print_d n) None nr = Some (Some (BAddr_IPv4 ip (hton16 e (of_nat n)), None))"
proof -
  have "length (print_d n) \<le> 5" using print_d_length [of n 4] assms(5) by simp
  moreover have "txt ! 0 \<noteq> CHR ''[''" using assms(1,4) by (metis length_greater_0_conv nth_mem)
  then have "split_port (txt @ '':'' @ print_d n) = Some (AF_INET, 0, length txt, length txt + 1)"
    using assms(1,3) by (simp add: split_port_def nth_append find_from_append Let_def)
  ultimately show ?thesis
    using assms by (simp add: parse2_result_def parse_port_print resolve_host_def)
qed

lemma dotted_text:
  assumes "BIPAddr_Print e (BIPAddr_IPv4 ip) = Some txt"
  shows "txt \<noteq> []" "length txt \<le> 15" "\<And>c. c \<in> set txt \<Longrightarrow> is_digit c \<or> c = CHR ''.''"
proof -
  obtain a b c d where m: "mem32 e ip = [a, b, c, d]" by (cases e) auto
  have len: "length (print_d (unat (x :: u8))) \<le> 3" for x
    using print_d_length [of "unat x" 2] unsigned_less [of x, where ?'a = nat] by simp
  show "txt \<noteq> []" "length txt \<le> 15" "\<And>c. c \<in> set txt \<Longrightarrow> is_digit c \<or> c = CHR ''.''"
    using assms m len [of a] len [of b] len [of c] len [of d] by (auto dest: print_d_chars)
qed

lemma IPv6_print:
  assumes "length ip = 16"
  shows "BIPAddr_Print e (BIPAddr_IPv6 ip) = Some (colon_list (map (addr_block ip) [0..<8]))"
proof -
  have "read_block ip i = Some (print_x (unat (addr_block ip i)))" if "i < 8" for i
  proof -
    have "drop (2 * i) ip = ip ! (2 * i) # ip ! (2 * i + 1) # drop (2 * i + 2) ip"
      using that assms by (simp add: Cons_nth_drop_Suc)
    then show ?thesis by (simp add: read_block_def addr_block_def)
  qed
  then show ?thesis by (simp add: upt_rec numeral_eq_Suc)
qed

lemma print_x_hex: "c \<in> set (print_x n) \<Longrightarrow> 0 \<le> decode_hex_digit c"
proof (induction n rule: print_x.induct)
  case (1 n)
  then show ?case
    using hex_char_props(1) [of n] hex_char_props(1) [of "n mod 16"]
    by (cases "n < 16") (auto simp: print_x.simps [of n])
qed

lemma not_hex: "decode_hex_digit CHR ''['' = -1" "decode_hex_digit NUL = -1"
  by (simp_all add: decode_hex_digit_def switch_table_def)

lemma colon_list_chars: "c \<in> set (colon_list bs) \<Longrightarrow> c = CHR '':'' \<or> 0 \<le> decode_hex_digit c"
  by (induction bs rule: colon_list.induct) (auto dest: print_x_hex)

lemma colon_list_ge: "2 * length bs \<le> Suc (length (colon_list bs))"
proof (induction bs rule: colon_list.induct)
  case (2 b)
  then show ?case using print_x_ne [of "unat b"] by (simp add: Suc_le_eq)
next
  case (3 b c bs)
  then show ?case using print_x_ne [of "unat b"] by (cases "print_x (unat b)") auto
qed simp

lemma parse2_colons:
  assumes "6 \<le> length (colon_list (b1 # bs))"
  shows "parse2_result e gai (colon_list (b0 # b1 # bs) @ rest) name nr = Some None"
proof -
  let ?p = "print_x (unat b0)"
  have "CHR ''['' \<notin> set ?p" "CHR '':'' \<notin> set ?p"
    using print_x_hex [of "CHR ''[''" "unat b0"] print_x_set [of "CHR '':''" "unat b0"] not_hex by auto
  moreover have "?p \<noteq> []" by (rule print_x_ne)
  then have "?p ! 0 \<in> set ?p" by simp
  ultimately have "split_port (?p @ CHR '':'' # colon_list (b1 # bs) @ rest) =
      Some (AF_INET, 0, length ?p, length ?p + 1)"
    by (auto simp: split_port_def nth_append find_from_append Let_def)
  then show ?thesis using assms by (simp add: parse2_result_def)
qed

lemma port_of_print: "hton16 e (of_nat (unat (ntoh16 e port))) = port"
  by simp (metis ntoh_hton(1) ntoh16_def)

text \<open>
  C35. Printing an address with a port needs at most 45 characters and a terminator, far
  below \<open>BADDR_MAX_PRINT_LEN\<close> (120). Where \<open>getaddrinfo\<close> reads the dotted text of an IPv4 address as that address,
  \<open>BAddr_Parse2\<close> reads the printed IPv4 address and port back. The printed text of an IPv6
  address, which has no brackets, is always refused.
\<close>

theorem BAddr_print_parse:
  assumes "BIPAddr_Print e (BIPAddr_IPv4 ip) = Some txt" "gai AF_INET nr txt = Some (Sockaddr_in ip)"
    and "length ip6 = 16"
  shows "\<exists>s s6. BAddr_Print e (BAddr_IPv4 ip port) = Some s \<and> length s + 1 \<le> 46 \<and>
     BAddr_Parse2 e gai (s @ [NUL]) None nr = Some (Some (BAddr_IPv4 ip port, None)) \<and>
     BAddr_Print e (BAddr_IPv6 ip6 port) = Some s6 \<and> length s6 + 1 \<le> 46 \<and>
     BAddr_Parse2 e gai (s6 @ [NUL]) None nr = Some None"
proof -
  let ?n = "unat (ntoh16 e port)"
  let ?s = "txt @ '':'' @ print_d ?n"
  let ?b = "map (addr_block ip6) [0..<8]"
  let ?s6 = "colon_list ?b @ '':'' @ print_d ?n"
  have n: "?n < 65536" using unsigned_less [of "ntoh16 e port", where ?'a = nat] by simp
  have len: "length (print_d ?n) \<le> 5" using print_d_length [of ?n 4] n by simp
  note shape = dotted_text [OF assms(1)]
  have "CHR '':'' \<notin> set txt" "CHR ''['' \<notin> set txt" "NUL \<notin> set ?s"
    using shape(3) digit_not print_d_chars by fastforce+
  then have "BAddr_Parse2 e gai (?s @ [NUL]) None nr = Some (Some (BAddr_IPv4 ip port, None))"
    using parse2_ipv4 [of "txt" ?n gai nr ip e] BAddr_Parse2_eq [of ?s e gai "[]"] shape n assms(2) port_of_print by simp
  moreover have "BAddr_Print e (BAddr_IPv4 ip port) = Some ?s"
    using assms(1) by (simp add: BIPAddr_InitIPv4_def)
  moreover have "BAddr_Print e (BAddr_IPv6 ip6 port) = Some ?s6"
    using IPv6_print [OF assms(3)] assms(3) by (simp add: BIPAddr_InitIPv6_def subbytes_def)
  moreover have "length ?s6 + 1 \<le> 46" using colon_list_length [of ?b] len by simp
  moreover have "BAddr_Parse2 e gai (?s6 @ [NUL]) None nr = Some None"
  proof -
    have "NUL \<notin> set ?s6"
      using colon_list_chars [of NUL ?b] print_d_chars [of NUL ?n] digit_not [of NUL] not_hex by auto
    moreover obtain b0 b1 bs where b: "?b = b0 # b1 # bs" "length bs = 6" by (simp add: upt_rec)
    moreover have "6 \<le> length (colon_list (b1 # bs))" using colon_list_ge [of "b1 # bs"] b by simp
    ultimately show ?thesis
      using parse2_colons [of b1 bs e gai b0 "'':'' @ print_d ?n" None nr] BAddr_Parse2_eq [of ?s6 e gai "[]" None nr]
      by simp
  qed
  ultimately show ?thesis using shape(2) len by auto
qed

lemma loopback_text: "BIPAddr_Print LittleEndian (BIPAddr_IPv4 0x0100007F) = Some ''127.0.0.1''"
  by code_simp

theorem BAddr_print_parse_witness:
  "\<exists>s. BAddr_Print LittleEndian (BAddr_IPv4 0x0100007F 80) = Some s \<and>
     BAddr_Parse2 LittleEndian fixed_gai (s @ [NUL]) None False = Some (Some (BAddr_IPv4 0x0100007F 80, None))"
  using BAddr_print_parse [OF loopback_text, of fixed_gai False "replicate 16 0" 80]
  by (auto simp: fixed_gai_def)

end
