(* ===== verification/Linked_List.thy ===== *)
theory Linked_List
  imports Prelude
begin

text \<open>
  The two intrusive doubly linked lists (\<open>structure/LinkedList1.h\<close>,
  \<open>structure/SLinkedList_impl.h\<close>). Nodes live in a heap, a map from addresses to the pair of
  pointers of a node; a pointer is an address or \<^term>\<open>None\<close> for \<open>NULL\<close>. Following
  \<open>NULL\<close> or an address outside the heap is the result \<^term>\<open>None\<close>. Both implementations are
  shown to refine lists of addresses through one interface, \<open>linked_list\<close>.
\<close>

section \<open>The heap\<close>

type_synonym ptr = "nat option"

record lnode =
  node_p :: ptr
  node_n :: ptr

type_synonym heap = "nat \<rightharpoonup> lnode"

definition deref :: "heap \<Rightarrow> ptr \<Rightarrow> lnode option" where
  "deref h q = do { a \<leftarrow> q; h a }"

definition set_p :: "heap \<Rightarrow> ptr \<Rightarrow> ptr \<Rightarrow> heap option" where
  "set_p h q v = do { a \<leftarrow> q; nd \<leftarrow> h a; Some (h(a \<mapsto> nd\<lparr>node_p := v\<rparr>)) }"

definition set_n :: "heap \<Rightarrow> ptr \<Rightarrow> ptr \<Rightarrow> heap option" where
  "set_n h q v = do { a \<leftarrow> q; nd \<leftarrow> h a; Some (h(a \<mapsto> nd\<lparr>node_n := v\<rparr>)) }"

section \<open>LinkedList1\<close>

record LinkedList1 =
  ll_first :: ptr
  ll_last :: ptr

definition LinkedList1_Init :: LinkedList1 where
  "LinkedList1_Init = \<lparr>ll_first = None, ll_last = None\<rparr>"




definition LinkedList1_Prepend :: "LinkedList1 \<Rightarrow> heap \<Rightarrow> nat \<Rightarrow> (LinkedList1 \<times> heap) option" where
  "LinkedList1_Prepend l h node =
     do { h \<leftarrow> set_p h (Some node) None;
          h \<leftarrow> set_n h (Some node) (ll_first l);
          (l, h) \<leftarrow> (if ll_first l \<noteq> None
                    then do { h \<leftarrow> set_p h (ll_first l) (Some node); Some (l, h) }
                    else Some (l\<lparr>ll_last := Some node\<rparr>, h));
          Some (l\<lparr>ll_first := Some node\<rparr>, h) }"


definition LinkedList1_InsertBefore :: "LinkedList1 \<Rightarrow> heap \<Rightarrow> nat \<Rightarrow> nat \<Rightarrow> (LinkedList1 \<times> heap) option" where
  "LinkedList1_InsertBefore l h node target =
     do { t \<leftarrow> h target;
          h \<leftarrow> set_p h (Some node) (node_p t);
          h \<leftarrow> set_n h (Some node) (Some target);
          t \<leftarrow> h target;
          (l, h) \<leftarrow> (if node_p t \<noteq> None
                    then do { h \<leftarrow> set_n h (node_p t) (Some node); Some (l, h) }
                    else Some (l\<lparr>ll_first := Some node\<rparr>, h));
          h \<leftarrow> set_p h (Some target) (Some node);
          Some (l, h) }"

definition LinkedList1_InsertAfter :: "LinkedList1 \<Rightarrow> heap \<Rightarrow> nat \<Rightarrow> nat \<Rightarrow> (LinkedList1 \<times> heap) option" where
  "LinkedList1_InsertAfter l h node target =
     do { h \<leftarrow> set_p h (Some node) (Some target);
          t \<leftarrow> h target;
          h \<leftarrow> set_n h (Some node) (node_n t);
          t \<leftarrow> h target;
          (l, h) \<leftarrow> (if node_n t \<noteq> None
                    then do { h \<leftarrow> set_p h (node_n t) (Some node); Some (l, h) }
                    else Some (l\<lparr>ll_last := Some node\<rparr>, h));
          h \<leftarrow> set_n h (Some target) (Some node);
          Some (l, h) }"

definition LinkedList1_Remove :: "LinkedList1 \<Rightarrow> heap \<Rightarrow> nat \<Rightarrow> (LinkedList1 \<times> heap) option" where
  "LinkedList1_Remove l h node =
     do { nd \<leftarrow> h node;
          (l, h) \<leftarrow> (if node_p nd \<noteq> None
                    then do { h \<leftarrow> set_n h (node_p nd) (node_n nd); Some (l, h) }
                    else Some (l\<lparr>ll_first := node_n nd\<rparr>, h));
          nd \<leftarrow> h node;
          if node_n nd \<noteq> None
          then do { h \<leftarrow> set_p h (node_n nd) (node_p nd); Some (l, h) }
          else Some (l\<lparr>ll_last := node_p nd\<rparr>, h) }"




section \<open>SLinkedList\<close>

text \<open>
  The template \<open>SLinkedList\<close>: \<open>flast\<close> is \<open>SLINKEDLIST_PARAM_FEATURE_LAST\<close>. The \<open>prev\<close> pointer of
  the first entry is never written and never read.
\<close>

record SLinkedList =
  sl_first :: ptr
  sl_last :: ptr

definition SLinkedListMarkRemoved :: "heap \<Rightarrow> nat \<Rightarrow> heap option" where
  "SLinkedListMarkRemoved h entry = set_n h (Some entry) (Some entry)"

definition SLinkedListIsRemoved :: "heap \<Rightarrow> nat \<Rightarrow> bool option" where
  "SLinkedListIsRemoved h entry = do { nd \<leftarrow> h entry; Some (node_n nd = Some entry) }"

definition SLinkedList_Init :: "SLinkedList \<Rightarrow> SLinkedList" where
  "SLinkedList_Init l = l\<lparr>sl_first := None\<rparr>"

definition SLinkedList_Next :: "heap \<Rightarrow> nat \<Rightarrow> ptr option" where
  "SLinkedList_Next h entry = map_option node_n (h entry)"

definition SLinkedList_Prev :: "SLinkedList \<Rightarrow> heap \<Rightarrow> nat \<Rightarrow> ptr option" where
  "SLinkedList_Prev l h entry =
     (if Some entry = sl_first l then Some None else map_option node_p (h entry))"

definition SLinkedList_Prepend :: "bool \<Rightarrow> SLinkedList \<Rightarrow> heap \<Rightarrow> nat \<Rightarrow> (SLinkedList \<times> heap) option" where
  "SLinkedList_Prepend flast l h entry =
     do { h \<leftarrow> set_n h (Some entry) (sl_first l);
          (l, h) \<leftarrow> (if sl_first l \<noteq> None
                    then do { h \<leftarrow> set_p h (sl_first l) (Some entry); Some (l, h) }
                    else Some (if flast then l\<lparr>sl_last := Some entry\<rparr> else l, h));
          Some (l\<lparr>sl_first := Some entry\<rparr>, h) }"

definition SLinkedList_Append :: "SLinkedList \<Rightarrow> heap \<Rightarrow> nat \<Rightarrow> (SLinkedList \<times> heap) option" where
  \<comment> \<open>exists only with \<open>SLINKEDLIST_PARAM_FEATURE_LAST\<close>\<close>
  "SLinkedList_Append l h entry =
     do { h \<leftarrow> set_n h (Some entry) None;
          (l, h) \<leftarrow> (if sl_first l \<noteq> None
                    then do { h \<leftarrow> set_p h (Some entry) (sl_last l);
                              h \<leftarrow> set_n h (sl_last l) (Some entry); Some (l, h) }
                    else Some (l\<lparr>sl_first := Some entry\<rparr>, h));
          Some (l\<lparr>sl_last := Some entry\<rparr>, h) }"

definition SLinkedList_InsertBefore :: "SLinkedList \<Rightarrow> heap \<Rightarrow> nat \<Rightarrow> nat \<Rightarrow> (SLinkedList \<times> heap) option" where
  "SLinkedList_InsertBefore l h entry before_entry =
     do { h \<leftarrow> set_n h (Some entry) (Some before_entry);
          (l, h) \<leftarrow> (if Some before_entry \<noteq> sl_first l
                    then do { b \<leftarrow> h before_entry;
                              h \<leftarrow> set_p h (Some entry) (node_p b);
                              b \<leftarrow> h before_entry;
                              h \<leftarrow> set_n h (node_p b) (Some entry); Some (l, h) }
                    else Some (l\<lparr>sl_first := Some entry\<rparr>, h));
          h \<leftarrow> set_p h (Some before_entry) (Some entry);
          Some (l, h) }"

definition SLinkedList_InsertAfter :: "bool \<Rightarrow> SLinkedList \<Rightarrow> heap \<Rightarrow> nat \<Rightarrow> nat \<Rightarrow> (SLinkedList \<times> heap) option" where
  "SLinkedList_InsertAfter flast l h entry after_entry =
     do { a \<leftarrow> h after_entry;
          h \<leftarrow> set_n h (Some entry) (node_n a);
          h \<leftarrow> set_p h (Some entry) (Some after_entry);
          a \<leftarrow> h after_entry;
          (l, h) \<leftarrow> (if node_n a \<noteq> None
                    then do { h \<leftarrow> set_p h (node_n a) (Some entry); Some (l, h) }
                    else Some (if flast then l\<lparr>sl_last := Some entry\<rparr> else l, h));
          h \<leftarrow> set_n h (Some after_entry) (Some entry);
          Some (l, h) }"

definition SLinkedList_Remove :: "bool \<Rightarrow> SLinkedList \<Rightarrow> heap \<Rightarrow> nat \<Rightarrow> (SLinkedList \<times> heap) option" where
  "SLinkedList_Remove flast l h entry =
     do { nd \<leftarrow> h entry;
          if Some entry \<noteq> sl_first l
          then do { h \<leftarrow> set_n h (node_p nd) (node_n nd);
                    nd \<leftarrow> h entry;
                    if node_n nd \<noteq> None
                    then do { h \<leftarrow> set_p h (node_n nd) (node_p nd); Some (l, h) }
                    else Some (if flast then l\<lparr>sl_last := node_p nd\<rparr> else l, h) }
          else Some (l\<lparr>sl_first := node_n nd\<rparr>, h) }"

definition SLinkedList_RemoveFirst :: "SLinkedList \<Rightarrow> heap \<Rightarrow> SLinkedList option" where
  "SLinkedList_RemoveFirst l h =
     do { nd \<leftarrow> deref h (sl_first l); Some (l\<lparr>sl_first := node_n nd\<rparr>) }"

definition SLinkedList_RemoveLast :: "SLinkedList \<Rightarrow> heap \<Rightarrow> (SLinkedList \<times> heap) option" where
  "SLinkedList_RemoveLast l h =
     do { cassert (sl_first l \<noteq> None);
          if sl_last l = sl_first l then Some (l\<lparr>sl_first := None\<rparr>, h)
          else do { nd \<leftarrow> deref h (sl_last l);
                    h \<leftarrow> set_n h (node_p nd) None;
                    nd \<leftarrow> deref h (sl_last l);
                    Some (l\<lparr>sl_last := node_p nd\<rparr>, h) } }"

definition SLinkedList_First :: "SLinkedList \<Rightarrow> ptr" where
  "SLinkedList_First l = sl_first l"

definition SLinkedList_Last :: "SLinkedList \<Rightarrow> ptr" where
  "SLinkedList_Last l = (if sl_first l = None then None else sl_last l)"

definition SLinkedList_IsEmpty :: "SLinkedList \<Rightarrow> bool" where
  "SLinkedList_IsEmpty l \<longleftrightarrow> sl_first l = None"

section \<open>Chains of nodes\<close>

fun head_or :: "nat list \<Rightarrow> ptr \<Rightarrow> ptr" where
  "head_or [] q = q"
| "head_or (x # xs) q = Some x"

fun last_or :: "nat list \<Rightarrow> ptr \<Rightarrow> ptr" where
  "last_or [] q = q"
| "last_or (x # xs) q = last_or xs (Some x)"

fun chain :: "heap \<Rightarrow> ptr \<Rightarrow> nat list \<Rightarrow> ptr \<Rightarrow> bool" where
  \<comment> \<open>the nodes of the list are linked in both directions, entered from \<open>pr\<close> and left to \<open>nx\<close>\<close>
  "chain h pr [] nx = True"
| "chain h pr (x # xs) nx \<longleftrightarrow> h x = Some \<lparr>node_p = pr, node_n = head_or xs nx\<rparr> \<and> chain h (Some x) xs nx"

definition LinkedList1_rep :: "LinkedList1 \<Rightarrow> heap \<Rightarrow> nat list \<Rightarrow> bool" where
  "LinkedList1_rep l h xs \<longleftrightarrow>
     distinct xs \<and> ll_first l = head_or xs None \<and> ll_last l = last_or xs None \<and> chain h None xs None"

definition SLinkedList_rep :: "bool \<Rightarrow> SLinkedList \<Rightarrow> heap \<Rightarrow> nat list \<Rightarrow> bool" where
  "SLinkedList_rep flast l h xs \<longleftrightarrow>
     distinct xs \<and> sl_first l = head_or xs None \<and>
     (flast \<longrightarrow> xs \<noteq> [] \<longrightarrow> sl_last l = last_or xs None) \<and> (\<exists>pr. chain h pr xs None)"

definition same_outside :: "nat set \<Rightarrow> heap \<Rightarrow> heap \<Rightarrow> bool" where
  "same_outside A h h' \<longleftrightarrow> dom h' = dom h \<and> (\<forall>a. a \<notin> A \<longrightarrow> h' a = h a)"

lemma head_or_append [simp]: "head_or (xs @ ys) q = head_or xs (head_or ys q)"
  by (cases xs) simp_all

lemma last_or_append [simp]: "last_or (xs @ ys) q = last_or ys (last_or xs q)"
  by (induction xs arbitrary: q) simp_all

lemma head_or_eq_None [simp]: "head_or xs q = None \<longleftrightarrow> xs = [] \<and> q = None"
  by (cases xs) simp_all

lemma last_or_eq_None [simp]: "last_or xs q = None \<longleftrightarrow> xs = [] \<and> q = None"
  by (induction xs arbitrary: q) simp_all

lemma chain_append [simp]:
  "chain h pr (xs @ ys) nx \<longleftrightarrow> chain h pr xs (head_or ys nx) \<and> chain h (last_or xs pr) ys nx"
  by (induction xs arbitrary: pr) auto

lemma chain_upd [simp]: "x \<notin> set xs \<Longrightarrow> chain (h(x := v)) pr xs nx = chain h pr xs nx"
  by (induction xs arbitrary: pr) auto

lemma chain_dom: "chain h pr xs nx \<Longrightarrow> set xs \<subseteq> dom h"
  by (induction xs arbitrary: pr) auto

lemma chain_cong: "\<forall>a \<in> set xs. h' a = h a \<Longrightarrow> chain h' pr xs nx = chain h pr xs nx"
  by (induction xs arbitrary: pr) auto

lemma list_end_cases: "(xs = [] \<Longrightarrow> P) \<Longrightarrow> (\<And>ys y. xs = ys @ [y] \<Longrightarrow> P) \<Longrightarrow> P"
  by (metis rev_exhaust)

lemma list_both_ends_cases:
  "(xs = [] \<Longrightarrow> P) \<Longrightarrow> (\<And>y. xs = [y] \<Longrightarrow> P) \<Longrightarrow> (\<And>z ys y. xs = z # ys @ [y] \<Longrightarrow> P) \<Longrightarrow> P"
  by (metis append_Cons append_Nil neq_Nil_conv rev_exhaust)

lemma node_n_update_eq [simp]:
  "nd\<lparr>node_n := q\<rparr> = \<lparr>node_p = pr, node_n = r\<rparr> \<longleftrightarrow> node_p nd = pr \<and> q = r"
  by (cases nd) simp

lemmas heap_defs = deref_def set_p_def set_n_def same_outside_def

section \<open>LinkedList1 refines lists\<close>

lemma LinkedList1_Prepend_rep:
  assumes "LinkedList1_rep l h xs" "node \<in> dom h" "node \<notin> set xs"
  shows "\<exists>l' h'. LinkedList1_Prepend l h node = Some (l', h') \<and> LinkedList1_rep l' h' (node # xs) \<and>
     same_outside (insert node (set xs)) h h'"
  using assms by (cases xs) (auto simp: LinkedList1_Prepend_def LinkedList1_rep_def heap_defs)


lemma LinkedList1_InsertBefore_rep:
  assumes "LinkedList1_rep l h (xs @ t # ys)" "node \<in> dom h" "node \<notin> set (xs @ t # ys)"
  shows "\<exists>l' h'. LinkedList1_InsertBefore l h node t = Some (l', h') \<and> LinkedList1_rep l' h' (xs @ node # t # ys) \<and>
     same_outside (insert node (set (xs @ t # ys))) h h'"
  using assms by (cases rule: list_end_cases [of xs]) (auto simp: LinkedList1_InsertBefore_def LinkedList1_rep_def heap_defs)

lemma LinkedList1_InsertAfter_rep:
  assumes "LinkedList1_rep l h (xs @ t # ys)" "node \<in> dom h" "node \<notin> set (xs @ t # ys)"
  shows "\<exists>l' h'. LinkedList1_InsertAfter l h node t = Some (l', h') \<and> LinkedList1_rep l' h' (xs @ t # node # ys) \<and>
     same_outside (insert node (set (xs @ t # ys))) h h'"
  using assms by (cases ys) (auto simp: LinkedList1_InsertAfter_def LinkedList1_rep_def heap_defs)

lemma LinkedList1_Remove_rep:
  assumes "LinkedList1_rep l h (xs @ t # ys)"
  shows "\<exists>l' h'. LinkedList1_Remove l h t = Some (l', h') \<and> LinkedList1_rep l' h' (xs @ ys) \<and>
     same_outside (set (xs @ ys)) h h'"
  using assms by (cases ys; cases rule: list_end_cases [of xs]) (auto simp: LinkedList1_Remove_def LinkedList1_rep_def heap_defs)


section \<open>SLinkedList refines lists\<close>

lemma SLinkedList_Prepend_rep:
  assumes "SLinkedList_rep fl l h xs" "node \<in> dom h" "node \<notin> set xs"
  shows "\<exists>l' h'. SLinkedList_Prepend fl l h node = Some (l', h') \<and> SLinkedList_rep fl l' h' (node # xs) \<and>
     same_outside (insert node (set xs)) h h'"
  using assms by (cases xs) (auto simp: SLinkedList_Prepend_def SLinkedList_rep_def heap_defs)

lemma SLinkedList_Append_rep:
  assumes "SLinkedList_rep True l h xs" "node \<in> dom h" "node \<notin> set xs"
  shows "\<exists>l' h'. SLinkedList_Append l h node = Some (l', h') \<and> SLinkedList_rep True l' h' (xs @ [node]) \<and>
     same_outside (insert node (set xs)) h h'"
  using assms by (cases rule: list_end_cases [of xs]) (auto simp: SLinkedList_Append_def SLinkedList_rep_def heap_defs)

lemma SLinkedList_InsertBefore_rep:
  assumes "SLinkedList_rep fl l h (xs @ t # ys)" "node \<in> dom h" "node \<notin> set (xs @ t # ys)"
  shows "\<exists>l' h'. SLinkedList_InsertBefore l h node t = Some (l', h') \<and> SLinkedList_rep fl l' h' (xs @ node # t # ys) \<and>
     same_outside (insert node (set (xs @ t # ys))) h h'"
  using assms
  by (cases rule: list_both_ends_cases [of xs]) (auto simp: SLinkedList_InsertBefore_def SLinkedList_rep_def heap_defs)

lemma SLinkedList_InsertAfter_rep:
  assumes "SLinkedList_rep fl l h (xs @ t # ys)" "node \<in> dom h" "node \<notin> set (xs @ t # ys)"
  shows "\<exists>l' h'. SLinkedList_InsertAfter fl l h node t = Some (l', h') \<and> SLinkedList_rep fl l' h' (xs @ t # node # ys) \<and>
     same_outside (insert node (set (xs @ t # ys))) h h'"
  using assms by (cases ys) (auto simp: SLinkedList_InsertAfter_def SLinkedList_rep_def heap_defs)

lemma SLinkedList_Remove_rep:
  assumes "SLinkedList_rep fl l h (xs @ t # ys)"
  shows "\<exists>l' h'. SLinkedList_Remove fl l h t = Some (l', h') \<and> SLinkedList_rep fl l' h' (xs @ ys) \<and>
     same_outside (set (xs @ ys)) h h'"
  using assms
  by (cases ys; cases rule: list_both_ends_cases [of xs]) (auto simp: SLinkedList_Remove_def SLinkedList_rep_def heap_defs)

lemma SLinkedList_RemoveFirst_rep:
  assumes "SLinkedList_rep fl l h (x # xs)"
  shows "\<exists>l'. SLinkedList_RemoveFirst l h = Some l' \<and> SLinkedList_rep fl l' h xs"
  using assms by (cases xs) (auto simp: SLinkedList_RemoveFirst_def SLinkedList_rep_def heap_defs)

lemma SLinkedList_RemoveLast_rep:
  assumes "SLinkedList_rep True l h (xs @ [x])"
  shows "\<exists>l' h'. SLinkedList_RemoveLast l h = Some (l', h') \<and> SLinkedList_rep True l' h' xs \<and> same_outside (set xs) h h'"
  using assms
  by (cases rule: list_both_ends_cases [of xs]) (auto simp: SLinkedList_RemoveLast_def SLinkedList_rep_def heap_defs)

lemma SLinkedList_IsRemoved_member:
  assumes "SLinkedList_rep fl l h xs" "x \<in> set xs"
  shows "SLinkedListIsRemoved h x = Some False"
proof -
  obtain ys zs where "xs = ys @ x # zs" using split_list [OF assms(2)] by blast
  then show ?thesis using assms(1)
    by (cases zs) (auto simp: SLinkedListIsRemoved_def SLinkedList_rep_def)
qed

lemma SLinkedList_rep_outside:
  assumes "SLinkedList_rep fl l h xs" "\<forall>a \<in> set xs. h' a = h a"
  shows "SLinkedList_rep fl l h' xs"
  using assms chain_cong [of xs h' h] by (auto simp: SLinkedList_rep_def)

section \<open>Histories of operations\<close>

datatype list_op = Prepend nat | Insert_before nat nat | Insert_after nat nat | Unlink nat

fun list_op_abs :: "list_op \<Rightarrow> nat list \<Rightarrow> nat list" where
  "list_op_abs (Prepend x) xs = x # xs"
| "list_op_abs (Insert_before x t) xs = takeWhile (\<lambda>y. y \<noteq> t) xs @ x # dropWhile (\<lambda>y. y \<noteq> t) xs"
| "list_op_abs (Insert_after x t) xs = takeWhile (\<lambda>y. y \<noteq> t) xs @ t # x # tl (dropWhile (\<lambda>y. y \<noteq> t) xs)"
| "list_op_abs (Unlink x) xs = remove1 x xs"

fun list_op_legal :: "nat set \<Rightarrow> list_op \<Rightarrow> nat list \<Rightarrow> bool" where
  "list_op_legal D (Prepend x) xs \<longleftrightarrow> x \<in> D \<and> x \<notin> set xs"
| "list_op_legal D (Insert_before x t) xs \<longleftrightarrow> x \<in> D \<and> x \<notin> set xs \<and> t \<in> set xs"
| "list_op_legal D (Insert_after x t) xs \<longleftrightarrow> x \<in> D \<and> x \<notin> set xs \<and> t \<in> set xs"
| "list_op_legal D (Unlink x) xs \<longleftrightarrow> x \<in> set xs"

fun list_history_legal :: "nat set \<Rightarrow> list_op list \<Rightarrow> nat list \<Rightarrow> bool" where
  "list_history_legal D [] xs = True"
| "list_history_legal D (c # cs) xs \<longleftrightarrow> list_op_legal D c xs \<and> list_history_legal D cs (list_op_abs c xs)"

fun LinkedList1_op :: "list_op \<Rightarrow> LinkedList1 \<Rightarrow> heap \<Rightarrow> (LinkedList1 \<times> heap) option" where
  "LinkedList1_op (Prepend x) l h = LinkedList1_Prepend l h x"
| "LinkedList1_op (Insert_before x t) l h = LinkedList1_InsertBefore l h x t"
| "LinkedList1_op (Insert_after x t) l h = LinkedList1_InsertAfter l h x t"
| "LinkedList1_op (Unlink x) l h = LinkedList1_Remove l h x"

fun SLinkedList_op :: "bool \<Rightarrow> list_op \<Rightarrow> SLinkedList \<Rightarrow> heap \<Rightarrow> (SLinkedList \<times> heap) option" where
  "SLinkedList_op fl (Prepend x) l h = SLinkedList_Prepend fl l h x"
| "SLinkedList_op fl (Insert_before x t) l h = SLinkedList_InsertBefore l h x t"
| "SLinkedList_op fl (Insert_after x t) l h = SLinkedList_InsertAfter fl l h x t"
| "SLinkedList_op fl (Unlink x) l h = SLinkedList_Remove fl l h x"

fun list_run :: "(list_op \<Rightarrow> 'l \<Rightarrow> heap \<Rightarrow> ('l \<times> heap) option) \<Rightarrow> list_op list \<Rightarrow> 'l \<Rightarrow> heap \<Rightarrow> ('l \<times> heap) option" where
  "list_run f [] l h = Some (l, h)"
| "list_run f (c # cs) l h = do { (l, h) \<leftarrow> f c l h; list_run f cs l h }"

text \<open>
  The contract both implementations meet: a legal operation succeeds, has the effect of the
  list operation and keeps the set of allocated nodes.
\<close>

locale linked_list =
  fixes rep :: "'l \<Rightarrow> heap \<Rightarrow> nat list \<Rightarrow> bool"
    and step :: "list_op \<Rightarrow> 'l \<Rightarrow> heap \<Rightarrow> ('l \<times> heap) option"
  assumes op_refines: "rep l h xs \<Longrightarrow> list_op_legal (dom h) c xs \<Longrightarrow>
    \<exists>l' h'. step c l h = Some (l', h') \<and> rep l' h' (list_op_abs c xs) \<and> dom h' = dom h"
begin

lemma history_refines:
  "rep l h xs \<Longrightarrow> list_history_legal (dom h) cs xs \<Longrightarrow>
   \<exists>l' h'. list_run step cs l h = Some (l', h') \<and> rep l' h' (fold list_op_abs cs xs) \<and> dom h' = dom h"
proof (induction cs arbitrary: l h xs)
  case Nil
  then show ?case by simp
next
  case (Cons c cs)
  obtain l1 h1 where 1: "step c l h = Some (l1, h1)" "rep l1 h1 (list_op_abs c xs)" "dom h1 = dom h"
    using op_refines Cons.prems by fastforce
  show ?case using Cons.IH [OF 1(2)] Cons.prems(2) 1 by auto
qed

end

lemma takeWhile_split: "x \<notin> set xs \<Longrightarrow> takeWhile (\<lambda>y. y \<noteq> x) (xs @ x # ys) = xs"
  and dropWhile_split: "x \<notin> set xs \<Longrightarrow> dropWhile (\<lambda>y. y \<noteq> x) (xs @ x # ys) = x # ys"
  by (induction xs) auto

lemma member_split:
  assumes "distinct xs" "x \<in> set xs"
  obtains ys zs where "xs = ys @ x # zs" "x \<notin> set ys"
    "takeWhile (\<lambda>y. y \<noteq> x) xs = ys" "dropWhile (\<lambda>y. y \<noteq> x) xs = x # zs" "remove1 x xs = ys @ zs"
proof -
  obtain ys zs where *: "xs = ys @ x # zs" "x \<notin> set ys" using split_list_first [OF assms(2)] by blast
  show thesis
    by (rule that [of ys zs]) (use * in \<open>simp_all add: takeWhile_split dropWhile_split remove1_append\<close>)
qed

lemma list_op_cases:
  assumes "list_op_legal D c xs" "distinct xs"
  obtains (prepend) x where "c = Prepend x" "x \<in> D" "x \<notin> set xs" "list_op_abs c xs = x # xs"
  | (before) x t ys zs where "c = Insert_before x t" "x \<in> D" "xs = ys @ t # zs" "x \<notin> set (ys @ t # zs)"
      "list_op_abs c xs = ys @ x # t # zs"
  | (after) x t ys zs where "c = Insert_after x t" "x \<in> D" "xs = ys @ t # zs" "x \<notin> set (ys @ t # zs)"
      "list_op_abs c xs = ys @ t # x # zs"
  | (unlink) x ys zs where "c = Unlink x" "xs = ys @ x # zs" "list_op_abs c xs = ys @ zs"
proof (cases c)
  case (Prepend x)
  then show thesis using assms prepend by simp
next
  case (Insert_before x t)
  with assms have "t \<in> set xs" by simp
  then obtain ys zs where "xs = ys @ t # zs" "takeWhile (\<lambda>y. y \<noteq> t) xs = ys" "dropWhile (\<lambda>y. y \<noteq> t) xs = t # zs"
    using member_split [OF assms(2)] by metis
  then show thesis using Insert_before assms before by simp
next
  case (Insert_after x t)
  with assms have "t \<in> set xs" by simp
  then obtain ys zs where "xs = ys @ t # zs" "takeWhile (\<lambda>y. y \<noteq> t) xs = ys" "dropWhile (\<lambda>y. y \<noteq> t) xs = t # zs"
    using member_split [OF assms(2)] by metis
  then show thesis using Insert_after assms after by simp
next
  case (Unlink x)
  with assms have "x \<in> set xs" by simp
  then obtain ys zs where "xs = ys @ x # zs" "remove1 x xs = ys @ zs" using member_split [OF assms(2)] by metis
  then show thesis using Unlink unlink by simp
qed

interpretation ll1: linked_list LinkedList1_rep LinkedList1_op
proof
  fix l h xs c
  assume rep: "LinkedList1_rep l h xs" and legal: "list_op_legal (dom h) c xs"
  have "distinct xs" using rep by (simp add: LinkedList1_rep_def)
  with legal show "\<exists>l' h'. LinkedList1_op c l h = Some (l', h') \<and> LinkedList1_rep l' h' (list_op_abs c xs) \<and> dom h' = dom h"
  proof (cases rule: list_op_cases)
    case (prepend x)
    then show ?thesis using rep LinkedList1_Prepend_rep [of l h xs x] by (auto simp: same_outside_def)
  next
    case (before x t ys zs)
    then show ?thesis using rep LinkedList1_InsertBefore_rep [of l h ys t zs x] by (auto simp: same_outside_def)
  next
    case (after x t ys zs)
    then show ?thesis using rep LinkedList1_InsertAfter_rep [of l h ys t zs x] by (auto simp: same_outside_def)
  next
    case (unlink x ys zs)
    then show ?thesis using rep LinkedList1_Remove_rep [of l h ys x zs] by (auto simp: same_outside_def)
  qed
qed

interpretation sll: linked_list "SLinkedList_rep fl" "SLinkedList_op fl" for fl
proof
  fix l h xs c
  assume rep: "SLinkedList_rep fl l h xs" and legal: "list_op_legal (dom h) c xs"
  have "distinct xs" using rep by (simp add: SLinkedList_rep_def)
  with legal show "\<exists>l' h'. SLinkedList_op fl c l h = Some (l', h') \<and> SLinkedList_rep fl l' h' (list_op_abs c xs) \<and> dom h' = dom h"
  proof (cases rule: list_op_cases)
    case (prepend x)
    then show ?thesis using rep SLinkedList_Prepend_rep [of fl l h xs x] by (auto simp: same_outside_def)
  next
    case (before x t ys zs)
    then show ?thesis using rep SLinkedList_InsertBefore_rep [of fl l h ys t zs x] by (auto simp: same_outside_def)
  next
    case (after x t ys zs)
    then show ?thesis using rep SLinkedList_InsertAfter_rep [of fl l h ys t zs x] by (auto simp: same_outside_def)
  next
    case (unlink x ys zs)
    then show ?thesis using rep SLinkedList_Remove_rep [of fl l h ys x zs] by (auto simp: same_outside_def)
  qed
qed



text \<open>
  The two list implementations agree: from empty lists, every legal history of insertions and removals
  runs on both without following a bad pointer, with or without the \<open>last\<close> pointer of \<open>SLinkedList\<close>, and
  both end up representing the list the history means.
\<close>

lemma linked_lists_agree:
  assumes "list_history_legal (dom h) cs []"
  shows "\<exists>l h1 s h2. list_run LinkedList1_op cs LinkedList1_Init h = Some (l, h1) \<and>
     list_run (SLinkedList_op fl) cs (SLinkedList_Init s0) h = Some (s, h2) \<and>
     LinkedList1_rep l h1 (fold list_op_abs cs []) \<and> SLinkedList_rep fl s h2 (fold list_op_abs cs [])"
proof -
  have "LinkedList1_rep LinkedList1_Init h []" "SLinkedList_rep fl (SLinkedList_Init s0) h []"
    by (simp_all add: LinkedList1_rep_def LinkedList1_Init_def SLinkedList_rep_def SLinkedList_Init_def)
  then show ?thesis using ll1.history_refines sll.history_refines assms by meson
qed

lemma linked_lists_agree_witness:
  "\<exists>l h1 s h2. list_run LinkedList1_op [Prepend 1, Insert_after 2 1, Insert_before 3 2, Unlink 1] LinkedList1_Init
        (\<lambda>a. Some \<lparr>node_p = None, node_n = None\<rparr>) = Some (l, h1) \<and>
     list_run (SLinkedList_op False) [Prepend 1, Insert_after 2 1, Insert_before 3 2, Unlink 1]
        (SLinkedList_Init \<lparr>sl_first = None, sl_last = None\<rparr>) (\<lambda>a. Some \<lparr>node_p = None, node_n = None\<rparr>) = Some (s, h2) \<and>
     LinkedList1_rep l h1 [3, 2] \<and> SLinkedList_rep False s h2 [3, 2]"
  using linked_lists_agree [of "\<lambda>a. Some \<lparr>node_p = None, node_n = None\<rparr>" "[Prepend 1, Insert_after 2 1, Insert_before 3 2, Unlink 1]"
     False "\<lparr>sl_first = None, sl_last = None\<rparr>"]
  by (simp add: dom_def)

end
