(* ===== verification/Job_Queue.thy ===== *)
theory Job_Queue
  imports Linked_List
begin

text \<open>
  The job queue of the event loop (\<open>base/BPending.c\<close>, with the counter of
  \<open>misc/debugcounter.h\<close>). A job object is an address; its list node lives in the heap of
  \<open>Linked_List\<close>, its other fields in \<open>jg_objs\<close>, whose domain is the set of objects that
  are initialised and not freed (what \<open>DebugObject_Access\<close> checks). The queue is the
  \<open>SLinkedList\<close> without a \<open>last\<close> pointer. \<open>'h\<close> stands for a handler together with its argument.
\<close>

section \<open>Leak counters\<close>

definition DebugCounter_Init :: int where
  "DebugCounter_Init = 0"

definition DebugCounter_Free :: "int \<Rightarrow> unit option" where
  "DebugCounter_Free c = cassert (c = 0 \<or> c = INT_MAX)"

definition DebugCounter_Increment :: "int \<Rightarrow> int option" where
  "DebugCounter_Increment c = do { cassert (c \<ge> 0); Some (if c \<noteq> INT_MAX then c + 1 else c) }"

definition DebugCounter_Decrement :: "int \<Rightarrow> int option" where
  "DebugCounter_Decrement c = do { cassert (c > 0); Some (if c \<noteq> INT_MAX then c - 1 else c) }"

section \<open>Job objects and groups\<close>

record 'h BSmallPending =
  bp_handler :: 'h
  bp_pending :: bool

record 'h BPendingGroup =
  jg_jobs :: SLinkedList
  jg_pending_ctr :: int
  jg_valid :: bool
  jg_nodes :: heap
  jg_objs :: "nat \<rightharpoonup> 'h BSmallPending"

definition BPendingGroup_Init :: "'h BPendingGroup \<Rightarrow> 'h BPendingGroup" where
  "BPendingGroup_Init g =
     g\<lparr>jg_jobs := SLinkedList_Init (jg_jobs g), jg_pending_ctr := DebugCounter_Init, jg_valid := True\<rparr>"

definition BPendingGroup_Free :: "'h BPendingGroup \<Rightarrow> 'h BPendingGroup option" where
  "BPendingGroup_Free g =
     do { DebugCounter_Free (jg_pending_ctr g);
          cassert (SLinkedList_IsEmpty (jg_jobs g));
          cassert (jg_valid g);
          Some (g\<lparr>jg_valid := False\<rparr>) }"

definition BPendingGroup_HasJobs :: "'h BPendingGroup \<Rightarrow> bool option" where
  "BPendingGroup_HasJobs g = do { cassert (jg_valid g); Some (\<not> SLinkedList_IsEmpty (jg_jobs g)) }"

definition BPendingGroup_ExecuteJob :: "'h BPendingGroup \<Rightarrow> ('h \<times> 'h BPendingGroup) option" where
  \<comment> \<open>the handler the code calls last, and the group it is called in\<close>
  "BPendingGroup_ExecuteJob g =
     do { cassert (\<not> SLinkedList_IsEmpty (jg_jobs g));
          cassert (jg_valid g);
          p \<leftarrow> SLinkedList_First (jg_jobs g);
          removed \<leftarrow> SLinkedListIsRemoved (jg_nodes g) p;
          cassert (\<not> removed);
          job \<leftarrow> jg_objs g p;
          cassert (bp_pending job);
          jobs \<leftarrow> SLinkedList_RemoveFirst (jg_jobs g) (jg_nodes g);
          nodes \<leftarrow> SLinkedListMarkRemoved (jg_nodes g) p;
          Some (bp_handler job,
                g\<lparr>jg_jobs := jobs, jg_nodes := nodes, jg_objs := (jg_objs g)(p \<mapsto> job\<lparr>bp_pending := False\<rparr>)\<rparr>) }"

definition BPendingGroup_PeekJob :: "'h BPendingGroup \<Rightarrow> ptr option" where
  "BPendingGroup_PeekJob g = do { cassert (jg_valid g); Some (SLinkedList_First (jg_jobs g)) }"

definition BSmallPending_Init :: "nat \<Rightarrow> 'h BPendingGroup \<Rightarrow> 'h \<Rightarrow> 'h BPendingGroup option" where
  "BSmallPending_Init obj g handler =
     do { nodes \<leftarrow> SLinkedListMarkRemoved (jg_nodes g) obj;
          c \<leftarrow> DebugCounter_Increment (jg_pending_ctr g);
          Some (g\<lparr>jg_nodes := nodes, jg_pending_ctr := c,
                  jg_objs := (jg_objs g)(obj \<mapsto> \<lparr>bp_handler = handler, bp_pending = False\<rparr>)\<rparr>) }"

definition check_pending :: "nat \<Rightarrow> 'h BPendingGroup \<Rightarrow> ('h BSmallPending \<times> bool) option" where
  \<comment> \<open>\<open>DebugObject_Access\<close> and the assertion that the flag agrees with the list node\<close>
  "check_pending obj g =
     do { job \<leftarrow> jg_objs g obj;
          removed \<leftarrow> SLinkedListIsRemoved (jg_nodes g) obj;
          cassert (bp_pending job = (\<not> removed));
          Some (job, removed) }"

definition BSmallPending_Free :: "nat \<Rightarrow> 'h BPendingGroup \<Rightarrow> 'h BPendingGroup option" where
  "BSmallPending_Free obj g =
     do { c \<leftarrow> DebugCounter_Decrement (jg_pending_ctr g);
          (job, removed) \<leftarrow> check_pending obj g;
          g \<leftarrow> Some (g\<lparr>jg_pending_ctr := c, jg_objs := (jg_objs g)(obj := None)\<rparr>);
          if \<not> removed
          then do { (jobs, nodes) \<leftarrow> SLinkedList_Remove False (jg_jobs g) (jg_nodes g) obj;
                    Some (g\<lparr>jg_jobs := jobs, jg_nodes := nodes\<rparr>) }
          else Some g }"

definition BSmallPending_SetHandler :: "nat \<Rightarrow> 'h BPendingGroup \<Rightarrow> 'h \<Rightarrow> 'h BPendingGroup option" where
  "BSmallPending_SetHandler obj g handler =
     do { job \<leftarrow> jg_objs g obj;
          Some (g\<lparr>jg_objs := (jg_objs g)(obj \<mapsto> job\<lparr>bp_handler := handler\<rparr>)\<rparr>) }"

definition BSmallPending_Set :: "nat \<Rightarrow> 'h BPendingGroup \<Rightarrow> 'h BPendingGroup option" where
  "BSmallPending_Set obj g =
     do { (job, removed) \<leftarrow> check_pending obj g;
          (jobs, nodes) \<leftarrow> (if \<not> removed then SLinkedList_Remove False (jg_jobs g) (jg_nodes g) obj
                           else Some (jg_jobs g, jg_nodes g));
          (jobs, nodes) \<leftarrow> SLinkedList_Prepend False jobs nodes obj;
          Some (g\<lparr>jg_jobs := jobs, jg_nodes := nodes, jg_objs := (jg_objs g)(obj \<mapsto> job\<lparr>bp_pending := True\<rparr>)\<rparr>) }"

definition BSmallPending_Unset :: "nat \<Rightarrow> 'h BPendingGroup \<Rightarrow> 'h BPendingGroup option" where
  "BSmallPending_Unset obj g =
     do { (job, removed) \<leftarrow> check_pending obj g;
          if \<not> removed
          then do { (jobs, nodes) \<leftarrow> SLinkedList_Remove False (jg_jobs g) (jg_nodes g) obj;
                    nodes \<leftarrow> SLinkedListMarkRemoved nodes obj;
                    Some (g\<lparr>jg_jobs := jobs, jg_nodes := nodes,
                            jg_objs := (jg_objs g)(obj \<mapsto> job\<lparr>bp_pending := False\<rparr>)\<rparr>) }
          else Some g }"

definition BSmallPending_IsSet :: "nat \<Rightarrow> 'h BPendingGroup \<Rightarrow> bool option" where
  "BSmallPending_IsSet obj g = do { (job, removed) \<leftarrow> check_pending obj g; Some (\<not> removed) }"

section \<open>The abstract queue\<close>

datatype 'h job_op = Job_init nat 'h | Job_free nat | Job_handler nat 'h | Job_set nat | Job_unset nat | Job_execute

record 'h job_spec =
  js_objs :: "nat \<rightharpoonup> 'h"
  js_queue :: "nat list"

fun job_step :: "'h job_op \<Rightarrow> 'h BPendingGroup \<Rightarrow> ('h list \<times> 'h BPendingGroup) option" where
  "job_step (Job_init obj f) g = map_option (Pair []) (BSmallPending_Init obj g f)"
| "job_step (Job_free obj) g = map_option (Pair []) (BSmallPending_Free obj g)"
| "job_step (Job_handler obj f) g = map_option (Pair []) (BSmallPending_SetHandler obj g f)"
| "job_step (Job_set obj) g = map_option (Pair []) (BSmallPending_Set obj g)"
| "job_step (Job_unset obj) g = map_option (Pair []) (BSmallPending_Unset obj g)"
| "job_step Job_execute g = map_option (\<lambda>(f, g). ([f], g)) (BPendingGroup_ExecuteJob g)"

fun job_run :: "'h job_op list \<Rightarrow> 'h BPendingGroup \<Rightarrow> ('h list \<times> 'h BPendingGroup) option" where
  "job_run [] g = Some ([], g)"
| "job_run (c # cs) g = do { (fs, g) \<leftarrow> job_step c g; (fs', g) \<leftarrow> job_run cs g; Some (fs @ fs', g) }"

fun spec_step :: "'h job_op \<Rightarrow> 'h job_spec \<Rightarrow> 'h list \<times> 'h job_spec" where
  "spec_step (Job_init obj f) s = ([], s\<lparr>js_objs := (js_objs s)(obj \<mapsto> f)\<rparr>)"
| "spec_step (Job_free obj) s = ([], s\<lparr>js_objs := (js_objs s)(obj := None), js_queue := remove1 obj (js_queue s)\<rparr>)"
| "spec_step (Job_handler obj f) s = ([], s\<lparr>js_objs := (js_objs s)(obj \<mapsto> f)\<rparr>)"
| "spec_step (Job_set obj) s = ([], s\<lparr>js_queue := obj # remove1 obj (js_queue s)\<rparr>)"
| "spec_step (Job_unset obj) s = ([], s\<lparr>js_queue := remove1 obj (js_queue s)\<rparr>)"
| "spec_step Job_execute s = ([the (js_objs s (hd (js_queue s)))], s\<lparr>js_queue := tl (js_queue s)\<rparr>)"

fun spec_run :: "'h job_op list \<Rightarrow> 'h job_spec \<Rightarrow> 'h list \<times> 'h job_spec" where
  "spec_run [] s = ([], s)"
| "spec_run (c # cs) s = (let (fs, s) = spec_step c s; (fs', s) = spec_run cs s in (fs @ fs', s))"

fun job_legal :: "nat set \<Rightarrow> 'h job_op \<Rightarrow> 'h job_spec \<Rightarrow> bool" where
  \<comment> \<open>the documented preconditions: memory for a new object, an initialised object, a non-empty queue\<close>
  "job_legal D (Job_init obj f) s \<longleftrightarrow> obj \<in> D \<and> obj \<notin> dom (js_objs s)"
| "job_legal D (Job_free obj) s \<longleftrightarrow> obj \<in> dom (js_objs s)"
| "job_legal D (Job_handler obj f) s \<longleftrightarrow> obj \<in> dom (js_objs s)"
| "job_legal D (Job_set obj) s \<longleftrightarrow> obj \<in> dom (js_objs s)"
| "job_legal D (Job_unset obj) s \<longleftrightarrow> obj \<in> dom (js_objs s)"
| "job_legal D Job_execute s \<longleftrightarrow> js_queue s \<noteq> []"

fun job_history_legal :: "nat set \<Rightarrow> 'h job_op list \<Rightarrow> 'h job_spec \<Rightarrow> bool" where
  "job_history_legal D [] s = True"
| "job_history_legal D (c # cs) s \<longleftrightarrow> job_legal D c s \<and> job_history_legal D cs (snd (spec_step c s))"

definition job_rel :: "'h BPendingGroup \<Rightarrow> 'h job_spec \<Rightarrow> bool" where
  "job_rel g s \<longleftrightarrow>
     jg_valid g \<and> SLinkedList_rep False (jg_jobs g) (jg_nodes g) (js_queue s) \<and>
     set (js_queue s) \<subseteq> dom (js_objs s) \<and> finite (dom (js_objs s)) \<and> dom (js_objs s) \<subseteq> dom (jg_nodes g) \<and>
     (\<forall>obj f. js_objs s obj = Some f \<longrightarrow> jg_objs g obj = Some \<lparr>bp_handler = f, bp_pending = (obj \<in> set (js_queue s))\<rparr>) \<and>
     (\<forall>obj. obj \<in> dom (js_objs s) - set (js_queue s) \<longrightarrow> SLinkedListIsRemoved (jg_nodes g) obj = Some True) \<and>
     jg_pending_ctr g \<ge> 0 \<and> (jg_pending_ctr g \<noteq> INT_MAX \<longrightarrow> jg_pending_ctr g = int (card (dom (js_objs s))))"

lemmas job_defs = BSmallPending_Init_def BSmallPending_Free_def BSmallPending_SetHandler_def BSmallPending_Set_def
  BSmallPending_Unset_def BSmallPending_IsSet_def check_pending_def BPendingGroup_ExecuteJob_def
  DebugCounter_Increment_def DebugCounter_Decrement_def

section \<open>The queue refines its abstraction\<close>

lemma SLinkedList_Remove_member:
  assumes "SLinkedList_rep fl l h xs" "x \<in> set xs"
  obtains l' h' where "SLinkedList_Remove fl l h x = Some (l', h')" "SLinkedList_rep fl l' h' (remove1 x xs)"
    "dom h' = dom h" "\<And>a. a \<notin> set xs \<or> a = x \<Longrightarrow> h' a = h a"
proof -
  have d: "distinct xs" using assms(1) by (simp add: SLinkedList_rep_def)
  obtain ys zs where *: "xs = ys @ x # zs" "remove1 x xs = ys @ zs" using member_split [OF d assms(2)] by metis
  then show thesis using SLinkedList_Remove_rep [of fl l h ys x zs] assms(1) d that
    unfolding same_outside_def by fastforce
qed

lemma check_pending_rel:
  assumes "job_rel g s" "js_objs s obj = Some f"
  shows "check_pending obj g = Some (\<lparr>bp_handler = f, bp_pending = (obj \<in> set (js_queue s))\<rparr>, obj \<notin> set (js_queue s))"
proof (cases "obj \<in> set (js_queue s)")
  case True
  then show ?thesis using assms SLinkedList_IsRemoved_member [of False "jg_jobs g" "jg_nodes g" "js_queue s" obj]
    by (auto simp: job_rel_def check_pending_def)
next
  case False
  then show ?thesis using assms by (auto simp: job_rel_def check_pending_def)
qed

lemma MarkRemoved_eq:
  "x \<in> dom h \<Longrightarrow> SLinkedListMarkRemoved h x = Some (h(x \<mapsto> (the (h x))\<lparr>node_n := Some x\<rparr>))"
  by (auto simp: SLinkedListMarkRemoved_def set_n_def)

lemma queue_distinct: "job_rel g s \<Longrightarrow> distinct (js_queue s)"
  by (simp add: job_rel_def SLinkedList_rep_def)

lemma Init_rel:
  assumes "job_rel g s" "obj \<in> dom (jg_nodes g)" "obj \<notin> dom (js_objs s)"
  shows "\<exists>g'. BSmallPending_Init obj g f = Some g' \<and> job_rel g' (s\<lparr>js_objs := (js_objs s)(obj \<mapsto> f)\<rparr>) \<and> dom (jg_nodes g') = dom (jg_nodes g)"
proof -
  have "obj \<notin> set (js_queue s)" using assms(1,3) by (auto simp: job_rel_def)
  moreover from this have "SLinkedList_rep False (jg_jobs g) ((jg_nodes g)(obj \<mapsto> nd)) (js_queue s)" for nd
    using assms(1) SLinkedList_rep_outside unfolding job_rel_def by (metis (no_types, lifting) fun_upd_other)
  ultimately show ?thesis using assms
    by (auto simp: job_rel_def job_defs MarkRemoved_eq SLinkedListIsRemoved_def)
qed

lemma Remove_if_pending:
  assumes "job_rel g s"
  obtains jobs nodes where "(if obj \<in> set (js_queue s) then SLinkedList_Remove False (jg_jobs g) (jg_nodes g) obj
        else Some (jg_jobs g, jg_nodes g)) = Some (jobs, nodes)"
      "SLinkedList_rep False jobs nodes (remove1 obj (js_queue s))" "dom nodes = dom (jg_nodes g)"
      "\<forall>a. a \<notin> set (js_queue s) \<or> a = obj \<longrightarrow> nodes a = jg_nodes g a"
  using assms SLinkedList_Remove_member [of False "jg_jobs g" "jg_nodes g" "js_queue s" obj]
  unfolding job_rel_def by (cases "obj \<in> set (js_queue s)") (auto simp: remove1_idem)

lemma Free_rel:
  assumes "job_rel g s" "js_objs s obj = Some f"
  shows "\<exists>g'. BSmallPending_Free obj g = Some g' \<and> dom (jg_nodes g') = dom (jg_nodes g) \<and>
     job_rel g' (s\<lparr>js_objs := (js_objs s)(obj := None), js_queue := remove1 obj (js_queue s)\<rparr>)"
proof -
  have d: "distinct (js_queue s)" by (rule queue_distinct [OF assms(1)])
  have "jg_pending_ctr g > 0" using assms by (auto simp: job_rel_def card_gt_0_iff)
  then obtain c where c: "DebugCounter_Decrement (jg_pending_ctr g) = Some c" "c \<ge> 0"
      "c \<noteq> INT_MAX \<longrightarrow> c = int (card (dom (js_objs s) - {obj}))"
    using assms by (auto simp: job_rel_def DebugCounter_Decrement_def card_Diff_singleton dom_def)
  obtain jobs nodes where 1: "(if obj \<in> set (js_queue s) then SLinkedList_Remove False (jg_jobs g) (jg_nodes g) obj
        else Some (jg_jobs g, jg_nodes g)) = Some (jobs, nodes)"
      "SLinkedList_rep False jobs nodes (remove1 obj (js_queue s))" "dom nodes = dom (jg_nodes g)"
      "\<forall>a. a \<notin> set (js_queue s) \<or> a = obj \<longrightarrow> nodes a = jg_nodes g a"
    by (rule Remove_if_pending [OF assms(1), of obj])
  let ?g = "g\<lparr>jg_pending_ctr := c, jg_objs := (jg_objs g)(obj := None), jg_jobs := jobs, jg_nodes := nodes\<rparr>"
  have "BSmallPending_Free obj g = Some ?g"
    using 1(1) c(1) by (auto simp: BSmallPending_Free_def check_pending_rel [OF assms] split: if_splits)
  moreover have "job_rel ?g (s\<lparr>js_objs := (js_objs s)(obj := None), js_queue := remove1 obj (js_queue s)\<rparr>)"
    using assms 1(2-4) d c(2,3) by (simp add: job_rel_def SLinkedListIsRemoved_def) blast
  ultimately show ?thesis using 1(3) by simp
qed

lemma SetHandler_rel:
  assumes "job_rel g s" "js_objs s obj = Some f0"
  shows "\<exists>g'. BSmallPending_SetHandler obj g f = Some g' \<and> dom (jg_nodes g') = dom (jg_nodes g) \<and>
     job_rel g' (s\<lparr>js_objs := (js_objs s)(obj \<mapsto> f)\<rparr>)"
proof -
  have "insert obj (dom (js_objs s)) = dom (js_objs s)" using assms(2) by auto
  then show ?thesis using assms by (auto simp: BSmallPending_SetHandler_def job_rel_def)
qed

lemma Set_rel:
  assumes "job_rel g s" "js_objs s obj = Some f"
  shows "\<exists>g'. BSmallPending_Set obj g = Some g' \<and> dom (jg_nodes g') = dom (jg_nodes g) \<and>
     job_rel g' (s\<lparr>js_queue := obj # remove1 obj (js_queue s)\<rparr>)"
proof -
  have d: "distinct (js_queue s)" by (rule queue_distinct [OF assms(1)])
  obtain jobs nodes where 1: "(if obj \<in> set (js_queue s) then SLinkedList_Remove False (jg_jobs g) (jg_nodes g) obj
        else Some (jg_jobs g, jg_nodes g)) = Some (jobs, nodes)"
      "SLinkedList_rep False jobs nodes (remove1 obj (js_queue s))" "dom nodes = dom (jg_nodes g)"
      "\<forall>a. a \<notin> set (js_queue s) \<or> a = obj \<longrightarrow> nodes a = jg_nodes g a"
    by (rule Remove_if_pending [OF assms(1), of obj])
  have "obj \<in> dom nodes" using assms 1(3) by (auto simp: job_rel_def)
  then obtain jobs' nodes' where 2: "SLinkedList_Prepend False jobs nodes obj = Some (jobs', nodes')"
      "SLinkedList_rep False jobs' nodes' (obj # remove1 obj (js_queue s))"
      "same_outside (insert obj (set (remove1 obj (js_queue s)))) nodes nodes'"
    using SLinkedList_Prepend_rep [OF 1(2), of obj] d by auto
  let ?g = "g\<lparr>jg_jobs := jobs', jg_nodes := nodes', jg_objs := (jg_objs g)(obj \<mapsto> \<lparr>bp_handler = f, bp_pending = True\<rparr>)\<rparr>"
  have "BSmallPending_Set obj g = Some ?g"
    using 1(1) 2(1) by (simp add: BSmallPending_Set_def check_pending_rel [OF assms])
  moreover have dom: "dom nodes' = dom (jg_nodes g)" using 1(3) 2(3) by (simp add: same_outside_def)
  moreover have "job_rel ?g (s\<lparr>js_queue := obj # remove1 obj (js_queue s)\<rparr>)"
    using assms 1(4) 2(2,3) d dom by (simp add: job_rel_def SLinkedListIsRemoved_def same_outside_def domI)
  ultimately show ?thesis by simp
qed

lemma Unset_rel:
  assumes "job_rel g s" "js_objs s obj = Some f"
  shows "\<exists>g'. BSmallPending_Unset obj g = Some g' \<and> dom (jg_nodes g') = dom (jg_nodes g) \<and>
     job_rel g' (s\<lparr>js_queue := remove1 obj (js_queue s)\<rparr>)"
proof (cases "obj \<in> set (js_queue s)")
  case True
  have d: "distinct (js_queue s)" by (rule queue_distinct [OF assms(1)])
  obtain jobs nodes where 1: "SLinkedList_Remove False (jg_jobs g) (jg_nodes g) obj = Some (jobs, nodes)"
      "SLinkedList_rep False jobs nodes (remove1 obj (js_queue s))" "dom nodes = dom (jg_nodes g)"
      "\<forall>a. a \<notin> set (js_queue s) \<or> a = obj \<longrightarrow> nodes a = jg_nodes g a"
    using assms(1) SLinkedList_Remove_member True unfolding job_rel_def by metis
  have "SLinkedList_rep False jobs (nodes(obj \<mapsto> nd)) (remove1 obj (js_queue s))" for nd
    by (rule SLinkedList_rep_outside [OF 1(2)]) (use d in auto)
  moreover have obj: "obj \<in> dom nodes" using assms 1(3) by (auto simp: job_rel_def)
  moreover have "BSmallPending_Unset obj g = Some (g\<lparr>jg_jobs := jobs,
      jg_nodes := nodes(obj \<mapsto> (the (nodes obj))\<lparr>node_n := Some obj\<rparr>), jg_objs := (jg_objs g)(obj \<mapsto> \<lparr>bp_handler = f, bp_pending = False\<rparr>)\<rparr>)"
    using 1(1) True obj by (simp add: BSmallPending_Unset_def check_pending_rel [OF assms] MarkRemoved_eq)
  ultimately show ?thesis using assms 1(3,4) d
    by (simp add: job_rel_def SLinkedListIsRemoved_def insert_absorb) auto
next
  case False
  then show ?thesis using assms by (simp add: BSmallPending_Unset_def check_pending_rel remove1_idem)
qed

lemma Execute_rel:
  assumes "job_rel g s" "js_queue s \<noteq> []"
  shows "\<exists>g'. BPendingGroup_ExecuteJob g = Some (the (js_objs s (hd (js_queue s))), g') \<and>
     dom (jg_nodes g') = dom (jg_nodes g) \<and> job_rel g' (s\<lparr>js_queue := tl (js_queue s)\<rparr>)"
proof -
  obtain p q where q: "js_queue s = p # q" using assms(2) by (cases "js_queue s") auto
  have rep: "SLinkedList_rep False (jg_jobs g) (jg_nodes g) (p # q)" using assms(1) q by (simp add: job_rel_def)
  then obtain jobs where 1: "SLinkedList_RemoveFirst (jg_jobs g) (jg_nodes g) = Some jobs" "SLinkedList_rep False jobs (jg_nodes g) q"
    using SLinkedList_RemoveFirst_rep by blast
  have d: "p \<notin> set q" "distinct q" using rep by (simp_all add: SLinkedList_rep_def)
  have "SLinkedList_rep False jobs ((jg_nodes g)(p \<mapsto> nd)) q" for nd
    by (rule SLinkedList_rep_outside [OF 1(2)]) (use d in auto)
  moreover obtain f where "js_objs s p = Some f" using assms(1) q by (auto simp: job_rel_def)
  moreover have "SLinkedListIsRemoved (jg_nodes g) p = Some False" using rep by (rule SLinkedList_IsRemoved_member) simp
  moreover have "sl_first (jg_jobs g) = Some p" using rep by (simp add: SLinkedList_rep_def)
  moreover have "p \<in> dom (jg_nodes g)" using assms(1) q by (auto simp: job_rel_def)
  moreover from calculation have "BPendingGroup_ExecuteJob g = Some (f,
      g\<lparr>jg_jobs := jobs, jg_nodes := (jg_nodes g)(p \<mapsto> (the (jg_nodes g p))\<lparr>node_n := Some p\<rparr>),
        jg_objs := (jg_objs g)(p \<mapsto> \<lparr>bp_handler = f, bp_pending = False\<rparr>)\<rparr>)"
    using assms(1) q 1(1)
    by (auto simp: BPendingGroup_ExecuteJob_def SLinkedList_IsEmpty_def SLinkedList_First_def MarkRemoved_eq job_rel_def)
  ultimately show ?thesis using assms(1) q d
    by (simp add: job_rel_def SLinkedListIsRemoved_def insert_absorb)
qed

lemma job_step_refines:
  assumes "job_rel g s" "job_legal (dom (jg_nodes g)) c s"
  shows "\<exists>g'. job_step c g = Some (fst (spec_step c s), g') \<and> job_rel g' (snd (spec_step c s)) \<and> dom (jg_nodes g') = dom (jg_nodes g)"
  using assms(2)
proof (cases c)
  case (Job_init obj f)
  then show ?thesis using assms Init_rel [of g s obj f] by auto
next
  case (Job_free obj)
  then show ?thesis using assms Free_rel [of g s obj] by auto
next
  case (Job_handler obj f)
  then show ?thesis using assms SetHandler_rel [of g s obj] by fastforce
next
  case (Job_set obj)
  then show ?thesis using assms Set_rel [of g s obj] by fastforce
next
  case (Job_unset obj)
  then show ?thesis using assms Unset_rel [of g s obj] by fastforce
next
  case Job_execute
  then show ?thesis using assms Execute_rel [of g s] by auto
qed

lemma job_run_refines:
  "job_rel g s \<Longrightarrow> job_history_legal (dom (jg_nodes g)) cs s \<Longrightarrow>
   \<exists>g'. job_run cs g = Some (fst (spec_run cs s), g') \<and> job_rel g' (snd (spec_run cs s))"
proof (induction cs arbitrary: g s)
  case Nil
  then show ?case by simp
next
  case (Cons c cs)
  then obtain g1 where 1: "job_step c g = Some (fst (spec_step c s), g1)" "job_rel g1 (snd (spec_step c s))"
      "dom (jg_nodes g1) = dom (jg_nodes g)"
    using job_step_refines by fastforce
  then obtain g2 where "job_run cs g1 = Some (fst (spec_run cs (snd (spec_step c s))), g2)"
      "job_rel g2 (snd (spec_run cs (snd (spec_step c s))))"
    using Cons.IH Cons.prems(2) by fastforce
  then show ?case using 1 by (auto simp: split_beta)
qed

text \<open>
  C11. The job queue is a stack of jobs: from a fresh group, every history of operations that respects the
  documented preconditions runs without a failed assertion or a bad pointer, calls the handlers an
  abstract stack calls, in that order (a job set again moves to the front, an unset or freed job never runs),
  and leaves the group with the jobs of the abstract stack pending.
\<close>

theorem job_queue_refines:
  assumes "job_history_legal (dom (jg_nodes g)) cs \<lparr>js_objs = Map.empty, js_queue = []\<rparr>"
  shows "\<exists>g'. job_run cs (BPendingGroup_Init g) = Some (fst (spec_run cs \<lparr>js_objs = Map.empty, js_queue = []\<rparr>), g') \<and>
     BPendingGroup_HasJobs g' = Some (js_queue (snd (spec_run cs \<lparr>js_objs = Map.empty, js_queue = []\<rparr>)) \<noteq> []) \<and>
     BPendingGroup_PeekJob g' = Some (head_or (js_queue (snd (spec_run cs \<lparr>js_objs = Map.empty, js_queue = []\<rparr>))) None) \<and>
     (\<forall>obj \<in> dom (js_objs (snd (spec_run cs \<lparr>js_objs = Map.empty, js_queue = []\<rparr>))).
        BSmallPending_IsSet obj g' = Some (obj \<in> set (js_queue (snd (spec_run cs \<lparr>js_objs = Map.empty, js_queue = []\<rparr>)))))"
proof -
  let ?s = "snd (spec_run cs \<lparr>js_objs = Map.empty, js_queue = []\<rparr>)"
  have "job_rel (BPendingGroup_Init g) \<lparr>js_objs = Map.empty, js_queue = []\<rparr>"
    by (simp add: job_rel_def BPendingGroup_Init_def SLinkedList_rep_def SLinkedList_Init_def DebugCounter_Init_def)
  then obtain g' where 1: "job_run cs (BPendingGroup_Init g) = Some (fst (spec_run cs \<lparr>js_objs = Map.empty, js_queue = []\<rparr>), g')"
      "job_rel g' ?s"
    using job_run_refines [of "BPendingGroup_Init g"] assms by (auto simp: BPendingGroup_Init_def)
  then have "sl_first (jg_jobs g') = head_or (js_queue ?s) None" "jg_valid g'"
    by (simp_all add: job_rel_def SLinkedList_rep_def)
  moreover from this have "sl_first (jg_jobs g') \<noteq> None \<longleftrightarrow> js_queue ?s \<noteq> []" by simp
  moreover have "BSmallPending_IsSet obj g' = Some (obj \<in> set (js_queue ?s))" if "obj \<in> dom (js_objs ?s)" for obj
    using that check_pending_rel [OF 1(2)] by (auto simp: BSmallPending_IsSet_def)
  ultimately show ?thesis
    using 1(1)
    by (simp add: BPendingGroup_HasJobs_def BPendingGroup_PeekJob_def SLinkedList_IsEmpty_def SLinkedList_First_def del: not_None_eq)
qed

theorem job_queue_refines_witness:
  "\<exists>g'. job_run [Job_init 1 ''a'', Job_init 2 ''b'', Job_set 1, Job_set 2, Job_set 1, Job_execute]
     (BPendingGroup_Init \<lparr>jg_jobs = \<lparr>sl_first = None, sl_last = None\<rparr>, jg_pending_ctr = 7, jg_valid = False,
        jg_nodes = (\<lambda>a. Some \<lparr>node_p = None, node_n = None\<rparr>), jg_objs = Map.empty\<rparr>) = Some ([''a''], g') \<and>
     BPendingGroup_PeekJob g' = Some (Some 2)"
  using job_queue_refines [of "\<lparr>jg_jobs = \<lparr>sl_first = None, sl_last = None\<rparr>, jg_pending_ctr = 7, jg_valid = False,
        jg_nodes = (\<lambda>a. Some \<lparr>node_p = None, node_n = None\<rparr>), jg_objs = Map.empty\<rparr>"
      "[Job_init 1 ''a'', Job_init 2 ''b'', Job_set 1, Job_set 2, Job_set 1, Job_execute]"]
  by (auto simp: dom_def)

text \<open>
  Leaks are found: a group with no pending job is freed exactly if every job object was freed, unless
  the counter is saturated.
\<close>

lemma group_free_detects_leaks:
  assumes "job_history_legal (dom (jg_nodes g)) cs \<lparr>js_objs = Map.empty, js_queue = []\<rparr>"
    and "spec_run cs \<lparr>js_objs = Map.empty, js_queue = []\<rparr> = (fs, s)"
    and "job_run cs (BPendingGroup_Init g) = Some (fs', g')" and "jg_pending_ctr g' \<noteq> INT_MAX"
  shows "BPendingGroup_Free g' \<noteq> None \<longleftrightarrow> dom (js_objs s) = {}"
proof -
  have "job_rel (BPendingGroup_Init g) \<lparr>js_objs = Map.empty, js_queue = []\<rparr>"
    by (simp add: job_rel_def BPendingGroup_Init_def SLinkedList_rep_def SLinkedList_Init_def DebugCounter_Init_def)
  then have rel: "job_rel g' s"
    using job_run_refines [of "BPendingGroup_Init g" "\<lparr>js_objs = Map.empty, js_queue = []\<rparr>" cs] assms(1-3)
    by (auto simp: BPendingGroup_Init_def)
  then have "jg_pending_ctr g' = int (card (dom (js_objs s)))" "finite (dom (js_objs s))" "jg_valid g'"
      "sl_first (jg_jobs g') = head_or (js_queue s) None" "set (js_queue s) \<subseteq> dom (js_objs s)"
    using assms(4) by (simp_all add: job_rel_def SLinkedList_rep_def)
  then show ?thesis using assms(4)
    by (auto simp: BPendingGroup_Free_def DebugCounter_Free_def SLinkedList_IsEmpty_def bind_eq_None_conv)
qed

end
