(* ===== verification/Chunk_Buffer.thy ===== *)
theory Chunk_Buffer
  imports Byte_Order Size_Arith
begin

text \<open>
  The circular packet buffer (\<open>structure/ChunkBuffer2.h\<close>). The array of blocks is its bytes in memory,
  four per block; \<open>input_dest\<close> and \<open>output_dest\<close> are byte offsets into it, or \<^term>\<open>None\<close> for
  \<open>NULL\<close>. The fields are C \<open>int\<close>s written as integers; the only operation that can leave the range of
  \<open>int\<close> is the conversion of \<open>(free - 1) * sizeof(block)\<close>, which \<open>int32\<close> wraps. The assertions the code makes
  are part of the operations: a failed one is \<^term>\<open>None\<close>.
\<close>

section \<open>The buffer\<close>

definition blocks_of :: "int \<Rightarrow> int" where
  \<comment> \<open>\<open>bdivide_up(len, sizeof(struct ChunkBuffer2_block))\<close>, assigned to an \<open>int\<close>\<close>
  "blocks_of len = int32 (uint (bdivide_up (word_of_int len) 4))"

record ChunkBuffer2 =
  cb_buffer :: bytes
  cb_size :: int
  cb_wrap :: int
  cb_start :: int
  cb_used :: int
  cb_mtu :: int
  cb_input_dest :: "nat option"
  cb_input_avail :: int
  cb_output_dest :: "nat option"
  cb_output_avail :: int

definition block_len :: "endian \<Rightarrow> bytes \<Rightarrow> int \<Rightarrow> int option" where
  "block_len e buf i = do { cassert (0 \<le> i); x \<leftarrow> load32 e (drop (4 * nat i) buf); Some (sint x) }"

definition set_block_len :: "endian \<Rightarrow> bytes \<Rightarrow> int \<Rightarrow> int \<Rightarrow> bytes option" where
  "set_block_len e buf i len = do { cassert (0 \<le> i); overwrite buf (4 * nat i) (mem32 e (word_of_int len)) }"

definition ChunkBuffer2_end :: "ChunkBuffer2 \<Rightarrow> int" where
  "ChunkBuffer2_end b =
     (if cb_used b \<ge> cb_wrap b - cb_start b then cb_used b - (cb_wrap b - cb_start b)
      else cb_start b + cb_used b)"

definition ChunkBuffer2_assert_buffer :: "ChunkBuffer2 \<Rightarrow> unit option" where
  "ChunkBuffer2_assert_buffer b =
     cassert (cb_size b > 0 \<and> cb_wrap b > 0 \<and> cb_wrap b \<le> cb_size b \<and> cb_start b \<ge> 0 \<and> cb_start b < cb_wrap b \<and>
       cb_used b \<ge> 0 \<and> cb_used b \<le> cb_wrap b \<and>
       (cb_wrap b = cb_size b \<or> cb_used b \<ge> cb_wrap b - cb_start b) \<and> cb_mtu b \<ge> 0)"

definition free_blocks :: "ChunkBuffer2 \<Rightarrow> int" where
  "free_blocks b =
     (if cb_used b \<ge> cb_wrap b - cb_start b then cb_start b - ChunkBuffer2_end b
      else cb_size b - ChunkBuffer2_end b)"

definition check_output :: "endian \<Rightarrow> ChunkBuffer2 \<Rightarrow> int option" where
  \<comment> \<open>the length of the first packet, with the assertions made on it\<close>
  "check_output e b =
     do { datalen \<leftarrow> block_len e (cb_buffer b) (cb_start b);
          cassert (datalen \<ge> 0);
          cassert (blocks_of datalen \<le> cb_used b - 1);
          cassert (blocks_of datalen \<le> cb_wrap b - cb_start b - 1);
          Some datalen }"

definition ChunkBuffer2_assert_io :: "endian \<Rightarrow> ChunkBuffer2 \<Rightarrow> unit option" where
  "ChunkBuffer2_assert_io e b =
     do { (let end' = ChunkBuffer2_end b; free = free_blocks b in
           if cb_size b - end' - 1 < cb_mtu b
           then cassert (cb_input_dest b = None \<and> cb_input_avail b = -1)
           else if free > 0
           then cassert (cb_input_dest b = Some (4 * nat (end' + 1)) \<and>
                  word_of_int (cb_input_avail b) = (word_of_int ((free - 1) * 4) :: u64))
           else cassert (cb_input_dest b = None \<and> cb_input_avail b = -1));
          if cb_used b > 0
          then do { datalen \<leftarrow> check_output e b;
                    cassert (cb_output_dest b = Some (4 * nat (cb_start b + 1)) \<and> cb_output_avail b = datalen) }
          else cassert (cb_output_dest b = None \<and> cb_output_avail b = -1) }"

definition ChunkBuffer2_update_input :: "ChunkBuffer2 \<Rightarrow> ChunkBuffer2" where
  "ChunkBuffer2_update_input b =
     (let end' = ChunkBuffer2_end b; free = free_blocks b in
      if cb_size b - end' - 1 < cb_mtu b then b\<lparr>cb_input_dest := None, cb_input_avail := -1\<rparr>
      else if free > 0
      then b\<lparr>cb_input_dest := Some (4 * nat (end' + 1)), cb_input_avail := int32 ((free - 1) * 4)\<rparr>
      else b\<lparr>cb_input_dest := None, cb_input_avail := -1\<rparr>)"

definition ChunkBuffer2_update_output :: "endian \<Rightarrow> ChunkBuffer2 \<Rightarrow> ChunkBuffer2 option" where
  "ChunkBuffer2_update_output e b =
     (if cb_used b > 0
      then do { datalen \<leftarrow> check_output e b;
                Some (b\<lparr>cb_output_dest := Some (4 * nat (cb_start b + 1)), cb_output_avail := datalen\<rparr>) }
      else Some (b\<lparr>cb_output_dest := None, cb_output_avail := -1\<rparr>))"

definition ChunkBuffer2_calc_blocks :: "int \<Rightarrow> int \<Rightarrow> int" where
  "ChunkBuffer2_calc_blocks chunk_len num =
     (let chunk_data_blocks = blocks_of chunk_len in
      if chunk_data_blocks > INT_MAX - 1 then -1
      else let chunk_blocks = 1 + chunk_data_blocks in
      if num > INT_MAX - 1 then -1
      else let num_chunks = num + 1 in
      if chunk_blocks > INT_MAX div num_chunks then -1
      else chunk_blocks * num_chunks)"

definition ChunkBuffer2_Init :: "endian \<Rightarrow> bytes \<Rightarrow> int \<Rightarrow> int \<Rightarrow> ChunkBuffer2 option" where
  "ChunkBuffer2_Init e buffer blocks mtu =
     do { cassert (blocks > 0);
          cassert (mtu \<ge> 0);
          b \<leftarrow> Some \<lparr>cb_buffer = buffer, cb_size = blocks, cb_wrap = blocks, cb_start = 0, cb_used = 0,
                 cb_mtu = blocks_of mtu, cb_input_dest = None, cb_input_avail = 0,
                 cb_output_dest = None, cb_output_avail = 0\<rparr>;
          ChunkBuffer2_assert_buffer b;
          b \<leftarrow> ChunkBuffer2_update_output e (ChunkBuffer2_update_input b);
          ChunkBuffer2_assert_io e b;
          Some b }"

definition ChunkBuffer2_SubmitPacket :: "endian \<Rightarrow> ChunkBuffer2 \<Rightarrow> int \<Rightarrow> ChunkBuffer2 option" where
  "ChunkBuffer2_SubmitPacket e b len =
     do { cassert (cb_input_dest b \<noteq> None);
          cassert (len \<ge> 0);
          cassert (len \<le> cb_input_avail b);
          ChunkBuffer2_assert_buffer b;
          ChunkBuffer2_assert_io e b;
          (let end' = ChunkBuffer2_end b; blocklen = blocks_of len in
           do { cassert (blocklen \<le> cb_size b - end' - 1);
                cassert (cb_used b < cb_wrap b - cb_start b \<or> blocklen \<le> cb_start b - end' - 1);
                buffer \<leftarrow> set_block_len e (cb_buffer b) end' len;
                b \<leftarrow> Some (b\<lparr>cb_buffer := buffer, cb_used := cb_used b + (1 + blocklen)\<rparr>);
                b \<leftarrow> Some (if cb_used b \<le> cb_wrap b - cb_start b \<and> cb_mtu b > cb_size b - (end' + 1 + blocklen) - 1
                          then b\<lparr>cb_wrap := end' + 1 + blocklen\<rparr> else b);
                ChunkBuffer2_assert_buffer b;
                b \<leftarrow> Some (ChunkBuffer2_update_input b);
                b \<leftarrow> (if cb_used b = 1 + blocklen then ChunkBuffer2_update_output e b else Some b);
                ChunkBuffer2_assert_io e b;
                Some b }) }"

definition ChunkBuffer2_ConsumePacket :: "endian \<Rightarrow> ChunkBuffer2 \<Rightarrow> ChunkBuffer2 option" where
  "ChunkBuffer2_ConsumePacket e b =
     do { cassert (cb_output_dest b \<noteq> None);
          ChunkBuffer2_assert_buffer b;
          ChunkBuffer2_assert_io e b;
          cassert (1 \<le> cb_wrap b - cb_start b);
          cassert (1 \<le> cb_used b);
          datalen \<leftarrow> block_len e (cb_buffer b) (cb_start b);
          (let blocklen = blocks_of datalen; data_wrapped = (cb_used b \<ge> cb_wrap b - cb_start b) in
           do { cassert (blocklen \<le> cb_wrap b - cb_start b - 1);
                cassert (blocklen \<le> cb_used b - 1);
                b \<leftarrow> Some (b\<lparr>cb_start := cb_start b + (1 + blocklen), cb_used := cb_used b - (1 + blocklen)\<rparr>);
                b \<leftarrow> Some (if cb_start b = cb_wrap b then b\<lparr>cb_start := 0, cb_wrap := cb_size b\<rparr> else b);
                ChunkBuffer2_assert_buffer b;
                b \<leftarrow> Some (if data_wrapped then ChunkBuffer2_update_input b else b);
                b \<leftarrow> ChunkBuffer2_update_output e b;
                ChunkBuffer2_assert_io e b;
                Some b }) }"

definition cb_fill :: "ChunkBuffer2 \<Rightarrow> bytes \<Rightarrow> ChunkBuffer2 option" where
  \<comment> \<open>the client writes packet data to \<open>input_dest\<close>\<close>
  "cb_fill b data =
     do { d \<leftarrow> cb_input_dest b; buffer \<leftarrow> overwrite (cb_buffer b) d data; Some (b\<lparr>cb_buffer := buffer\<rparr>) }"

definition cb_packet :: "ChunkBuffer2 \<Rightarrow> bytes option" where
  \<comment> \<open>the packet a client reads at \<open>output_dest\<close>\<close>
  "cb_packet b = do { d \<leftarrow> cb_output_dest b; subbytes (cb_buffer b) d (nat (cb_output_avail b)) }"

section \<open>Packets in memory\<close>

fun packets_at :: "endian \<Rightarrow> bytes \<Rightarrow> int \<Rightarrow> int \<Rightarrow> bytes list \<Rightarrow> int \<Rightarrow> bool" where
  \<comment> \<open>the packets lie one behind the other from block \<open>i\<close> to block \<open>j\<close>, none starts behind \<open>lim\<close>\<close>
  "packets_at e m lim i [] j \<longleftrightarrow> i = j"
| "packets_at e m lim i (p # ps) j \<longleftrightarrow>
     0 \<le> i \<and> i \<le> lim \<and> int (length p) \<le> INT_MAX \<and>
     subbytes m (4 * nat i) 4 = Some (mem32 e (word_of_nat (length p))) \<and>
     subbytes m (4 * nat (i + 1)) (length p) = Some p \<and>
     packets_at e m lim (i + 1 + (int (length p) + 3) div 4) ps j"

definition cb_core :: "endian \<Rightarrow> ChunkBuffer2 \<Rightarrow> bytes list \<Rightarrow> bool" where
  "cb_core e b ps \<longleftrightarrow>
     (let lim = cb_size b - cb_mtu b - 1 in
      0 \<le> cb_mtu b \<and> 0 \<le> lim \<and> length (cb_buffer b) = 4 * nat (cb_size b) \<and> 4 * (cb_size b - 1) \<le> INT_MAX \<and>
      0 \<le> cb_start b \<and> cb_start b < cb_wrap b \<and> cb_wrap b \<le> cb_size b \<and> 0 \<le> cb_used b \<and>
      (if cb_used b < cb_wrap b - cb_start b
       then cb_wrap b = cb_size b \<and> cb_start b + cb_used b \<le> lim \<and>
         packets_at e (cb_buffer b) lim (cb_start b) ps (cb_start b + cb_used b)
       else lim < cb_wrap b \<and> cb_used b \<le> cb_wrap b \<and>
         (\<exists>ps1 ps2. ps = ps1 @ ps2 \<and> packets_at e (cb_buffer b) lim (cb_start b) ps1 (cb_wrap b) \<and>
            packets_at e (cb_buffer b) lim 0 ps2 (cb_used b - (cb_wrap b - cb_start b)))))"

definition cb_rep :: "endian \<Rightarrow> ChunkBuffer2 \<Rightarrow> bytes list \<Rightarrow> bool" where
  "cb_rep e b ps \<longleftrightarrow> cb_core e b ps \<and> ChunkBuffer2_update_input b = b \<and> ChunkBuffer2_update_output e b = Some b"

lemma sint_word_of_nat: "int n \<le> INT_MAX \<Longrightarrow> sint (word_of_nat n :: u32) = int n"
  using int32_id [of "int n"] by (simp add: int32_def)

lemma bdivide_up_4:
  assumes "0 \<le> len" "len \<le> INT_MAX"
  shows "uint (bdivide_up (word_of_int len) 4) = (len + 3) div 4"
proof -
  have u: "uint (word_of_int len :: u64) = len" using assms by (simp add: uint_word_of_int)
  have r: "uint ((word_of_int len :: u64) mod 4) = len mod 4" and d: "uint ((word_of_int len :: u64) div 4) = len div 4"
    by (simp_all add: uint_mod uint_div u)
  have "(word_of_int len :: u64) mod 4 > 0 \<longleftrightarrow> len mod 4 > 0" by (simp add: word_less_def r)
  moreover have "uint ((word_of_int len :: u64) div 4 + 1) = len div 4 + 1"
    using assms d by (simp add: uint_word_ariths)
  moreover have "(len + 3) div 4 = (if len mod 4 > 0 then len div 4 + 1 else len div 4)" by presburger
  ultimately show ?thesis using d by (simp add: bdivide_up_def Let_def)
qed

lemma blocks_of_eq: "0 \<le> len \<Longrightarrow> len \<le> INT_MAX \<Longrightarrow> blocks_of len = (len + 3) div 4"
  by (simp add: blocks_of_def bdivide_up_4 int32_id)

lemma packets_at_le: "packets_at e m lim i ps j \<Longrightarrow> i \<le> j"
proof (induction ps arbitrary: i)
  case (Cons p ps)
  then have "i + 1 + (int (length p) + 3) div 4 \<le> j" by simp
  then show ?case by linarith
qed simp

lemma packets_at_append:
  "packets_at e m lim i (ps @ qs) j \<longleftrightarrow> (\<exists>k. packets_at e m lim i ps k \<and> packets_at e m lim k qs j)"
  by (induction ps arbitrary: i) auto

lemma packets_at_nonempty: "packets_at e m lim i ps j \<Longrightarrow> i < j \<longleftrightarrow> ps \<noteq> []"
  by (cases ps) (auto dest!: packets_at_le)

lemma subbytes_agree:
  assumes "length m' = length m" "\<And>k. 4 * nat i \<le> k \<Longrightarrow> k < 4 * nat j \<Longrightarrow> m' ! k = m ! k"
    and "4 * nat i \<le> a" "a + n \<le> 4 * nat j"
  shows "subbytes m' a n = subbytes m a n"
  using assms by (auto simp: subbytes_def intro!: nth_equalityI)

lemma packets_at_agree:
  assumes "packets_at e m lim i ps j" "length m' = length m" "\<And>k. 4 * nat i \<le> k \<Longrightarrow> k < 4 * nat j \<Longrightarrow> m' ! k = m ! k"
  shows "packets_at e m' lim i ps j"
  using assms
proof (induction ps arbitrary: i)
  case Nil
  then show ?case by simp
next
  case (Cons p ps)
  let ?n = "i + 1 + (int (length p) + 3) div 4"
  have n: "i \<le> ?n" "0 \<le> i" "packets_at e m lim ?n ps j" "?n \<le> j" "4 * nat (i + 1) + length p \<le> 4 * nat ?n"
    using Cons.prems(1) packets_at_le by auto
  have "packets_at e m' lim ?n ps j"
    using n(1,2) by (intro Cons.IH n(3) Cons.prems) auto
  moreover have "subbytes m' (4 * nat i) 4 = subbytes m (4 * nat i) 4"
    "subbytes m' (4 * nat (i + 1)) (length p) = subbytes m (4 * nat (i + 1)) (length p)"
    using n by (auto intro!: subbytes_agree [OF Cons.prems(2,3)])
  ultimately show ?case using Cons.prems(1) by simp
qed

lemma overwrite_nth:
  "overwrite m a xs = Some m' \<Longrightarrow> k < a \<or> a + length xs \<le> k \<Longrightarrow> k < length m \<Longrightarrow> m' ! k = m ! k"
  by (auto simp: overwrite_def nth_append split: if_splits)

lemma overwrite_same: "overwrite m a xs = Some m' \<Longrightarrow> subbytes m' a (length xs) = Some xs"
  by (auto simp: overwrite_def subbytes_def split: if_splits)

section \<open>What the representation gives\<close>

lemma load32_subbytes: "subbytes m a 4 = Some (mem32 e x) \<Longrightarrow> load32 e (drop a m) = Some x"
proof -
  assume s: "subbytes m a 4 = Some (mem32 e x)"
  then have l: "a + 4 \<le> length m" and m: "take 4 (drop a m) = mem32 e x" by (auto simp: subbytes_def split: if_splits)
  obtain y where y: "load32 e (drop a m) = Some y" using load32_total [OF l] by blast
  have "mem32 e y = mem32 e x" using mem_load(2) [OF y] m by (rule trans)
  then show ?thesis using y mem_inj(2) by blast
qed

lemma core_basic:
  assumes "cb_core e b ps"
  shows "0 \<le> cb_mtu b" "cb_mtu b < cb_size b" "length (cb_buffer b) = 4 * nat (cb_size b)" "4 * (cb_size b - 1) \<le> INT_MAX"
    "0 \<le> cb_start b" "cb_start b < cb_wrap b" "cb_wrap b \<le> cb_size b" "0 \<le> cb_used b"
  using assms by (simp_all add: cb_core_def Let_def)

lemma core_plain:
  assumes "cb_core e b ps" "cb_used b < cb_wrap b - cb_start b"
  shows "cb_wrap b = cb_size b" "cb_start b + cb_used b \<le> cb_size b - cb_mtu b - 1"
    "packets_at e (cb_buffer b) (cb_size b - cb_mtu b - 1) (cb_start b) ps (cb_start b + cb_used b)"
  using assms by (simp_all add: cb_core_def Let_def)

lemma core_wrapped:
  assumes "cb_core e b ps" "\<not> cb_used b < cb_wrap b - cb_start b"
  obtains p ps1 ps2 where "ps = p # ps1 @ ps2" "cb_used b \<le> cb_wrap b" "cb_size b - cb_mtu b - 1 < cb_wrap b"
    "packets_at e (cb_buffer b) (cb_size b - cb_mtu b - 1) (cb_start b) (p # ps1) (cb_wrap b)"
    "packets_at e (cb_buffer b) (cb_size b - cb_mtu b - 1) 0 ps2 (cb_used b - (cb_wrap b - cb_start b))"
proof -
  obtain qs ps2 where *: "ps = qs @ ps2" "cb_used b \<le> cb_wrap b" "cb_size b - cb_mtu b - 1 < cb_wrap b"
    "packets_at e (cb_buffer b) (cb_size b - cb_mtu b - 1) (cb_start b) qs (cb_wrap b)"
    "packets_at e (cb_buffer b) (cb_size b - cb_mtu b - 1) 0 ps2 (cb_used b - (cb_wrap b - cb_start b))"
    using assms unfolding cb_core_def Let_def by (metis (no_types, lifting))
  moreover obtain p ps1 where "qs = p # ps1" using packets_at_nonempty [OF *(4)] core_basic(6) [OF assms(1)] by (cases qs) auto
  ultimately show thesis using that by simp
qed

lemma core_used: "cb_core e b ps \<Longrightarrow> cb_used b > 0 \<longleftrightarrow> ps \<noteq> []"
proof (cases "cb_used b < cb_wrap b - cb_start b")
  case True
  assume "cb_core e b ps"
  from packets_at_nonempty [OF core_plain(3) [OF this True]] show ?thesis by simp
next
  case False
  assume c: "cb_core e b ps"
  then show ?thesis using core_wrapped [OF c False] core_basic(6) [OF c] False
    by (metis Nil_is_append_conv diff_gt_0_iff_gt linorder_not_less list.distinct(1) order_less_le_trans)
qed

lemma core_end:
  assumes "cb_core e b ps"
  shows "0 \<le> ChunkBuffer2_end b" "ChunkBuffer2_end b \<le> cb_size b - cb_mtu b - 1"
    "\<not> cb_used b < cb_wrap b - cb_start b \<Longrightarrow> cb_start b \<le> cb_size b - cb_mtu b - 1 \<and> ChunkBuffer2_end b \<le> cb_start b"
proof -
  show w: "cb_start b \<le> cb_size b - cb_mtu b - 1 \<and> ChunkBuffer2_end b \<le> cb_start b" if "\<not> cb_used b < cb_wrap b - cb_start b"
    by (rule core_wrapped [OF assms that]) (use that in \<open>auto simp: ChunkBuffer2_end_def\<close>)
  show "0 \<le> ChunkBuffer2_end b" using core_basic [OF assms] by (simp add: ChunkBuffer2_end_def)
  show "ChunkBuffer2_end b \<le> cb_size b - cb_mtu b - 1"
    using w core_plain(2) [OF assms] by (cases "cb_used b < cb_wrap b - cb_start b") (auto simp: ChunkBuffer2_end_def)
qed

lemma core_free:
  assumes "cb_core e b ps"
  shows "free_blocks b \<le> cb_size b - ChunkBuffer2_end b" "0 \<le> free_blocks b"
    "int32 ((free_blocks b - 1) * 4) = (free_blocks b - 1) * 4"
proof -
  show *: "free_blocks b \<le> cb_size b - ChunkBuffer2_end b" "0 \<le> free_blocks b"
    using core_end [OF assms] core_basic [OF assms] by (auto simp: free_blocks_def)
  then show "int32 ((free_blocks b - 1) * 4) = (free_blocks b - 1) * 4"
    using core_end(1) [OF assms] core_basic(4) [OF assms] by (intro int32_id; simp)
qed

lemma core_first:
  assumes "cb_core e b (p # ps)"
  shows "block_len e (cb_buffer b) (cb_start b) = Some (int (length p))" "int (length p) \<le> INT_MAX"
    "subbytes (cb_buffer b) (4 * nat (cb_start b + 1)) (length p) = Some p"
    "(int (length p) + 3) div 4 \<le> cb_used b - 1" "(int (length p) + 3) div 4 \<le> cb_wrap b - cb_start b - 1"
proof -
  let ?lim = "cb_size b - cb_mtu b - 1"
  obtain qs j where q: "packets_at e (cb_buffer b) ?lim (cb_start b) (p # qs) j" "j \<le> cb_wrap b" "j - cb_start b \<le> cb_used b"
  proof (cases "cb_used b < cb_wrap b - cb_start b")
    case True
    then show ?thesis using core_plain(3) [OF assms True] that [of ps "cb_start b + cb_used b"] by simp
  next
    case False
    show ?thesis by (rule core_wrapped [OF assms False]) (use False that [of _ "cb_wrap b"] in auto)
  qed
  then show "int (length p) \<le> INT_MAX" "subbytes (cb_buffer b) (4 * nat (cb_start b + 1)) (length p) = Some p" by simp_all
  have "subbytes (cb_buffer b) (4 * nat (cb_start b)) 4 = Some (mem32 e (word_of_nat (length p)))" using q(1) by simp
  then show "block_len e (cb_buffer b) (cb_start b) = Some (int (length p))"
    using load32_subbytes core_basic(5) [OF assms] \<open>int (length p) \<le> INT_MAX\<close> by (simp add: block_len_def sint_word_of_nat)
  have "packets_at e (cb_buffer b) ?lim (cb_start b + 1 + (int (length p) + 3) div 4) qs j" using q(1) by simp
  from packets_at_le [OF this] have "cb_start b + 1 + (int (length p) + 3) div 4 \<le> j" .
  then show "(int (length p) + 3) div 4 \<le> cb_used b - 1" "(int (length p) + 3) div 4 \<le> cb_wrap b - cb_start b - 1"
    using q(2,3) by simp_all
qed

lemma core_check_output:
  assumes "cb_core e b (p # ps)"
  shows "check_output e b = Some (int (length p))"
  using core_first [OF assms] by (simp add: check_output_def blocks_of_eq)

lemma core_assert_buffer:
  assumes "cb_core e b ps"
  shows "ChunkBuffer2_assert_buffer b = Some ()"
proof (cases "cb_used b < cb_wrap b - cb_start b")
  case True
  then show ?thesis using core_basic [OF assms] core_plain [OF assms] by (simp add: ChunkBuffer2_assert_buffer_def)
next
  case False
  show ?thesis
    by (rule core_wrapped [OF assms False]) (use core_basic [OF assms] False in \<open>simp add: ChunkBuffer2_assert_buffer_def\<close>)
qed

lemma io_fields [simp]:
  "ChunkBuffer2_end (b\<lparr>cb_input_dest := x, cb_input_avail := y\<rparr>) = ChunkBuffer2_end b"
  "ChunkBuffer2_end (b\<lparr>cb_output_dest := x, cb_output_avail := y\<rparr>) = ChunkBuffer2_end b"
  "free_blocks (b\<lparr>cb_input_dest := x, cb_input_avail := y\<rparr>) = free_blocks b"
  "free_blocks (b\<lparr>cb_output_dest := x, cb_output_avail := y\<rparr>) = free_blocks b"
  "check_output e (b\<lparr>cb_input_dest := x, cb_input_avail := y\<rparr>) = check_output e b"
  "check_output e (b\<lparr>cb_output_dest := x, cb_output_avail := y\<rparr>) = check_output e b"
  "cb_core e (b\<lparr>cb_input_dest := x, cb_input_avail := y\<rparr>) ps = cb_core e b ps"
  "cb_core e (b\<lparr>cb_output_dest := x, cb_output_avail := y\<rparr>) ps = cb_core e b ps"
  by (simp_all add: ChunkBuffer2_end_def free_blocks_def check_output_def cb_core_def)

lemma update_input_eq:
  obtains x y where "ChunkBuffer2_update_input b = b\<lparr>cb_input_dest := x, cb_input_avail := y\<rparr>"
    "\<And>x' y'. ChunkBuffer2_update_input (b\<lparr>cb_input_dest := x', cb_input_avail := y'\<rparr>) = b\<lparr>cb_input_dest := x, cb_input_avail := y\<rparr>"
    "\<And>x' y'. ChunkBuffer2_update_input (b\<lparr>cb_output_dest := x', cb_output_avail := y'\<rparr>) =
       b\<lparr>cb_output_dest := x', cb_output_avail := y', cb_input_dest := x, cb_input_avail := y\<rparr>"
proof (cases "cb_size b - ChunkBuffer2_end b - 1 < cb_mtu b \<or> \<not> free_blocks b > 0")
  case True
  then show ?thesis using that [where x = None and y = "-1"] by (auto simp: ChunkBuffer2_update_input_def Let_def)
next
  case False
  then show ?thesis using that [where x = "Some (4 * nat (ChunkBuffer2_end b + 1))" and y = "int32 ((free_blocks b - 1) * 4)"]
    by (auto simp: ChunkBuffer2_update_input_def Let_def)
qed

lemma core_update_input:
  assumes "cb_core e b ps"
  shows "cb_core e (ChunkBuffer2_update_input b) ps"
    "ChunkBuffer2_update_input (ChunkBuffer2_update_input b) = ChunkBuffer2_update_input b"
    "cb_used (ChunkBuffer2_update_input b) = cb_used b"
  by (rule update_input_eq [of b]; use assms in simp)+

lemma core_update_output:
  assumes "cb_core e b ps"
  obtains b' where "ChunkBuffer2_update_output e b = Some b'" "ChunkBuffer2_update_output e b' = Some b'"
    "cb_core e b' ps" "ChunkBuffer2_update_input b = b \<Longrightarrow> ChunkBuffer2_update_input b' = b'"
    "\<And>x y. ChunkBuffer2_update_output e (b\<lparr>cb_input_dest := x, cb_input_avail := y\<rparr>) = Some (b'\<lparr>cb_input_dest := x, cb_input_avail := y\<rparr>)"
proof -
  obtain x y where u: "ChunkBuffer2_update_output e b = Some (b\<lparr>cb_output_dest := x, cb_output_avail := y\<rparr>)"
    "ChunkBuffer2_update_output e (b\<lparr>cb_output_dest := x, cb_output_avail := y\<rparr>) = Some (b\<lparr>cb_output_dest := x, cb_output_avail := y\<rparr>)"
    "\<And>x' y'. ChunkBuffer2_update_output e (b\<lparr>cb_input_dest := x', cb_input_avail := y'\<rparr>) =
      Some (b\<lparr>cb_output_dest := x, cb_output_avail := y, cb_input_dest := x', cb_input_avail := y'\<rparr>)"
  proof (cases ps)
    case Nil
    then show ?thesis using core_used [OF assms] that [where x = None and y = "-1"] by (simp add: ChunkBuffer2_update_output_def)
  next
    case (Cons p qs)
    then have "check_output e b = Some (int (length p))" using assms core_check_output by simp
    then show ?thesis using core_used [OF assms] Cons that [where x = "Some (4 * nat (cb_start b + 1))" and y = "int (length p)"]
      by (simp add: ChunkBuffer2_update_output_def)
  qed
  have "ChunkBuffer2_update_input (b\<lparr>cb_output_dest := x, cb_output_avail := y\<rparr>) = b\<lparr>cb_output_dest := x, cb_output_avail := y\<rparr>"
    if "ChunkBuffer2_update_input b = b"
    by (rule update_input_eq [of b]) (use that in \<open>metis ChunkBuffer2.surjective ChunkBuffer2.update_convs(7-10)\<close>)
  then show thesis using that [of "b\<lparr>cb_output_dest := x, cb_output_avail := y\<rparr>"] u assms by simp
qed

lemma rep_input:
  assumes "cb_rep e b ps"
  shows "cb_input_dest b = (if free_blocks b > 0 then Some (4 * nat (ChunkBuffer2_end b + 1)) else None)"
    "cb_input_avail b = (if free_blocks b > 0 then (free_blocks b - 1) * 4 else -1)"
proof -
  have "cb_core e b ps" "ChunkBuffer2_update_input b = b" using assms by (simp_all add: cb_rep_def)
  then show "cb_input_dest b = (if free_blocks b > 0 then Some (4 * nat (ChunkBuffer2_end b + 1)) else None)"
    "cb_input_avail b = (if free_blocks b > 0 then (free_blocks b - 1) * 4 else -1)"
    using core_end [of e b ps] core_free [of e b ps]
    by (auto simp: ChunkBuffer2_update_input_def Let_def split: if_splits dest: arg_cong [of _ _ cb_input_dest] arg_cong [of _ _ cb_input_avail])
qed

lemma rep_output:
  assumes "cb_rep e b ps"
  shows "cb_output_dest b = (if ps = [] then None else Some (4 * nat (cb_start b + 1)))"
    "cb_output_avail b = (if ps = [] then -1 else int (length (hd ps)))"
proof -
  have c: "cb_core e b ps" "ChunkBuffer2_update_output e b = Some b" using assms by (simp_all add: cb_rep_def)
  then show "cb_output_dest b = (if ps = [] then None else Some (4 * nat (cb_start b + 1)))"
    "cb_output_avail b = (if ps = [] then -1 else int (length (hd ps)))"
    using core_used [OF c(1)] core_check_output [of e b "hd ps" "tl ps"]
    by (auto simp: ChunkBuffer2_update_output_def split: if_splits dest: arg_cong [of _ _ cb_output_dest] arg_cong [of _ _ cb_output_avail])
qed

lemma rep_assert_io:
  assumes "cb_rep e b ps"
  shows "ChunkBuffer2_assert_io e b = Some ()"
  using rep_input [OF assms] rep_output [OF assms] core_used [of e b ps] core_end [of e b ps] core_check_output [of e b "hd ps" "tl ps"] assms
  by (auto simp: ChunkBuffer2_assert_io_def Let_def cb_rep_def)

section \<open>The operations on the queue\<close>

definition cb_appended :: "ChunkBuffer2 \<Rightarrow> bytes \<Rightarrow> int \<Rightarrow> ChunkBuffer2" where
  \<comment> \<open>the buffer behind the header write of \<open>ChunkBuffer2_SubmitPacket\<close>, before the input and output are updated\<close>
  "cb_appended b buffer blocklen =
     (let end' = ChunkBuffer2_end b; b = b\<lparr>cb_buffer := buffer, cb_used := cb_used b + (1 + blocklen)\<rparr>
      in if cb_used b \<le> cb_wrap b - cb_start b \<and> cb_mtu b > cb_size b - (end' + 1 + blocklen) - 1
         then b\<lparr>cb_wrap := end' + 1 + blocklen\<rparr> else b)"

lemma core_appended:
  assumes c: "cb_core e b ps" and len: "int (length d) \<le> INT_MAX" and room: "1 + (int (length d) + 3) div 4 \<le> free_blocks b"
    and new: "subbytes m (4 * nat (ChunkBuffer2_end b)) 4 = Some (mem32 e (word_of_nat (length d)))"
      "subbytes m (4 * nat (ChunkBuffer2_end b + 1)) (length d) = Some d"
    and old: "length m = length (cb_buffer b)"
      "\<And>k. k < 4 * nat (ChunkBuffer2_end b) \<or> 4 * nat (ChunkBuffer2_end b + 1 + (int (length d) + 3) div 4) \<le> k \<Longrightarrow>
        k < length m \<Longrightarrow> m ! k = cb_buffer b ! k"
  shows "cb_core e (cb_appended b m ((int (length d) + 3) div 4)) (ps @ [d])"
proof -
  let ?lim = "cb_size b - cb_mtu b - 1" and ?fin = "ChunkBuffer2_end b" and ?blk = "(int (length d) + 3) div 4"
  note basic = core_basic [OF c]
  have blk: "0 \<le> ?blk" by simp
  have d: "packets_at e m ?lim ?fin [d] (?fin + 1 + ?blk)"
    using core_end [OF c] len new by simp
  have keep: "packets_at e m ?lim i qs j" if "packets_at e (cb_buffer b) ?lim i qs j" "0 \<le> i" "j \<le> cb_size b"
      "j \<le> ?fin \<or> ?fin + 1 + ?blk \<le> i" for i qs j
  proof (rule packets_at_agree [OF that(1) old(1)])
    fix k assume k: "4 * nat i \<le> k" "k < 4 * nat j"
    show "m ! k = cb_buffer b ! k"
      by (rule old(2)) (use that(2-) k basic(2,3) old(1) in linarith)+
  qed
  show ?thesis
  proof (cases "cb_used b < cb_wrap b - cb_start b")
    case True
    then have e: "?fin = cb_start b + cb_used b" "free_blocks b = cb_size b - ?fin"
      by (simp_all add: ChunkBuffer2_end_def free_blocks_def)
    let ?j = "cb_start b + (cb_used b + (1 + ?blk))"
    have j: "?fin + 1 + ?blk = ?j" using e by simp
    have pk: "packets_at e m ?lim (cb_start b) (ps @ [d]) ?j"
      using keep [OF core_plain(3) [OF c True]] d e core_plain [OF c True] basic
      unfolding packets_at_append j [symmetric] by auto
    show ?thesis
    proof (cases "?lim < ?j")
      case wrap: True
      have "\<exists>ps1 ps2. ps @ [d] = ps1 @ ps2 \<and> packets_at e m ?lim (cb_start b) ps1 ?j \<and> packets_at e m ?lim 0 ps2 0"
        using pk by (intro exI [of _ "ps @ [d]"] exI [of _ "[]"]) simp
      then show ?thesis using e basic core_plain(1,2) [OF c True] room old(1) blk wrap
        by (simp add: cb_core_def cb_appended_def Let_def add.assoc)
    next
      case False
      then show ?thesis using e basic core_plain(1,2) [OF c True] room old(1) blk pk
        by (simp add: cb_core_def cb_appended_def Let_def add.assoc)
    qed
  next
    case False
    then have e: "?fin = cb_used b - (cb_wrap b - cb_start b)" "free_blocks b = cb_start b - ?fin"
      by (simp_all add: ChunkBuffer2_end_def free_blocks_def)
    from core_wrapped [OF c False] obtain p ps1 ps2 where w: "ps = p # ps1 @ ps2" "cb_used b \<le> cb_wrap b" "?lim < cb_wrap b"
      "packets_at e (cb_buffer b) ?lim (cb_start b) (p # ps1) (cb_wrap b)" "packets_at e (cb_buffer b) ?lim 0 ps2 ?fin"
      using e(1) by metis
    have "packets_at e m ?lim (cb_start b) (p # ps1) (cb_wrap b)" using w(4) by (rule keep) (use basic e room in auto)
    moreover have "packets_at e m ?lim 0 (ps2 @ [d]) (?fin + 1 + ?blk)"
      using keep [OF w(5)] d core_end [OF c] basic unfolding packets_at_append by auto
    moreover have "?fin + 1 + ?blk = cb_used b + (1 + ?blk) - (cb_wrap b - cb_start b)" using e by simp
    moreover have "ps @ [d] = (p # ps1) @ (ps2 @ [d])" using w(1) by simp
    ultimately have ex: "\<exists>qs1 qs2. ps @ [d] = qs1 @ qs2 \<and> packets_at e m ?lim (cb_start b) qs1 (cb_wrap b) \<and>
        packets_at e m ?lim 0 qs2 (cb_used b + (1 + ?blk) - (cb_wrap b - cb_start b))" by metis
    have "\<not> cb_used b + (1 + ?blk) \<le> cb_wrap b - cb_start b" "\<not> cb_used b + (1 + ?blk) < cb_wrap b - cb_start b"
      using False blk by linarith+
    then show ?thesis using e basic w(2,3) room old(1) blk ex
      by (simp add: cb_core_def cb_appended_def Let_def)
  qed
qed

definition cb_dropped :: "ChunkBuffer2 \<Rightarrow> int \<Rightarrow> ChunkBuffer2" where
  \<comment> \<open>the buffer of \<open>ChunkBuffer2_ConsumePacket\<close> before the input and output are updated\<close>
  "cb_dropped b blocklen =
     (let b = b\<lparr>cb_start := cb_start b + (1 + blocklen), cb_used := cb_used b - (1 + blocklen)\<rparr>
      in if cb_start b = cb_wrap b then b\<lparr>cb_start := 0, cb_wrap := cb_size b\<rparr> else b)"

lemma core_dropped:
  assumes c: "cb_core e b (p # ps)"
  shows "cb_core e (cb_dropped b ((int (length p) + 3) div 4)) ps"
proof -
  let ?lim = "cb_size b - cb_mtu b - 1" and ?blk = "(int (length p) + 3) div 4"
  note basic = core_basic [OF c] and first = core_first [OF c]
  have blk: "0 \<le> ?blk" by simp
  show ?thesis
  proof (cases "cb_used b < cb_wrap b - cb_start b")
    case True
    have "packets_at e (cb_buffer b) ?lim (cb_start b + (1 + ?blk)) ps (cb_start b + cb_used b)"
      using core_plain(3) [OF c True] by (simp add: add.assoc)
    then show ?thesis
      using True basic first(4,5) core_plain(1,2) [OF c True] blk
      by (auto simp: cb_core_def cb_dropped_def Let_def)
  next
    case False
    from core_wrapped [OF c False] obtain ps1 ps2 where w: "ps = ps1 @ ps2" "cb_used b \<le> cb_wrap b" "?lim < cb_wrap b"
      "packets_at e (cb_buffer b) ?lim (cb_start b) (p # ps1) (cb_wrap b)"
      "packets_at e (cb_buffer b) ?lim 0 ps2 (cb_used b - (cb_wrap b - cb_start b))"
      by (metis list.inject)
    have w4: "packets_at e (cb_buffer b) ?lim (cb_start b + (1 + ?blk)) ps1 (cb_wrap b)"
      using w(4) by (simp add: add.assoc)
    show ?thesis
    proof (cases "cb_start b + (1 + ?blk) = cb_wrap b")
      case True
      then have "ps1 = []" using packets_at_nonempty [OF w4] by simp
      moreover have "cb_used b - (cb_wrap b - cb_start b) = cb_used b - (1 + ?blk)" using True by simp
      moreover from this have "packets_at e (cb_buffer b) ?lim 0 ps2 (cb_used b - (1 + ?blk))" using w(5) by metis
      moreover have "cb_used b - (cb_wrap b - cb_start b) \<le> ?lim" using core_end [OF c] False by (simp add: ChunkBuffer2_end_def)
      ultimately show ?thesis using True basic first(4,5) w(1,2) blk
        by (simp add: cb_core_def cb_dropped_def Let_def)
    next
      case neq: False
      have "cb_start b + (1 + ?blk) < cb_wrap b" using packets_at_le [OF w4] neq by simp
      moreover have "cb_used b - (1 + ?blk) - (cb_wrap b - (cb_start b + (1 + ?blk))) = cb_used b - (cb_wrap b - cb_start b)" by simp
      moreover from this have "\<exists>qs1 qs2. ps = qs1 @ qs2 \<and>
          packets_at e (cb_buffer b) ?lim (cb_start b + (1 + ?blk)) qs1 (cb_wrap b) \<and>
          packets_at e (cb_buffer b) ?lim 0 qs2 (cb_used b - (1 + ?blk) - (cb_wrap b - (cb_start b + (1 + ?blk))))"
        using w(1,5) w4 by metis
      ultimately show ?thesis using False neq basic first(4,5) w(2,3) blk
        by (simp add: cb_core_def cb_dropped_def Let_def)
    qed
  qed
qed

lemma update_input_sets:
  assumes "cb_core e b ps"
  shows "ChunkBuffer2_update_input b = b\<lparr>
     cb_input_dest := (if free_blocks b > 0 then Some (4 * nat (ChunkBuffer2_end b + 1)) else None),
     cb_input_avail := (if free_blocks b > 0 then (free_blocks b - 1) * 4 else -1)\<rparr>"
  using core_end(2) [OF assms] core_free(3) [OF assms] by (simp add: ChunkBuffer2_update_input_def Let_def)

lemma update_output_sets:
  assumes "cb_core e b ps"
  shows "ChunkBuffer2_update_output e b = Some (b\<lparr>
     cb_output_dest := (if ps = [] then None else Some (4 * nat (cb_start b + 1))),
     cb_output_avail := (if ps = [] then -1 else int (length (hd ps)))\<rparr>)"
  using core_used [OF assms] core_check_output [of e b "hd ps" "tl ps"] assms
  by (cases ps) (simp_all add: ChunkBuffer2_update_output_def)

lemma rep_intro:
  assumes "cb_core e b ps"
    and "cb_input_dest b = (if free_blocks b > 0 then Some (4 * nat (ChunkBuffer2_end b + 1)) else None)"
    and "cb_input_avail b = (if free_blocks b > 0 then (free_blocks b - 1) * 4 else -1)"
    and "cb_output_dest b = (if ps = [] then None else Some (4 * nat (cb_start b + 1)))"
    and "cb_output_avail b = (if ps = [] then -1 else int (length (hd ps)))"
  shows "cb_rep e b ps"
proof -
  have "b\<lparr>cb_input_dest := cb_input_dest b, cb_input_avail := cb_input_avail b\<rparr> = b"
    "b\<lparr>cb_output_dest := cb_output_dest b, cb_output_avail := cb_output_avail b\<rparr> = b" by (cases b; simp)+
  then show ?thesis
    unfolding cb_rep_def update_input_sets [OF assms(1)] update_output_sets [OF assms(1)] assms(2-5) [symmetric]
    using assms(1) by simp
qed

lemma rep_after_updates:
  assumes "cb_core e b ps"
  obtains b' where "ChunkBuffer2_update_output e (ChunkBuffer2_update_input b) = Some b'" "cb_rep e b' ps"
    "cb_size b' = cb_size b" "cb_mtu b' = cb_mtu b" "cb_start b' = cb_start b"
proof -
  have c: "cb_core e (ChunkBuffer2_update_input b) ps" by (rule core_update_input [OF assms])
  let ?b = "(ChunkBuffer2_update_input b)\<lparr>
     cb_output_dest := (if ps = [] then None else Some (4 * nat (cb_start (ChunkBuffer2_update_input b) + 1))),
     cb_output_avail := (if ps = [] then -1 else int (length (hd ps)))\<rparr>"
  have "cb_rep e ?b ps"
    by (rule rep_intro) (use c update_input_sets [OF assms] in simp_all)
  moreover have "cb_size ?b = cb_size b" "cb_mtu ?b = cb_mtu b" "cb_start ?b = cb_start b" using update_input_sets [OF assms] by simp_all
  ultimately show thesis using that update_output_sets [OF c] by blast
qed

lemma core_frame:
  assumes c: "cb_core e b ps" and m: "length m = length (cb_buffer b)"
    and old: "\<And>k. k < 4 * nat (ChunkBuffer2_end b) \<or> 4 * nat (ChunkBuffer2_end b + free_blocks b) \<le> k \<Longrightarrow>
      k < length m \<Longrightarrow> m ! k = cb_buffer b ! k"
  shows "cb_core e (b\<lparr>cb_buffer := m\<rparr>) ps"
proof -
  let ?lim = "cb_size b - cb_mtu b - 1" and ?fin = "ChunkBuffer2_end b"
  note basic = core_basic [OF c]
  have keep: "packets_at e m ?lim i qs j" if "packets_at e (cb_buffer b) ?lim i qs j" "0 \<le> i" "j \<le> cb_size b"
      "j \<le> ?fin \<or> ?fin + free_blocks b \<le> i" for i qs j
  proof (rule packets_at_agree [OF that(1) m])
    fix k assume k: "4 * nat i \<le> k" "k < 4 * nat j"
    show "m ! k = cb_buffer b ! k"
      by (rule old) (use that(2-) k basic(2,3) m in linarith)+
  qed
  show ?thesis
  proof (cases "cb_used b < cb_wrap b - cb_start b")
    case True
    have "packets_at e m ?lim (cb_start b) ps (cb_start b + cb_used b)"
      by (rule keep [OF core_plain(3) [OF c True]]) (use True core_plain(1,2) [OF c True] basic in \<open>auto simp: ChunkBuffer2_end_def\<close>)
    then show ?thesis using True basic core_plain(1,2) [OF c True] m by (simp add: cb_core_def Let_def)
  next
    case False
    then have e: "?fin = cb_used b - (cb_wrap b - cb_start b)" "free_blocks b = cb_start b - ?fin"
      by (simp_all add: ChunkBuffer2_end_def free_blocks_def)
    from core_wrapped [OF c False] obtain p ps1 ps2 where w: "ps = p # ps1 @ ps2" "cb_used b \<le> cb_wrap b" "?lim < cb_wrap b"
      "packets_at e (cb_buffer b) ?lim (cb_start b) (p # ps1) (cb_wrap b)" "packets_at e (cb_buffer b) ?lim 0 ps2 ?fin"
      using e(1) by metis
    have "packets_at e m ?lim (cb_start b) (p # ps1) (cb_wrap b)" using w(4) by (rule keep) (use basic e in auto)
    moreover have "packets_at e m ?lim 0 ps2 (cb_used b - (cb_wrap b - cb_start b))"
      using keep [OF w(5)] core_end [OF c] basic e(1) by auto
    ultimately have "\<exists>qs1 qs2. ps = qs1 @ qs2 \<and> packets_at e m ?lim (cb_start b) qs1 (cb_wrap b) \<and>
        packets_at e m ?lim 0 qs2 (cb_used b - (cb_wrap b - cb_start b))" using w(1) by (metis append_Cons)
    then show ?thesis using False basic w(2,3) m by (simp add: cb_core_def Let_def)
  qed
qed

lemma appended_fields:
  "cb_start (cb_appended b m k) = cb_start b" "cb_used (cb_appended b m k) = cb_used b + (1 + k)"
  "cb_output_dest (cb_appended b m k) = cb_output_dest b" "cb_output_avail (cb_appended b m k) = cb_output_avail b"
  "cb_size (cb_appended b m k) = cb_size b" "cb_mtu (cb_appended b m k) = cb_mtu b"
  by (simp_all add: cb_appended_def Let_def)

lemma dropped_fields:
  "cb_size (cb_dropped b k) = cb_size b" "cb_mtu (cb_dropped b k) = cb_mtu b"
  by (simp_all add: cb_dropped_def Let_def)

lemma Init_rep:
  assumes "length buffer = 4 * nat blocks" "4 * (blocks - 1) \<le> INT_MAX" "0 \<le> mtu" "mtu \<le> INT_MAX" "(mtu + 3) div 4 < blocks"
  obtains b where "ChunkBuffer2_Init e buffer blocks mtu = Some b" "cb_rep e b []" "cb_size b = blocks" "cb_mtu b = (mtu + 3) div 4"
proof -
  let ?b = "\<lparr>cb_buffer = buffer, cb_size = blocks, cb_wrap = blocks, cb_start = 0, cb_used = 0, cb_mtu = (mtu + 3) div 4,
    cb_input_dest = None, cb_input_avail = 0, cb_output_dest = None, cb_output_avail = 0\<rparr>"
  have mtu: "0 \<le> (mtu + 3) div 4" using assms(3) by simp
  have c: "cb_core e ?b []" using assms mtu by (simp add: cb_core_def Let_def)
  obtain b where b: "ChunkBuffer2_update_output e (ChunkBuffer2_update_input ?b) = Some b" "cb_rep e b []"
      "cb_size b = blocks" "cb_mtu b = (mtu + 3) div 4"
    by (rule rep_after_updates [OF c]) simp
  then have "ChunkBuffer2_Init e buffer blocks mtu = Some b"
    using assms mtu core_assert_buffer [OF c] rep_assert_io [OF b(2)] by (simp add: ChunkBuffer2_Init_def blocks_of_eq)
  then show thesis using that b by blast
qed

lemma int32_overflow:
  assumes x: "INT_MAX < x" "x < 8589934592"
  shows "(word_of_int (int32 x) :: u64) \<noteq> word_of_int x"
proof
  have r: "- 2147483648 \<le> int32 x" "int32 x \<le> INT_MAX"
    using sint_ge [of "word_of_int x :: u32"] sint_lt [of "word_of_int x :: u32"] by (simp_all add: int32_def)
  assume "(word_of_int (int32 x) :: u64) = word_of_int x"
  then have "int32 x mod 18446744073709551616 = x mod 18446744073709551616" by (simp add: word_of_int_eq_iff take_bit_eq_mod)
  moreover have "x mod 18446744073709551616 = x" using x by (intro mod_pos_pos_trivial) simp_all
  moreover have "int32 x mod 18446744073709551616 = (if int32 x < 0 then int32 x + 18446744073709551616 else int32 x)"
    using r mod_pos_pos_trivial [of "int32 x + 18446744073709551616" 18446744073709551616] by (simp add: mod_pos_pos_trivial)
  ultimately show False using r x by (simp split: if_splits)
qed

lemma Init_overflow:
  assumes "4 * (blocks - 1) > INT_MAX" "blocks \<le> INT_MAX" "0 \<le> mtu" "mtu \<le> INT_MAX" "(mtu + 3) div 4 < blocks"
  shows "ChunkBuffer2_Init e buffer blocks mtu = None"
proof -
  let ?x = "(blocks - 1) * 4"
  let ?b = "\<lparr>cb_buffer = buffer, cb_size = blocks, cb_wrap = blocks, cb_start = 0, cb_used = 0, cb_mtu = (mtu + 3) div 4,
    cb_input_dest = Some (4 * nat (0 + 1)), cb_input_avail = int32 ?x, cb_output_dest = None, cb_output_avail = -1\<rparr>"
  have x: "INT_MAX < ?x" "?x < 8589934592" using assms(1,2) by simp_all
  have "(word_of_int (int32 ?x) :: u64) \<noteq> word_of_int ?x" using x by (rule int32_overflow)
  then have "ChunkBuffer2_assert_io e ?b = None"
    using assms(3,5) by (simp add: ChunkBuffer2_assert_io_def ChunkBuffer2_end_def free_blocks_def Let_def)
  then show ?thesis using assms(3-5)
    by (simp add: ChunkBuffer2_Init_def ChunkBuffer2_assert_buffer_def ChunkBuffer2_update_input_def ChunkBuffer2_update_output_def
        ChunkBuffer2_end_def free_blocks_def blocks_of_eq Let_def)
qed

end
