(* ===== verification/Flow_Interface.thy ===== *)
theory Flow_Interface
  imports Prelude
begin

text \<open>
  The four interfaces data flows through (\<open>flow/PacketPassInterface\<close>, \<open>flow/PacketRecvInterface\<close>,
  \<open>flow/StreamPassInterface\<close>, \<open>flow/StreamRecvInterface\<close>): a user starts an operation, the provider is called from a job,
  reports completion, and the user is called from a second job. A record holds the fields the code branches on or
  asserts: the state, the pointer and length of the operation, whether the handlers are set, and
  which jobs are pending. The functions with \<open>job\<close> in their name are the job handlers up to the call they end
  with. A pointer is an offset into the buffer of the user.
\<close>

datatype op_state = State_none | State_operation_pending | State_busy | State_done_pending

section \<open>PacketPassInterface\<close>

record PacketPassInterface =
  ppi_mtu :: int
  ppi_cancel_handler :: bool
  ppi_done_handler :: bool
  ppi_data :: "nat option"
  ppi_len :: int
  ppi_state :: op_state
  ppi_cancel_requested :: bool
  ppi_job_operation :: bool
  ppi_job_requestcancel :: bool
  ppi_job_done :: bool

definition PacketPassInterface_Init :: "int \<Rightarrow> PacketPassInterface option" where
  "PacketPassInterface_Init mtu =
     do { cassert (mtu \<ge> 0);
          Some \<lparr>ppi_mtu = mtu, ppi_cancel_handler = False, ppi_done_handler = False, ppi_data = None, ppi_len = 0,
                ppi_state = State_none, ppi_cancel_requested = False,
                ppi_job_operation = False, ppi_job_requestcancel = False, ppi_job_done = False\<rparr> }"

definition PacketPassInterface_EnableCancel :: "PacketPassInterface \<Rightarrow> PacketPassInterface option" where
  "PacketPassInterface_EnableCancel i =
     do { cassert (\<not> ppi_cancel_handler i); cassert (\<not> ppi_done_handler i); Some (i\<lparr>ppi_cancel_handler := True\<rparr>) }"

definition PacketPassInterface_Done :: "PacketPassInterface \<Rightarrow> PacketPassInterface option" where
  "PacketPassInterface_Done i =
     do { cassert (ppi_state i = State_busy);
          Some (i\<lparr>ppi_job_requestcancel := False, ppi_job_done := True, ppi_state := State_done_pending\<rparr>) }"

definition PacketPassInterface_Sender_Init :: "PacketPassInterface \<Rightarrow> PacketPassInterface option" where
  "PacketPassInterface_Sender_Init i =
     do { cassert (\<not> ppi_done_handler i); Some (i\<lparr>ppi_done_handler := True\<rparr>) }"

definition PacketPassInterface_Sender_Send :: "PacketPassInterface \<Rightarrow> nat option \<Rightarrow> int \<Rightarrow> PacketPassInterface option" where
  "PacketPassInterface_Sender_Send i data data_len =
     do { cassert (data_len \<ge> 0);
          cassert (data_len \<le> ppi_mtu i);
          cassert (\<not> data_len > 0 \<or> data \<noteq> None);
          cassert (ppi_state i = State_none);
          cassert (ppi_done_handler i);
          Some (i\<lparr>ppi_data := data, ppi_len := data_len, ppi_job_operation := True,
                  ppi_state := State_operation_pending, ppi_cancel_requested := False\<rparr>) }"

definition PacketPassInterface_Sender_RequestCancel :: "PacketPassInterface \<Rightarrow> PacketPassInterface option" where
  "PacketPassInterface_Sender_RequestCancel i =
     do { cassert (ppi_state i = State_operation_pending \<or> ppi_state i = State_busy \<or> ppi_state i = State_done_pending);
          cassert (ppi_cancel_handler i);
          if ppi_cancel_requested i then Some i
          else let i = i\<lparr>ppi_cancel_requested := True\<rparr> in
            if ppi_state i = State_operation_pending
            then Some (i\<lparr>ppi_job_operation := False, ppi_job_done := True, ppi_state := State_done_pending\<rparr>)
            else if ppi_state i = State_busy then Some (i\<lparr>ppi_job_requestcancel := True\<rparr>)
            else Some i }"

definition PacketPassInterface_job_operation :: "PacketPassInterface \<Rightarrow> PacketPassInterface option" where
  \<comment> \<open>then \<open>handler_operation\<close> is called with \<open>ppi_data\<close> and \<open>ppi_len\<close>\<close>
  "PacketPassInterface_job_operation i =
     do { cassert (ppi_state i = State_operation_pending); Some (i\<lparr>ppi_job_operation := False, ppi_state := State_busy\<rparr>) }"

definition PacketPassInterface_job_requestcancel :: "PacketPassInterface \<Rightarrow> PacketPassInterface option" where
  "PacketPassInterface_job_requestcancel i =
     do { cassert (ppi_state i = State_busy); cassert (ppi_cancel_requested i); cassert (ppi_cancel_handler i);
          Some (i\<lparr>ppi_job_requestcancel := False\<rparr>) }"

definition PacketPassInterface_job_done :: "PacketPassInterface \<Rightarrow> PacketPassInterface option" where
  \<comment> \<open>then \<open>handler_done\<close> is called\<close>
  "PacketPassInterface_job_done i =
     do { cassert (ppi_state i = State_done_pending); Some (i\<lparr>ppi_job_done := False, ppi_state := State_none\<rparr>) }"

section \<open>PacketRecvInterface\<close>

record PacketRecvInterface =
  pri_mtu :: int
  pri_done_handler :: bool
  pri_data :: "nat option"
  pri_done_len :: int
  pri_state :: op_state
  pri_job_operation :: bool
  pri_job_done :: bool

definition PacketRecvInterface_Init :: "int \<Rightarrow> PacketRecvInterface option" where
  "PacketRecvInterface_Init mtu =
     do { cassert (mtu \<ge> 0);
          Some \<lparr>pri_mtu = mtu, pri_done_handler = False, pri_data = None, pri_done_len = 0, pri_state = State_none,
                pri_job_operation = False, pri_job_done = False\<rparr> }"

definition PacketRecvInterface_Done :: "PacketRecvInterface \<Rightarrow> int \<Rightarrow> PacketRecvInterface option" where
  "PacketRecvInterface_Done i data_len =
     do { cassert (data_len \<ge> 0); cassert (data_len \<le> pri_mtu i); cassert (pri_state i = State_busy);
          Some (i\<lparr>pri_done_len := data_len, pri_job_done := True, pri_state := State_done_pending\<rparr>) }"

definition PacketRecvInterface_Receiver_Init :: "PacketRecvInterface \<Rightarrow> PacketRecvInterface option" where
  "PacketRecvInterface_Receiver_Init i =
     do { cassert (\<not> pri_done_handler i); Some (i\<lparr>pri_done_handler := True\<rparr>) }"

definition PacketRecvInterface_Receiver_Recv :: "PacketRecvInterface \<Rightarrow> nat option \<Rightarrow> PacketRecvInterface option" where
  "PacketRecvInterface_Receiver_Recv i data =
     do { cassert (\<not> pri_mtu i > 0 \<or> data \<noteq> None); cassert (pri_state i = State_none); cassert (pri_done_handler i);
          Some (i\<lparr>pri_data := data, pri_job_operation := True, pri_state := State_operation_pending\<rparr>) }"

definition PacketRecvInterface_job_operation :: "PacketRecvInterface \<Rightarrow> PacketRecvInterface option" where
  "PacketRecvInterface_job_operation i =
     do { cassert (pri_state i = State_operation_pending); Some (i\<lparr>pri_job_operation := False, pri_state := State_busy\<rparr>) }"

definition PacketRecvInterface_job_done :: "PacketRecvInterface \<Rightarrow> PacketRecvInterface option" where
  \<comment> \<open>then \<open>handler_done\<close> is called with \<open>pri_done_len\<close>\<close>
  "PacketRecvInterface_job_done i =
     do { cassert (pri_state i = State_done_pending); Some (i\<lparr>pri_job_done := False, pri_state := State_none\<rparr>) }"

section \<open>Stream interfaces\<close>

text \<open>
  \<open>StreamPassInterface\<close> and \<open>StreamRecvInterface\<close> have the same code but for their names; \<open>data_len\<close> is the
  length of the operation, and the provider may do less of it.
\<close>

record StreamInterface =
  si_done_handler :: bool
  si_data :: "nat option"
  si_len :: int
  si_done_len :: int
  si_state :: op_state
  si_job_operation :: bool
  si_job_done :: bool

definition StreamPassInterface_Init :: StreamInterface where
  "StreamPassInterface_Init =
     \<lparr>si_done_handler = False, si_data = None, si_len = 0, si_done_len = 0, si_state = State_none,
      si_job_operation = False, si_job_done = False\<rparr>"

definition StreamPassInterface_Done :: "StreamInterface \<Rightarrow> int \<Rightarrow> StreamInterface option" where
  "StreamPassInterface_Done i data_len =
     do { cassert (si_state i = State_busy); cassert (data_len > 0); cassert (data_len \<le> si_len i);
          Some (i\<lparr>si_done_len := data_len, si_job_done := True, si_state := State_done_pending\<rparr>) }"

definition StreamPassInterface_Sender_Init :: "StreamInterface \<Rightarrow> StreamInterface option" where
  "StreamPassInterface_Sender_Init i = do { cassert (\<not> si_done_handler i); Some (i\<lparr>si_done_handler := True\<rparr>) }"

definition StreamPassInterface_Sender_Send :: "StreamInterface \<Rightarrow> nat option \<Rightarrow> int \<Rightarrow> StreamInterface option" where
  "StreamPassInterface_Sender_Send i data data_len =
     do { cassert (data_len > 0); cassert (data \<noteq> None); cassert (si_state i = State_none); cassert (si_done_handler i);
          Some (i\<lparr>si_data := data, si_len := data_len, si_job_operation := True, si_state := State_operation_pending\<rparr>) }"

definition StreamPassInterface_job_operation :: "StreamInterface \<Rightarrow> StreamInterface option" where
  "StreamPassInterface_job_operation i =
     do { cassert (si_state i = State_operation_pending); Some (i\<lparr>si_job_operation := False, si_state := State_busy\<rparr>) }"

definition StreamPassInterface_job_done :: "StreamInterface \<Rightarrow> StreamInterface option" where
  "StreamPassInterface_job_done i =
     do { cassert (si_state i = State_done_pending); Some (i\<lparr>si_job_done := False, si_state := State_none\<rparr>) }"

definition StreamRecvInterface_Init :: StreamInterface where
  "StreamRecvInterface_Init =
     \<lparr>si_done_handler = False, si_data = None, si_len = 0, si_done_len = 0, si_state = State_none,
      si_job_operation = False, si_job_done = False\<rparr>"

definition StreamRecvInterface_Done :: "StreamInterface \<Rightarrow> int \<Rightarrow> StreamInterface option" where
  "StreamRecvInterface_Done i data_len =
     do { cassert (si_state i = State_busy); cassert (data_len > 0); cassert (data_len \<le> si_len i);
          Some (i\<lparr>si_done_len := data_len, si_job_done := True, si_state := State_done_pending\<rparr>) }"

definition StreamRecvInterface_Receiver_Init :: "StreamInterface \<Rightarrow> StreamInterface option" where
  "StreamRecvInterface_Receiver_Init i = do { cassert (\<not> si_done_handler i); Some (i\<lparr>si_done_handler := True\<rparr>) }"

definition StreamRecvInterface_Receiver_Recv :: "StreamInterface \<Rightarrow> nat option \<Rightarrow> int \<Rightarrow> StreamInterface option" where
  "StreamRecvInterface_Receiver_Recv i data data_len =
     do { cassert (data_len > 0); cassert (data \<noteq> None); cassert (si_state i = State_none); cassert (si_done_handler i);
          Some (i\<lparr>si_data := data, si_len := data_len, si_job_operation := True, si_state := State_operation_pending\<rparr>) }"

definition StreamRecvInterface_job_operation :: "StreamInterface \<Rightarrow> StreamInterface option" where
  "StreamRecvInterface_job_operation i =
     do { cassert (si_state i = State_operation_pending); Some (i\<lparr>si_job_operation := False, si_state := State_busy\<rparr>) }"

definition StreamRecvInterface_job_done :: "StreamInterface \<Rightarrow> StreamInterface option" where
  "StreamRecvInterface_job_done i =
     do { cassert (si_state i = State_done_pending); Some (i\<lparr>si_job_done := False, si_state := State_none\<rparr>) }"

section \<open>Pending jobs agree with the state\<close>

text \<open>
  A step is any call of the interface whose assertions hold, or the execution of a job that is pending. In every
  reachable state the pending jobs are those the state calls for, so the assertions at the head of the job handlers hold.
\<close>

inductive ppi_step :: "PacketPassInterface \<Rightarrow> PacketPassInterface \<Rightarrow> bool" where
  "PacketPassInterface_EnableCancel i = Some i' \<Longrightarrow> ppi_step i i'"
| "PacketPassInterface_Done i = Some i' \<Longrightarrow> ppi_step i i'"
| "PacketPassInterface_Sender_Init i = Some i' \<Longrightarrow> ppi_step i i'"
| "PacketPassInterface_Sender_Send i data len = Some i' \<Longrightarrow> ppi_step i i'"
| "PacketPassInterface_Sender_RequestCancel i = Some i' \<Longrightarrow> ppi_step i i'"
| "ppi_job_operation i \<Longrightarrow> PacketPassInterface_job_operation i = Some i' \<Longrightarrow> ppi_step i i'"
| "ppi_job_requestcancel i \<Longrightarrow> PacketPassInterface_job_requestcancel i = Some i' \<Longrightarrow> ppi_step i i'"
| "ppi_job_done i \<Longrightarrow> PacketPassInterface_job_done i = Some i' \<Longrightarrow> ppi_step i i'"

inductive pri_step :: "PacketRecvInterface \<Rightarrow> PacketRecvInterface \<Rightarrow> bool" where
  "PacketRecvInterface_Done i len = Some i' \<Longrightarrow> pri_step i i'"
| "PacketRecvInterface_Receiver_Init i = Some i' \<Longrightarrow> pri_step i i'"
| "PacketRecvInterface_Receiver_Recv i data = Some i' \<Longrightarrow> pri_step i i'"
| "pri_job_operation i \<Longrightarrow> PacketRecvInterface_job_operation i = Some i' \<Longrightarrow> pri_step i i'"
| "pri_job_done i \<Longrightarrow> PacketRecvInterface_job_done i = Some i' \<Longrightarrow> pri_step i i'"

inductive spi_step :: "StreamInterface \<Rightarrow> StreamInterface \<Rightarrow> bool" where
  "StreamPassInterface_Done i len = Some i' \<Longrightarrow> spi_step i i'"
| "StreamPassInterface_Sender_Init i = Some i' \<Longrightarrow> spi_step i i'"
| "StreamPassInterface_Sender_Send i data len = Some i' \<Longrightarrow> spi_step i i'"
| "si_job_operation i \<Longrightarrow> StreamPassInterface_job_operation i = Some i' \<Longrightarrow> spi_step i i'"
| "si_job_done i \<Longrightarrow> StreamPassInterface_job_done i = Some i' \<Longrightarrow> spi_step i i'"

definition ppi_inv :: "PacketPassInterface \<Rightarrow> bool" where
  "ppi_inv i \<longleftrightarrow>
     (ppi_job_operation i \<longleftrightarrow> ppi_state i = State_operation_pending) \<and>
     (ppi_job_done i \<longleftrightarrow> ppi_state i = State_done_pending) \<and>
     (ppi_job_requestcancel i \<longrightarrow> ppi_state i = State_busy \<and> ppi_cancel_requested i \<and> ppi_cancel_handler i) \<and>
     (ppi_state i \<noteq> State_none \<longrightarrow> ppi_done_handler i \<and> 0 \<le> ppi_len i \<and> ppi_len i \<le> ppi_mtu i)"

definition pri_inv :: "PacketRecvInterface \<Rightarrow> bool" where
  "pri_inv i \<longleftrightarrow>
     (pri_job_operation i \<longleftrightarrow> pri_state i = State_operation_pending) \<and>
     (pri_job_done i \<longleftrightarrow> pri_state i = State_done_pending \<and> 0 \<le> pri_done_len i \<and> pri_done_len i \<le> pri_mtu i) \<and>
     (pri_state i = State_done_pending \<longrightarrow> pri_job_done i) \<and> (pri_state i \<noteq> State_none \<longrightarrow> pri_done_handler i)"

definition si_inv :: "StreamInterface \<Rightarrow> bool" where
  "si_inv i \<longleftrightarrow>
     (si_job_operation i \<longleftrightarrow> si_state i = State_operation_pending) \<and>
     (si_job_done i \<longleftrightarrow> si_state i = State_done_pending \<and> 0 < si_done_len i \<and> si_done_len i \<le> si_len i) \<and>
     (si_state i = State_done_pending \<longrightarrow> si_job_done i) \<and>
     (si_state i \<noteq> State_none \<longrightarrow> si_done_handler i \<and> 0 < si_len i \<and> si_data i \<noteq> None)"

interpretation ppi: inductive_invariant "\<lambda>i. PacketPassInterface_Init mtu = Some i" ppi_step ppi_inv for mtu
proof
  show "ppi_inv i" if "PacketPassInterface_Init mtu = Some i" for i
    using that by (auto simp: PacketPassInterface_Init_def ppi_inv_def bind_Some_iff)
  show "ppi_inv i'" if "ppi_inv i" "ppi_step i i'" for i i'
    using that(2,1)
    by cases (auto simp: ppi_inv_def PacketPassInterface_EnableCancel_def PacketPassInterface_Done_def
        PacketPassInterface_Sender_Init_def PacketPassInterface_Sender_Send_def PacketPassInterface_Sender_RequestCancel_def
        PacketPassInterface_job_operation_def PacketPassInterface_job_requestcancel_def PacketPassInterface_job_done_def
        bind_Some_iff Let_def split: if_splits)
qed

interpretation pri: inductive_invariant "\<lambda>i. PacketRecvInterface_Init mtu = Some i" pri_step pri_inv for mtu
proof
  show "pri_inv i" if "PacketRecvInterface_Init mtu = Some i" for i
    using that by (auto simp: PacketRecvInterface_Init_def pri_inv_def bind_Some_iff)
  show "pri_inv i'" if "pri_inv i" "pri_step i i'" for i i'
    using that(2,1)
    by cases (auto simp: pri_inv_def PacketRecvInterface_Done_def PacketRecvInterface_Receiver_Init_def
        PacketRecvInterface_Receiver_Recv_def PacketRecvInterface_job_operation_def PacketRecvInterface_job_done_def bind_Some_iff)
qed

interpretation spi: inductive_invariant "\<lambda>i. i = StreamPassInterface_Init" spi_step si_inv
proof
  show "si_inv i" if "i = StreamPassInterface_Init" for i
    using that by (simp add: StreamPassInterface_Init_def si_inv_def)
  show "si_inv i'" if "si_inv i" "spi_step i i'" for i i'
    using that(2,1)
    by cases (auto simp: si_inv_def StreamPassInterface_Done_def StreamPassInterface_Sender_Init_def
        StreamPassInterface_Sender_Send_def StreamPassInterface_job_operation_def StreamPassInterface_job_done_def bind_Some_iff)
qed

text \<open>
  The jobs of the packet and stream interfaces never fail: in every state that calls of the interface and pending
  jobs reach, a pending job runs without a failed assertion, at most one of them is pending while no cancellation
  was requested, the user is called with a length within the MTU or the requested amount, and the interface is
  idle, waiting for a pending job, or waiting for the provider.
\<close>

lemma flow_jobs_never_fail:
  assumes "reachable_from (\<lambda>i. PacketPassInterface_Init mtu = Some i) ppi_step p"
    and "reachable_from (\<lambda>i. PacketRecvInterface_Init mtu = Some i) pri_step r"
    and "reachable_from (\<lambda>i. i = StreamPassInterface_Init) spi_step s"
  shows "(ppi_job_operation p \<longrightarrow> PacketPassInterface_job_operation p \<noteq> None) \<and>
      (ppi_job_requestcancel p \<longrightarrow> PacketPassInterface_job_requestcancel p \<noteq> None) \<and>
      (ppi_job_done p \<longrightarrow> PacketPassInterface_job_done p \<noteq> None \<and> \<not> ppi_job_operation p \<and> \<not> ppi_job_requestcancel p) \<and>
      (ppi_state p = State_none \<or> ppi_job_operation p \<or> ppi_job_done p \<or> PacketPassInterface_Done p \<noteq> None) \<and>
     (pri_job_operation r \<longrightarrow> PacketRecvInterface_job_operation r \<noteq> None \<and> \<not> pri_job_done r) \<and>
      (pri_job_done r \<longrightarrow> PacketRecvInterface_job_done r \<noteq> None \<and> 0 \<le> pri_done_len r \<and> pri_done_len r \<le> pri_mtu r) \<and>
     (si_job_operation s \<longrightarrow> StreamPassInterface_job_operation s \<noteq> None \<and> \<not> si_job_done s) \<and>
      (si_job_done s \<longrightarrow> StreamPassInterface_job_done s \<noteq> None \<and> 0 < si_done_len s \<and> si_done_len s \<le> si_len s)"
proof -
  have "ppi_inv p" "pri_inv r" "si_inv s"
    using assms by (auto dest: ppi.inv_reachable pri.inv_reachable spi.inv_reachable)
  then show ?thesis
    by (cases "ppi_state p")
      (auto simp: ppi_inv_def pri_inv_def si_inv_def PacketPassInterface_job_operation_def PacketPassInterface_job_requestcancel_def
        PacketPassInterface_job_done_def PacketRecvInterface_job_operation_def PacketRecvInterface_job_done_def
        StreamPassInterface_job_operation_def StreamPassInterface_job_done_def PacketPassInterface_Done_def)
qed

lemma flow_jobs_never_fail_witness:
  "\<exists>i. PacketPassInterface_Init 1500 = Some i \<and> (ppi_job_operation i \<longrightarrow> PacketPassInterface_job_operation i \<noteq> None) \<and>
     ppi_state i = State_none"
proof -
  obtain p where p: "PacketPassInterface_Init 1500 = Some p" "ppi_state p = State_none"
    by (simp add: PacketPassInterface_Init_def)
  obtain r where r: "PacketRecvInterface_Init 1500 = Some r" by (simp add: PacketRecvInterface_Init_def)
  have "ppi_job_operation p \<longrightarrow> PacketPassInterface_job_operation p \<noteq> None"
    using flow_jobs_never_fail [of 1500 p r StreamPassInterface_Init] p(1) r by (simp add: reach_init)
  then show ?thesis using p by blast
qed

end
