(* ===== verification/Event_System.thy ===== *)
theory Event_System
  imports Prelude
begin

text \<open>
  Components that react to events: an event changes the state and produces outputs, or fails (a failed assertion, an
  access outside an object). A run is the reaction to a list of events; a list is legal if each event may happen in the
  state it meets. The locales give what the components prove about their runs from a property of single events: that
  legal runs never fail and keep an invariant over the history, and that the number of events is bounded by the
  credits they bring.
\<close>

fun run_events :: "('e \<Rightarrow> 's \<Rightarrow> ('o list \<times> 's) option) \<Rightarrow> 'e list \<Rightarrow> 's \<Rightarrow> ('o list \<times> 's) option" where
  "run_events event [] s = Some ([], s)"
| "run_events event (ev # evs) s =
     do { (out, s) \<leftarrow> event ev s; (out', s) \<leftarrow> run_events event evs s; Some (out @ out', s) }"

fun legal_events :: "('s \<Rightarrow> 'e \<Rightarrow> bool) \<Rightarrow> ('e \<Rightarrow> 's \<Rightarrow> ('o list \<times> 's) option) \<Rightarrow> 'e list \<Rightarrow> 's \<Rightarrow> bool" where
  "legal_events enabled event [] s = True"
| "legal_events enabled event (ev # evs) s \<longleftrightarrow>
     enabled s ev \<and> (case event ev s of None \<Rightarrow> True | Some (_, s') \<Rightarrow> legal_events enabled event evs s')"

text \<open>\<open>inv s evs out\<close> relates a state to the events that led to it and to the outputs produced on the way.\<close>

locale event_system =
  fixes enabled :: "'s \<Rightarrow> 'e \<Rightarrow> bool" and event :: "'e \<Rightarrow> 's \<Rightarrow> ('o list \<times> 's) option"
    and inv :: "'s \<Rightarrow> 'e list \<Rightarrow> 'o list \<Rightarrow> bool"
  assumes event_step: "inv s h out \<Longrightarrow> enabled s ev \<Longrightarrow> \<exists>o' s'. event ev s = Some (o', s') \<and> inv s' (h @ [ev]) (out @ o')"
begin

lemma run_step:
  "inv s h out \<Longrightarrow> legal_events enabled event evs s \<Longrightarrow>
   \<exists>o' s'. run_events event evs s = Some (o', s') \<and> inv s' (h @ evs) (out @ o')"
proof (induction evs arbitrary: s h out)
  case (Cons ev evs)
  then obtain o1 s1 where 1: "event ev s = Some (o1, s1)" "inv s1 (h @ [ev]) (out @ o1)"
    using event_step [of s h out ev] by auto
  moreover have "legal_events enabled event evs s1" using Cons.prems(2) 1(1) by simp
  ultimately show ?case using Cons.IH [OF 1(2)] by auto
qed simp

lemma run_inv:
  "inv s [] [] \<Longrightarrow> legal_events enabled event evs s \<Longrightarrow> \<exists>out s'. run_events event evs s = Some (out, s') \<and> inv s' evs out"
  using run_step [of s "[]" "[]" evs] by simp

end

text \<open>Every event costs one step; events and outputs bring credits, and \<open>work s\<close> is what is not spent yet.\<close>

locale metered_system = event_system +
  fixes work :: "'s \<Rightarrow> nat" and earns :: "'e \<Rightarrow> nat" and credit :: nat
  assumes event_work: "inv s h out \<Longrightarrow> event ev s = Some (o', s') \<Longrightarrow> work s' + 1 \<le> work s + credit * length o' + earns ev"
begin

lemma run_work:
  "inv s h out \<Longrightarrow> legal_events enabled event evs s \<Longrightarrow> run_events event evs s = Some (o', s') \<Longrightarrow>
   work s' + length evs \<le> work s + credit * length o' + sum_list (map earns evs)"
proof (induction evs arbitrary: s h out o')
  case (Cons ev evs)
  then obtain o1 s1 where 1: "event ev s = Some (o1, s1)" "inv s1 (h @ [ev]) (out @ o1)"
    using event_step [of s h out ev] by auto
  obtain o2 where 2: "run_events event evs s1 = Some (o2, s')" "o' = o1 @ o2"
    using Cons.prems(3) 1(1) by (auto simp: bind_Some_iff)
  moreover have "legal_events enabled event evs s1" using Cons.prems(2) 1(1) by simp
  ultimately show ?case using event_work [OF Cons.prems(1) 1(1)] Cons.IH [OF 1(2) _ 2(1)] by (simp add: distrib_left)
qed simp

end

end
