(* ===== verification/Packet_Relay.thy ===== *)
theory Packet_Relay
  imports Flow_Interface Event_System
begin

text \<open>
  What a buffer between a packet source (\<open>PacketRecvInterface\<close>) and a packet sink (\<open>PacketPassInterface\<close>) promises
  to the components it connects, as two locales: \<open>packet_relay\<close> for safety (packets are handed on in order and unchanged and
  nothing ever gets stuck) and \<open>live_relay\<close> for progress (a run takes boundedly many steps per packet, so everything
  received is delivered once the jobs are run and the sink finishes). \<open>flow/PacketBuffer.c\<close> and
  \<open>flow/SinglePacketBuffer.c\<close> are the instances.
\<close>

section \<open>Events around a buffer\<close>

text \<open>
  The jobs of the two interfaces, and the two providers finishing an operation. The provider of
  the input writes the packet into the memory it was given before it reports completion; the provider of the output
  is given the packet when the operation job runs.
\<close>

datatype relay_event = In_operation | In_complete bytes | In_done | Out_operation | Out_complete | Out_done

definition relay_enabled :: "PacketRecvInterface \<Rightarrow> PacketPassInterface \<Rightarrow> relay_event \<Rightarrow> bool" where
  \<comment> \<open>a job is pending, or a provider is busy and finishes with a packet within the MTU\<close>
  "relay_enabled i p ev \<longleftrightarrow>
     (case ev of
        In_operation \<Rightarrow> pri_job_operation i
      | In_complete d \<Rightarrow> pri_state i = State_busy \<and> int (length d) \<le> pri_mtu i
      | In_done \<Rightarrow> pri_job_done i
      | Out_operation \<Rightarrow> ppi_job_operation p
      | Out_complete \<Rightarrow> ppi_state p = State_busy
      | Out_done \<Rightarrow> ppi_job_done p)"

fun received :: "relay_event list \<Rightarrow> bytes list" where
  "received [] = []"
| "received (In_complete d # evs) = d # received evs"
| "received (ev # evs) = received evs"

lemma received_append [simp]: "received (evs @ evs') = received evs @ received evs'"
  by (induction evs rule: received.induct) simp_all

abbreviation relay_run :: "(relay_event \<Rightarrow> 's \<Rightarrow> (bytes list \<times> 's) option) \<Rightarrow> relay_event list \<Rightarrow> 's \<Rightarrow> (bytes list \<times> 's) option" where
  "relay_run \<equiv> run_events"

abbreviation relay_legal :: "(relay_event \<Rightarrow> 's \<Rightarrow> (bytes list \<times> 's) option) \<Rightarrow> ('s \<Rightarrow> PacketRecvInterface) \<Rightarrow> ('s \<Rightarrow> PacketPassInterface) \<Rightarrow>
    relay_event list \<Rightarrow> 's \<Rightarrow> bool" where
  "relay_legal event inp out \<equiv> legal_events (\<lambda>s. relay_enabled (inp s) (out s)) event"

section \<open>The contract\<close>

text \<open>
  What a packet buffer promises: every enabled event succeeds, packets are handed on in the order in which they came, and there
  is always an event to wait for. \<open>inv s rcv snt\<close> relates a state to what was received and sent on the way to it.
\<close>

locale packet_relay =
  fixes event :: "relay_event \<Rightarrow> 's \<Rightarrow> (bytes list \<times> 's) option"
    and inp :: "'s \<Rightarrow> PacketRecvInterface" and out :: "'s \<Rightarrow> PacketPassInterface"
    and inv :: "'s \<Rightarrow> bytes list \<Rightarrow> bytes list \<Rightarrow> bool"
  assumes relay_step: "inv s rcv snt \<Longrightarrow> relay_enabled (inp s) (out s) ev \<Longrightarrow>
      \<exists>o' s'. event ev s = Some (o', s') \<and> inv s' (rcv @ received [ev]) (snt @ o')"
    and sent_prefix: "inv s rcv snt \<Longrightarrow> \<exists>rest. rcv = snt @ rest"
    and event_enabled: "inv s rcv snt \<Longrightarrow> \<exists>ev. relay_enabled (inp s) (out s) ev"

sublocale packet_relay \<subseteq> sys: event_system "\<lambda>s. relay_enabled (inp s) (out s)" event "\<lambda>s evs snt. inv s (received evs) snt"
proof
  show "\<exists>o' s'. event ev s = Some (o', s') \<and> inv s' (received (h @ [ev])) (snt @ o')"
    if "inv s (received h) snt" "relay_enabled (inp s) (out s) ev" for s h snt ev
    using relay_step [OF that] by simp
qed

context packet_relay
begin

lemma run_relays:
  "inv s [] [] \<Longrightarrow> relay_legal event inp out evs s \<Longrightarrow>
   \<exists>sent s'. relay_run event evs s = Some (sent, s') \<and> inv s' (received evs) sent"
  using sys.run_inv [of s evs] by simp

end

text \<open>
  Progress: every event pays for one step. A received packet and a packet handed over each bring four credits, and
  \<open>relay_work\<close> is the part of them that is not spent yet.
\<close>

fun relay_work :: "op_state \<Rightarrow> op_state \<Rightarrow> nat" where
  "relay_work i p =
     (case i of State_operation_pending \<Rightarrow> 1 | State_done_pending \<Rightarrow> 3 | _ \<Rightarrow> 0) +
     (case p of State_busy \<Rightarrow> 3 | State_done_pending \<Rightarrow> 2 | _ \<Rightarrow> 0)"

definition waits_for_source :: "PacketRecvInterface \<Rightarrow> PacketPassInterface \<Rightarrow> bool" where
  \<comment> \<open>no job is pending and the sink is idle: all that can happen is that the source delivers a packet\<close>
  "waits_for_source i p \<longleftrightarrow>
     \<not> pri_job_operation i \<and> \<not> pri_job_done i \<and> \<not> ppi_job_operation p \<and> \<not> ppi_job_done p \<and> ppi_state p \<noteq> State_busy"

locale live_relay = packet_relay +
  assumes relay_event_work: "event ev s = Some (o', s') \<Longrightarrow>
      relay_work (pri_state (inp s')) (ppi_state (out s')) + 1
      \<le> relay_work (pri_state (inp s)) (ppi_state (out s)) + 4 * length o' + 4 * length (received [ev])"
    and idle_delivered: "inv s rcv snt \<Longrightarrow> waits_for_source (inp s) (out s) \<Longrightarrow> snt = rcv"

sublocale live_relay \<subseteq> meter: metered_system "\<lambda>s. relay_enabled (inp s) (out s)" event "\<lambda>s evs snt. inv s (received evs) snt"
  "\<lambda>s. relay_work (pri_state (inp s)) (ppi_state (out s))" "\<lambda>ev. 4 * length (received [ev])" 4
  by unfold_locales (rule relay_event_work)

lemma received_credits: "(\<Sum>ev\<leftarrow>evs. 4 * length (received [ev])) = 4 * length (received evs)"
proof (induction evs)
  case (Cons ev evs)
  then show ?case by (cases ev) simp_all
qed simp

context live_relay
begin

lemma run_live:
  assumes inv: "inv s [] []" and legal: "relay_legal event inp out evs s"
  shows "\<exists>sent rest s'. relay_run event evs s = Some (sent, s') \<and> received evs = sent @ rest \<and>
     (\<exists>ev. relay_enabled (inp s') (out s') ev) \<and>
     length evs \<le> 8 * length (received evs) + relay_work (pri_state (inp s)) (ppi_state (out s)) \<and>
     (waits_for_source (inp s') (out s') \<longrightarrow> rest = [])"
proof -
  have inv': "inv s (received []) []" using inv by simp
  obtain sent s' where r: "relay_run event evs s = Some (sent, s')" "inv s' (received evs) sent"
    using run_relays [OF inv legal] by auto
  obtain rest where rest: "received evs = sent @ rest" using sent_prefix [OF r(2)] by auto
  have "length evs \<le> 8 * length (received evs) + relay_work (pri_state (inp s)) (ppi_state (out s))"
    using meter.run_work [OF inv' legal r(1)] rest unfolding received_credits by simp
  moreover have "rest = []" if "waits_for_source (inp s') (out s')" using idle_delivered [OF r(2) that] rest by simp
  ultimately show ?thesis using r(1) rest event_enabled [OF r(2)] by blast
qed

end

lemmas flow_defs = PacketRecvInterface_job_operation_def PacketRecvInterface_job_done_def PacketRecvInterface_Done_def
  PacketRecvInterface_Receiver_Recv_def PacketPassInterface_job_operation_def PacketPassInterface_job_done_def
  PacketPassInterface_Done_def PacketPassInterface_Sender_Send_def pri_inv_def ppi_inv_def

lemma flow_states:
  "PacketRecvInterface_Receiver_Recv i d = Some i' \<Longrightarrow> pri_state i = State_none \<and> pri_state i' = State_operation_pending"
  "PacketRecvInterface_job_operation i = Some i' \<Longrightarrow> pri_state i = State_operation_pending \<and> pri_state i' = State_busy"
  "PacketRecvInterface_Done i n = Some i' \<Longrightarrow> pri_state i = State_busy \<and> pri_state i' = State_done_pending"
  "PacketRecvInterface_job_done i = Some i' \<Longrightarrow> pri_state i = State_done_pending \<and> pri_state i' = State_none"
  "PacketPassInterface_Sender_Send p d n = Some p' \<Longrightarrow> ppi_state p = State_none \<and> ppi_state p' = State_operation_pending"
  "PacketPassInterface_job_operation p = Some p' \<Longrightarrow> ppi_state p = State_operation_pending \<and> ppi_state p' = State_busy"
  "PacketPassInterface_Done p = Some p' \<Longrightarrow> ppi_state p = State_busy \<and> ppi_state p' = State_done_pending"
  "PacketPassInterface_job_done p = Some p' \<Longrightarrow> ppi_state p = State_done_pending \<and> ppi_state p' = State_none"
  by (auto simp: flow_defs bind_Some_iff)

end
