(* ===== verification/Packet_Buffer.thy ===== *)
theory Packet_Buffer
  imports Chunk_Buffer Packet_Relay
begin

text \<open>
  The packet buffer between a receiving and a sending interface (\<open>flow/PacketBuffer.c\<close>): the operations of
  \<open>ChunkBuffer2\<close> refine a queue of packets, and the buffer, driven by the jobs of its two interfaces in any order, passes
  every packet on exactly once and in order.
\<close>

section \<open>Queue operations of the circular buffer\<close>

lemma update_input_used [simp]: "cb_used (ChunkBuffer2_update_input b) = cb_used b"
  by (simp add: ChunkBuffer2_update_input_def Let_def)

lemma Submit_eq:
  assumes "cb_input_dest b \<noteq> None" "0 \<le> len" "len \<le> cb_input_avail b" "ChunkBuffer2_assert_buffer b = Some ()"
    "ChunkBuffer2_assert_io e b = Some ()" "blocks_of len = k" "k \<le> cb_size b - ChunkBuffer2_end b - 1"
    "cb_used b < cb_wrap b - cb_start b \<or> k \<le> cb_start b - ChunkBuffer2_end b - 1"
    "set_block_len e (cb_buffer b) (ChunkBuffer2_end b) len = Some m"
    "ChunkBuffer2_assert_buffer (cb_appended b m k) = Some ()"
  shows "ChunkBuffer2_SubmitPacket e b len =
     do { b' \<leftarrow> (if cb_used b = 0 then ChunkBuffer2_update_output e (ChunkBuffer2_update_input (cb_appended b m k))
                else Some (ChunkBuffer2_update_input (cb_appended b m k)));
          ChunkBuffer2_assert_io e b'; Some b' }"
proof -
  let ?u = "b\<lparr>cb_buffer := m, cb_used := cb_used b + (1 + k)\<rparr>"
  have app: "(if cb_used ?u \<le> cb_wrap ?u - cb_start ?u \<and> cb_mtu ?u > cb_size ?u - (ChunkBuffer2_end b + 1 + k) - 1
     then ?u\<lparr>cb_wrap := ChunkBuffer2_end b + 1 + k\<rparr> else ?u) = cb_appended b m k"
    by (simp add: cb_appended_def Let_def)
  have used: "cb_used (cb_appended b m k) = 1 + k \<longleftrightarrow> cb_used b = 0" by (simp add: appended_fields)
  show ?thesis
    unfolding ChunkBuffer2_SubmitPacket_def Let_def assms(4-6,9) bind.bind_lunit app assms(10)
    using assms(1-3,7,8) by (simp add: used cong: if_cong)
qed

definition cb_holds :: "ChunkBuffer2 \<Rightarrow> bytes \<Rightarrow> bool" where
  \<comment> \<open>the bytes lie where the next packet goes\<close>
  "cb_holds b d \<longleftrightarrow> subbytes (cb_buffer b) (4 * nat (ChunkBuffer2_end b + 1)) (length d) = Some d"

lemma input_room:
  assumes r: "cb_rep e b ps" and len: "int (length d) \<le> cb_input_avail b"
  shows "cb_input_dest b = Some (4 * nat (ChunkBuffer2_end b + 1))"
    "1 + (int (length d) + 3) div 4 \<le> free_blocks b" "int (length d) \<le> INT_MAX"
    "4 * nat (ChunkBuffer2_end b + 1) + length d \<le> 4 * nat (ChunkBuffer2_end b + 1 + (int (length d) + 3) div 4)"
    "4 * nat (ChunkBuffer2_end b + 1 + (int (length d) + 3) div 4) \<le> length (cb_buffer b)"
    "4 * nat (ChunkBuffer2_end b + 1) = 4 * nat (ChunkBuffer2_end b) + 4"
proof -
  have c: "cb_core e b ps" using r by (simp add: cb_rep_def)
  note basic = core_basic [OF c] and free = core_free [OF c] and inp = rep_input [OF r]
  have f: "free_blocks b > 0" "int (length d) \<le> (free_blocks b - 1) * 4" using len inp(2) by (auto split: if_splits)
  then show "cb_input_dest b = Some (4 * nat (ChunkBuffer2_end b + 1))" using inp(1) by simp
  have "(int (length d) + 3) div 4 \<le> ((free_blocks b - 1) * 4 + 3) div 4" using f(2) by (intro zdiv_mono1) auto
  then show room: "1 + (int (length d) + 3) div 4 \<le> free_blocks b" by simp
  show "int (length d) \<le> INT_MAX" using f(2) free(1) basic(4) core_end(1) [OF c] by simp
  show "4 * nat (ChunkBuffer2_end b + 1) + length d \<le> 4 * nat (ChunkBuffer2_end b + 1 + (int (length d) + 3) div 4)"
    using core_end(1) [OF c] by linarith
  show "4 * nat (ChunkBuffer2_end b + 1 + (int (length d) + 3) div 4) \<le> length (cb_buffer b)"
    using free(1) room basic(3) core_end(1) [OF c] by linarith
  show "4 * nat (ChunkBuffer2_end b + 1) = 4 * nat (ChunkBuffer2_end b) + 4" using core_end(1) [OF c] by simp
qed

lemma Fill_rep:
  assumes r: "cb_rep e b ps" and len: "int (length d) \<le> cb_input_avail b"
  obtains m where "cb_fill b d = Some (b\<lparr>cb_buffer := m\<rparr>)" "cb_rep e (b\<lparr>cb_buffer := m\<rparr>) ps" "cb_holds (b\<lparr>cb_buffer := m\<rparr>) d"
proof -
  let ?fin = "ChunkBuffer2_end b"
  have c: "cb_core e b ps" using r by (simp add: cb_rep_def)
  note room = input_room [OF r len]
  obtain m where m: "overwrite (cb_buffer b) (4 * nat (?fin + 1)) d = Some m"
    using overwrite_total [OF order_trans [OF room(4,5)]] by blast
  have l: "length m = length (cb_buffer b)" by (rule overwrite_length [OF m])
  have c1: "cb_core e (b\<lparr>cb_buffer := m\<rparr>) ps"
  proof (rule core_frame [OF c l])
    fix k assume k: "k < 4 * nat ?fin \<or> 4 * nat (?fin + free_blocks b) \<le> k" "k < length m"
    show "m ! k = cb_buffer b ! k"
      by (rule overwrite_nth [OF m]) (use k l room core_end(1) [OF c] in linarith)+
  qed
  have same: "free_blocks (b\<lparr>cb_buffer := m\<rparr>) = free_blocks b" "ChunkBuffer2_end (b\<lparr>cb_buffer := m\<rparr>) = ?fin"
    by (simp_all add: free_blocks_def ChunkBuffer2_end_def)
  have "cb_rep e (b\<lparr>cb_buffer := m\<rparr>) ps"
    by (rule rep_intro [OF c1]) (use rep_input [OF r] rep_output [OF r] same in simp_all)
  moreover have "cb_fill b d = Some (b\<lparr>cb_buffer := m\<rparr>)" using m room(1) by (simp add: cb_fill_def)
  moreover have "cb_holds (b\<lparr>cb_buffer := m\<rparr>) d" using overwrite_same [OF m] by (simp add: cb_holds_def same)
  ultimately show thesis using that by blast
qed

lemma header_core:
  assumes r: "cb_rep e b ps" and len: "int (length d) \<le> cb_input_avail b" and holds: "cb_holds b d"
  obtains m where "overwrite (cb_buffer b) (4 * nat (ChunkBuffer2_end b)) (mem32 e (word_of_nat (length d))) = Some m"
    "cb_core e (cb_appended b m ((int (length d) + 3) div 4)) (ps @ [d])"
proof -
  let ?fin = "ChunkBuffer2_end b" and ?blk = "(int (length d) + 3) div 4"
  have c: "cb_core e b ps" using r by (simp add: cb_rep_def)
  note room = input_room [OF r len]
  have hdr: "4 * nat ?fin + length (mem32 e (word_of_nat (length d))) \<le> length (cb_buffer b)"
    using room(4-6) by simp
  obtain m where m: "overwrite (cb_buffer b) (4 * nat ?fin) (mem32 e (word_of_nat (length d))) = Some m"
    using overwrite_total [OF hdr] by blast
  have l: "length m = length (cb_buffer b)" by (rule overwrite_length [OF m])
  have "cb_core e (cb_appended b m ?blk) (ps @ [d])"
  proof (rule core_appended [OF c room(3,2) _ _ l])
    show "subbytes m (4 * nat ?fin) 4 = Some (mem32 e (word_of_nat (length d)))" using overwrite_same [OF m] by simp
    have "subbytes m (4 * nat (?fin + 1)) (length d) = subbytes (cb_buffer b) (4 * nat (?fin + 1)) (length d)"
    proof (rule subbytes_agree [OF l, of "?fin + 1" "?fin + 1 + ?blk"])
      fix k assume "4 * nat (?fin + 1) \<le> k" "k < 4 * nat (?fin + 1 + ?blk)"
      then show "m ! k = cb_buffer b ! k" using overwrite_nth [OF m, of k] room(5,6) by simp
    qed (use room(4) in simp_all)
    then show "subbytes m (4 * nat (?fin + 1)) (length d) = Some d" using holds by (simp add: cb_holds_def)
    fix k assume "k < 4 * nat ?fin \<or> 4 * nat (?fin + 1 + ?blk) \<le> k" "k < length m"
    then show "m ! k = cb_buffer b ! k" using overwrite_nth [OF m, of k] room(4,6) l by auto
  qed
  then show thesis using that m by blast
qed

lemma Submit_rep:
  assumes r: "cb_rep e b ps" and len: "int (length d) \<le> cb_input_avail b" and holds: "cb_holds b d"
  obtains b' where "ChunkBuffer2_SubmitPacket e b (int (length d)) = Some b'"
    "cb_rep e b' (ps @ [d])" "cb_size b' = cb_size b" "cb_mtu b' = cb_mtu b" "cb_start b' = cb_start b"
proof -
  let ?blk = "(int (length d) + 3) div 4" and ?fin = "ChunkBuffer2_end b"
  have c: "cb_core e b ps" using r by (simp add: cb_rep_def)
  note room = input_room [OF r len] and out = rep_output [OF r]
  obtain m where m: "overwrite (cb_buffer b) (4 * nat ?fin) (mem32 e (word_of_nat (length d))) = Some m"
      "cb_core e (cb_appended b m ?blk) (ps @ [d])"
    by (rule header_core [OF assms])
  let ?b2 = "cb_appended b m ?blk"
  have used: "cb_used b = 0 \<longleftrightarrow> ps = []" using core_used [OF c] core_basic(8) [OF c] by auto
  have guard: "cb_used b < cb_wrap b - cb_start b \<or> ?blk \<le> cb_start b - ?fin - 1" "?blk \<le> cb_size b - ?fin - 1"
    using room(2) core_free(1) [OF c] by (auto simp: free_blocks_def split: if_splits)
  have "ChunkBuffer2_SubmitPacket e b (int (length d)) =
     do { b' \<leftarrow> (if cb_used b = 0 then ChunkBuffer2_update_output e (ChunkBuffer2_update_input ?b2) else Some (ChunkBuffer2_update_input ?b2));
          ChunkBuffer2_assert_io e b'; Some b' }"
    by (rule Submit_eq)
      (use len guard m(1) core_assert_buffer [OF c] core_assert_buffer [OF m(2)] rep_assert_io [OF r] core_end(1) [OF c] room(1,3)
        in \<open>simp_all add: blocks_of_eq set_block_len_def\<close>)
  moreover obtain b3 where b3: "(if ps = [] then ChunkBuffer2_update_output e (ChunkBuffer2_update_input ?b2)
        else Some (ChunkBuffer2_update_input ?b2)) = Some b3"
      "cb_rep e b3 (ps @ [d])" "cb_size b3 = cb_size b" "cb_mtu b3 = cb_mtu b" "cb_start b3 = cb_start b"
  proof (cases "ps = []")
    case True
    show thesis by (rule rep_after_updates [OF m(2)]) (use True that in \<open>simp add: appended_fields\<close>)
  next
    case False
    have "cb_rep e (ChunkBuffer2_update_input ?b2) (ps @ [d])"
      by (rule rep_intro [OF core_update_input(1) [OF m(2)]])
        (use False out in \<open>simp_all add: update_input_sets [OF m(2)] appended_fields\<close>)
    then show thesis using False that by (simp add: update_input_sets [OF m(2)] appended_fields)
  qed
  ultimately have "ChunkBuffer2_SubmitPacket e b (int (length d)) = Some b3"
    using rep_assert_io [OF b3(2)] used by (simp cong: if_cong)
  then show thesis using that b3(2-5) by blast
qed

lemma input_only:
  "cb_buffer (ChunkBuffer2_update_input b) = cb_buffer b" "ChunkBuffer2_end (ChunkBuffer2_update_input b) = ChunkBuffer2_end b"
  "free_blocks (ChunkBuffer2_update_input b) = free_blocks b"
  by (simp_all add: ChunkBuffer2_update_input_def Let_def)

lemma output_only:
  assumes "ChunkBuffer2_update_output e b = Some b'"
  shows "cb_buffer b' = cb_buffer b" "ChunkBuffer2_end b' = ChunkBuffer2_end b" "free_blocks b' = free_blocks b"
  using assms by (auto simp: ChunkBuffer2_update_output_def bind_Some_iff split: if_splits)

lemma dropped_end:
  assumes c: "cb_core e b (p # ps)"
  shows "ChunkBuffer2_end (cb_dropped b ((int (length p) + 3) div 4)) = ChunkBuffer2_end b"
    "free_blocks b \<le> free_blocks (cb_dropped b ((int (length p) + 3) div 4))"
proof -
  note basic = core_basic [OF c] and first = core_first(4,5) [OF c]
  have blk: "0 \<le> (int (length p) + 3) div 4" by simp
  have "ChunkBuffer2_end (cb_dropped b k) = ChunkBuffer2_end b \<and> free_blocks b \<le> free_blocks (cb_dropped b k)"
    if k: "k = (int (length p) + 3) div 4" for k
  proof (cases "cb_used b < cb_wrap b - cb_start b")
    case True
    then show ?thesis using basic first core_plain(1) [OF c True] k
      by (simp add: cb_dropped_def Let_def free_blocks_def ChunkBuffer2_end_def)
  next
    case False
    have "cb_used b \<le> cb_wrap b" by (rule core_wrapped [OF c False])
    moreover have "0 \<le> k" using k blk by simp
    ultimately show ?thesis using False basic first core_end(3) [OF c False] unfolding k [symmetric]
      by (simp add: cb_dropped_def Let_def free_blocks_def ChunkBuffer2_end_def)
  qed
  then show "ChunkBuffer2_end (cb_dropped b ((int (length p) + 3) div 4)) = ChunkBuffer2_end b"
    "free_blocks b \<le> free_blocks (cb_dropped b ((int (length p) + 3) div 4))" by blast+
qed

lemma Consume_rep:
  assumes r: "cb_rep e b (p # ps)"
  obtains b' where "cb_packet b = Some p" "ChunkBuffer2_ConsumePacket e b = Some b'" "cb_rep e b' ps"
    "cb_size b' = cb_size b" "cb_mtu b' = cb_mtu b" "cb_buffer b' = cb_buffer b" "ChunkBuffer2_end b' = ChunkBuffer2_end b"
    "free_blocks b \<le> free_blocks b'"
proof -
  let ?blk = "(int (length p) + 3) div 4"
  have c: "cb_core e b (p # ps)" using r by (simp add: cb_rep_def)
  note basic = core_basic [OF c] and first = core_first [OF c] and inp = rep_input [OF r] and out = rep_output [OF r]
  have c1: "cb_core e (cb_dropped b ?blk) ps" by (rule core_dropped [OF c])
  have packet: "cb_packet b = Some p" using out first(3) by (simp add: cb_packet_def)
  note moved = dropped_end [OF c]
  have plain: "free_blocks (cb_dropped b ?blk) = free_blocks b \<and> ChunkBuffer2_end (cb_dropped b ?blk) = ChunkBuffer2_end b"
    if "\<not> cb_used b \<ge> cb_wrap b - cb_start b"
    using that first(4,5) core_plain(1) [OF c]
    by (simp add: free_blocks_def ChunkBuffer2_end_def cb_dropped_def Let_def)
  let ?b1 = "if cb_used b \<ge> cb_wrap b - cb_start b then ChunkBuffer2_update_input (cb_dropped b ?blk) else cb_dropped b ?blk"
  obtain b2 where b2: "ChunkBuffer2_update_output e ?b1 = Some b2" "cb_rep e b2 ps" "cb_size b2 = cb_size b" "cb_mtu b2 = cb_mtu b"
  proof (cases "cb_used b \<ge> cb_wrap b - cb_start b")
    case True
    show thesis by (rule rep_after_updates [OF c1]) (use True that in \<open>simp add: dropped_fields\<close>)
  next
    case False
    let ?b2 = "(cb_dropped b ?blk)\<lparr>
       cb_output_dest := (if ps = [] then None else Some (4 * nat (cb_start (cb_dropped b ?blk) + 1))),
       cb_output_avail := (if ps = [] then -1 else int (length (hd ps)))\<rparr>"
    have "cb_input_dest (cb_dropped b ?blk) = cb_input_dest b" "cb_input_avail (cb_dropped b ?blk) = cb_input_avail b"
      by (simp_all add: cb_dropped_def Let_def)
    then have "cb_rep e ?b2 ps" by (intro rep_intro) (use c1 inp plain [OF False] in simp_all)
    then show thesis using that [of ?b2] False update_output_sets [OF c1] by (simp add: dropped_fields)
  qed
  have "ChunkBuffer2_ConsumePacket e b = do { b' \<leftarrow> ChunkBuffer2_update_output e ?b1; ChunkBuffer2_assert_io e b'; Some b' }"
    using out core_assert_buffer [OF c] core_assert_buffer [OF c1] rep_assert_io [OF r] first basic core_used [OF c]
    by (simp add: ChunkBuffer2_ConsumePacket_def blocks_of_eq Let_def cb_dropped_def cong: if_cong)
  then have eq: "ChunkBuffer2_ConsumePacket e b = Some b2" using b2(1) rep_assert_io [OF b2(2)] by simp
  have "cb_buffer b2 = cb_buffer b" "ChunkBuffer2_end b2 = ChunkBuffer2_end b" "free_blocks b \<le> free_blocks b2"
    using output_only [OF b2(1)] input_only [of "cb_dropped b ?blk"] moved by (auto simp: cb_dropped_def Let_def split: if_splits)
  then show thesis using that packet b2 eq by blast
qed

section \<open>Capacity\<close>

lemma packets_at_span:
  assumes "packets_at e m lim i ps j" "\<forall>p \<in> set ps. (int (length p) + 3) div 4 \<le> k"
  shows "j - i \<le> int (length ps) * (1 + k)"
  using assms
proof (induction ps arbitrary: i)
  case (Cons p ps)
  then have "j - (i + 1 + (int (length p) + 3) div 4) \<le> int (length ps) * (1 + k)" "(int (length p) + 3) div 4 \<le> k" by simp_all
  then show ?case by (simp add: algebra_simps)
qed simp

lemma capacity:
  assumes r: "cb_rep e b ps" and size: "cb_size b = (1 + cb_mtu b) * (num + 1)"
    and small: "\<forall>p \<in> set ps. (int (length p) + 3) div 4 \<le> cb_mtu b" and num: "int (length ps) < num"
  shows "4 * cb_mtu b \<le> cb_input_avail b"
proof -
  have c: "cb_core e b ps" using r by (simp add: cb_rep_def)
  note basic = core_basic [OF c]
  have "1 + cb_mtu b \<le> free_blocks b"
  proof (cases "cb_used b < cb_wrap b - cb_start b")
    case True
    then show ?thesis using core_plain(2) [OF c True] by (simp add: free_blocks_def ChunkBuffer2_end_def)
  next
    case False
    let ?k = "1 + cb_mtu b"
    from core_wrapped [OF c False] obtain p ps1 ps2 where w: "ps = p # ps1 @ ps2" "cb_size b - cb_mtu b - 1 < cb_wrap b"
      "packets_at e (cb_buffer b) (cb_size b - cb_mtu b - 1) (cb_start b) (p # ps1) (cb_wrap b)"
      "packets_at e (cb_buffer b) (cb_size b - cb_mtu b - 1) 0 ps2 (cb_used b - (cb_wrap b - cb_start b))" by metis
    have "cb_used b \<le> int (length ps) * ?k"
      using packets_at_span [OF w(3), of "cb_mtu b"] packets_at_span [OF w(4), of "cb_mtu b"] small w(1) by (simp add: algebra_simps)
    also have "\<dots> \<le> (num - 1) * ?k" using num basic(1) by (intro mult_right_mono) auto
    also have "\<dots> = cb_size b - 2 * ?k" by (simp add: size algebra_simps)
    finally have "?k \<le> cb_wrap b - cb_used b" using w(2) by simp
    moreover have "free_blocks b = cb_wrap b - cb_used b" using False by (simp add: free_blocks_def ChunkBuffer2_end_def)
    ultimately show ?thesis by simp
  qed
  then show ?thesis using rep_input(2) [OF r] basic(1) by simp
qed

lemma int_div_less: "(0::int) < n \<Longrightarrow> M div n < c \<longleftrightarrow> M < c * n"
  by (smt (verit) div_mult_mod_eq mult_left_mono pos_mod_sign pos_mod_bound mult.commute nonzero_mult_div_cancel_left zdiv_mono1)

lemma calc_blocks_eq:
  assumes "0 \<le> mtu" "mtu \<le> INT_MAX" "0 < num"
  shows "ChunkBuffer2_calc_blocks mtu num =
     (if (1 + (mtu + 3) div 4) * (num + 1) \<le> INT_MAX then (1 + (mtu + 3) div 4) * (num + 1) else -1)"
proof -
  let ?c = "1 + (mtu + 3) div 4"
  have c: "1 \<le> ?c" "(mtu + 3) div 4 \<le> INT_MAX - 1" using assms by linarith+
  have big: "INT_MAX < ?c * (num + 1)" if "num > INT_MAX - 1"
  proof -
    have "INT_MAX < 1 * (num + 1)" using that by simp
    also have "\<dots> \<le> ?c * (num + 1)" using c(1) assms(3) by (intro mult_right_mono) auto
    finally show ?thesis .
  qed
  have "?c > INT_MAX div (num + 1) \<longleftrightarrow> ?c * (num + 1) > INT_MAX" using assms(3) by (intro int_div_less) simp
  then show ?thesis using c big assms by (auto simp: ChunkBuffer2_calc_blocks_def Let_def blocks_of_eq)
qed

section \<open>PacketBuffer\<close>

record PacketBuffer =
  pb_input :: PacketRecvInterface
  pb_output :: PacketPassInterface
  pb_input_mtu :: int
  pb_buf :: ChunkBuffer2

definition PacketBuffer_Init ::
  "endian \<Rightarrow> PacketRecvInterface \<Rightarrow> PacketPassInterface \<Rightarrow> int \<Rightarrow> (u64 \<Rightarrow> bytes option) \<Rightarrow> PacketBuffer option option" where
  \<comment> \<open>\<open>malloc\<close> returns memory of the size it is asked for, or \<open>NULL\<close>; the inner \<^term>\<open>None\<close> is the result 0\<close>
  "PacketBuffer_Init e input output num_packets malloc =
     do { cassert (ppi_mtu output \<ge> pri_mtu input);
          cassert (num_packets > 0);
          input \<leftarrow> PacketRecvInterface_Receiver_Init input;
          output \<leftarrow> PacketPassInterface_Sender_Init output;
          (let num_blocks = ChunkBuffer2_calc_blocks (pri_mtu input) num_packets in
           if num_blocks < 0 then Some None
           else (case Option.bind (BAllocArray (word_of_int num_blocks) 4) malloc of
                   None \<Rightarrow> Some None
                 | Some buf_data \<Rightarrow>
                     do { buf \<leftarrow> ChunkBuffer2_Init e buf_data num_blocks (pri_mtu input);
                          mtu \<leftarrow> Some (pri_mtu input);
                          input \<leftarrow> PacketRecvInterface_Receiver_Recv input (cb_input_dest buf);
                          Some (Some \<lparr>pb_input = input, pb_output = output, pb_input_mtu = mtu, pb_buf = buf\<rparr>) })) }"

definition PacketBuffer_input_handler_done :: "endian \<Rightarrow> PacketBuffer \<Rightarrow> int \<Rightarrow> PacketBuffer option" where
  "PacketBuffer_input_handler_done e pb in_len =
     do { cassert (in_len \<ge> 0);
          cassert (in_len \<le> pb_input_mtu pb);
          was_empty \<leftarrow> Some (cb_output_avail (pb_buf pb) < 0);
          buf \<leftarrow> ChunkBuffer2_SubmitPacket e (pb_buf pb) in_len;
          pb \<leftarrow> Some (pb\<lparr>pb_buf := buf\<rparr>);
          pb \<leftarrow> (if cb_input_avail buf \<ge> pb_input_mtu pb
                then do { i \<leftarrow> PacketRecvInterface_Receiver_Recv (pb_input pb) (cb_input_dest buf); Some (pb\<lparr>pb_input := i\<rparr>) }
                else Some pb);
          if was_empty
          then do { i \<leftarrow> PacketPassInterface_Sender_Send (pb_output pb) (cb_output_dest buf) (cb_output_avail buf);
                    Some (pb\<lparr>pb_output := i\<rparr>) }
          else Some pb }"

definition PacketBuffer_output_handler_done :: "endian \<Rightarrow> PacketBuffer \<Rightarrow> PacketBuffer option" where
  "PacketBuffer_output_handler_done e pb =
     do { was_full \<leftarrow> Some (cb_input_avail (pb_buf pb) < pb_input_mtu pb);
          buf \<leftarrow> ChunkBuffer2_ConsumePacket e (pb_buf pb);
          pb \<leftarrow> Some (pb\<lparr>pb_buf := buf\<rparr>);
          pb \<leftarrow> (if was_full \<and> cb_input_avail buf \<ge> pb_input_mtu pb
                then do { i \<leftarrow> PacketRecvInterface_Receiver_Recv (pb_input pb) (cb_input_dest buf); Some (pb\<lparr>pb_input := i\<rparr>) }
                else Some pb);
          if cb_output_avail buf \<ge> 0
          then do { i \<leftarrow> PacketPassInterface_Sender_Send (pb_output pb) (cb_output_dest buf) (cb_output_avail buf);
                    Some (pb\<lparr>pb_output := i\<rparr>) }
          else Some pb }"

section \<open>The buffer between its two interfaces\<close>

definition PacketBuffer_event :: "endian \<Rightarrow> relay_event \<Rightarrow> PacketBuffer \<Rightarrow> (bytes list \<times> PacketBuffer) option" where
  \<comment> \<open>the packets handed to the output provider, and the new state\<close>
  "PacketBuffer_event e ev pb =
     (case ev of
        In_operation \<Rightarrow> do { i \<leftarrow> PacketRecvInterface_job_operation (pb_input pb); Some ([], pb\<lparr>pb_input := i\<rparr>) }
      | In_complete d \<Rightarrow>
          do { p \<leftarrow> pri_data (pb_input pb);
               m \<leftarrow> overwrite (cb_buffer (pb_buf pb)) p d;
               i \<leftarrow> PacketRecvInterface_Done (pb_input pb) (int (length d));
               Some ([], pb\<lparr>pb_buf := (pb_buf pb)\<lparr>cb_buffer := m\<rparr>, pb_input := i\<rparr>) }
      | In_done \<Rightarrow>
          do { i \<leftarrow> PacketRecvInterface_job_done (pb_input pb);
               pb \<leftarrow> PacketBuffer_input_handler_done e (pb\<lparr>pb_input := i\<rparr>) (pri_done_len i);
               Some ([], pb) }
      | Out_operation \<Rightarrow>
          do { i \<leftarrow> PacketPassInterface_job_operation (pb_output pb);
               p \<leftarrow> ppi_data i;
               d \<leftarrow> subbytes (cb_buffer (pb_buf pb)) p (nat (ppi_len i));
               Some ([d], pb\<lparr>pb_output := i\<rparr>) }
      | Out_complete \<Rightarrow> do { i \<leftarrow> PacketPassInterface_Done (pb_output pb); Some ([], pb\<lparr>pb_output := i\<rparr>) }
      | Out_done \<Rightarrow>
          do { i \<leftarrow> PacketPassInterface_job_done (pb_output pb);
               pb \<leftarrow> PacketBuffer_output_handler_done e (pb\<lparr>pb_output := i\<rparr>);
               Some ([], pb) })"

section \<open>PacketBuffer relays packets\<close>

definition in_ok :: "int \<Rightarrow> PacketRecvInterface \<Rightarrow> ChunkBuffer2 \<Rightarrow> bytes list \<Rightarrow> bool" where
  \<comment> \<open>a receive is under way exactly if there is room for a packet; \<open>ds\<close> is written but not yet submitted\<close>
  "in_ok mtu i b ds \<longleftrightarrow>
     pri_mtu i = mtu \<and> pri_done_handler i \<and> pri_inv i \<and>
     (pri_state i = State_none \<longleftrightarrow> cb_input_avail b < mtu) \<and>
     (pri_state i \<noteq> State_none \<longrightarrow> pri_data i = cb_input_dest b) \<and>
     (if pri_state i = State_done_pending then \<exists>d. ds = [d] \<and> cb_holds b d \<and> pri_done_len i = int (length d) else ds = [])"

definition out_ok :: "int \<Rightarrow> PacketPassInterface \<Rightarrow> ChunkBuffer2 \<Rightarrow> bytes list \<Rightarrow> bool" where
  \<comment> \<open>the first packet of the queue is being sent\<close>
  "out_ok mtu i b ps \<longleftrightarrow>
     mtu \<le> ppi_mtu i \<and> ppi_done_handler i \<and> ppi_inv i \<and> (ppi_state i = State_none \<longleftrightarrow> ps = []) \<and>
     (ps \<noteq> [] \<longrightarrow> ppi_data i = cb_output_dest b \<and> ppi_len i = int (length (hd ps)))"

definition buf_ok :: "endian \<Rightarrow> int \<Rightarrow> int \<Rightarrow> ChunkBuffer2 \<Rightarrow> bytes list \<Rightarrow> bool" where
  "buf_ok e mtu num b ps \<longleftrightarrow>
     cb_rep e b ps \<and> (\<forall>p \<in> set ps. int (length p) \<le> mtu) \<and> 0 \<le> mtu \<and> 0 < num \<and>
     cb_mtu b = (mtu + 3) div 4 \<and> cb_size b = (1 + (mtu + 3) div 4) * (num + 1)"

definition pb_ok :: "endian \<Rightarrow> int \<Rightarrow> int \<Rightarrow> PacketBuffer \<Rightarrow> bytes list \<Rightarrow> bytes list \<Rightarrow> bool" where
  "pb_ok e mtu num pb ps ds \<longleftrightarrow>
     pb_input_mtu pb = mtu \<and> buf_ok e mtu num (pb_buf pb) ps \<and>
     in_ok mtu (pb_input pb) (pb_buf pb) ds \<and> out_ok mtu (pb_output pb) (pb_buf pb) ps"

definition handed_over :: "PacketPassInterface \<Rightarrow> bytes list \<Rightarrow> bytes list" where
  "handed_over i ps = (if ppi_state i = State_busy \<or> ppi_state i = State_done_pending then [hd ps] else [])"

definition pb_inv :: "endian \<Rightarrow> int \<Rightarrow> int \<Rightarrow> PacketBuffer \<Rightarrow> bytes list \<Rightarrow> bytes list \<Rightarrow> bool" where
  "pb_inv e mtu num pb rcv snt \<longleftrightarrow>
     (\<exists>taken ps ds. pb_ok e mtu num pb ps ds \<and> rcv = taken @ ps @ ds \<and> snt = taken @ handed_over (pb_output pb) ps)"

lemma recv_if_room:
  assumes "cb_rep e b ps" "0 \<le> mtu" "pri_mtu i = mtu" "pri_done_handler i" "pri_inv i" "pri_state i = State_none"
  obtains i' where "(if cb_input_avail b \<ge> mtu then PacketRecvInterface_Receiver_Recv i (cb_input_dest b) else Some i) = Some i'"
    "in_ok mtu i' b []"
proof (cases "cb_input_avail b \<ge> mtu")
  case True
  then have "cb_input_dest b \<noteq> None" using rep_input [OF assms(1)] assms(2) by (auto split: if_splits)
  then show thesis using True assms that by (auto simp: in_ok_def flow_defs)
next
  case False
  then show thesis using assms that by (auto simp: in_ok_def)
qed

lemma send_first:
  assumes "cb_rep e b ps" "ps \<noteq> []" "int (length (hd ps)) \<le> mtu" "mtu \<le> ppi_mtu i" "ppi_done_handler i" "ppi_inv i" "ppi_state i = State_none"
  obtains i' where "PacketPassInterface_Sender_Send i (cb_output_dest b) (cb_output_avail b) = Some i'" "out_ok mtu i' b ps"
    "handed_over i' ps = []"
  using assms that rep_output [OF assms(1)] by (auto simp: out_ok_def flow_defs handed_over_def)

lemma pb_in_operation:
  assumes "pb_ok e mtu num pb ps ds" "pri_job_operation (pb_input pb)"
  shows "\<exists>i. PacketBuffer_event e In_operation pb = Some ([], pb\<lparr>pb_input := i\<rparr>) \<and> pb_ok e mtu num (pb\<lparr>pb_input := i\<rparr>) ps ds"
  using assms
  by (intro exI [of _ "(pb_input pb)\<lparr>pri_job_operation := False, pri_state := State_busy\<rparr>"])
    (auto simp: pb_ok_def in_ok_def PacketBuffer_event_def flow_defs)

lemma pb_in_complete:
  assumes ok: "pb_ok e mtu num pb ps ds" and st: "pri_state (pb_input pb) = State_busy" and len: "int (length d) \<le> mtu"
  shows "\<exists>pb'. ds = [] \<and> PacketBuffer_event e (In_complete d) pb = Some ([], pb') \<and> pb_ok e mtu num pb' ps [d] \<and> pb_output pb' = pb_output pb"
proof -
  let ?i = "pb_input pb" and ?b = "pb_buf pb"
  have inp: "in_ok mtu ?i ?b ds" and r: "cb_rep e ?b ps" using ok by (simp_all add: pb_ok_def buf_ok_def)
  then have i: "mtu \<le> cb_input_avail ?b" "pri_data ?i = cb_input_dest ?b" "ds = []" "pri_mtu ?i = mtu" using st by (auto simp: in_ok_def)
  obtain m where m: "cb_fill ?b d = Some (?b\<lparr>cb_buffer := m\<rparr>)" "cb_rep e (?b\<lparr>cb_buffer := m\<rparr>) ps" "cb_holds (?b\<lparr>cb_buffer := m\<rparr>) d"
    by (rule Fill_rep [OF r order_trans [OF len i(1)]])
  obtain p m' where p: "cb_input_dest ?b = Some p" "overwrite (cb_buffer ?b) p d = Some m'" "?b\<lparr>cb_buffer := m'\<rparr> = ?b\<lparr>cb_buffer := m\<rparr>"
    using m(1) by (auto simp: cb_fill_def bind_Some_iff)
  let ?i' = "?i\<lparr>pri_done_len := int (length d), pri_job_done := True, pri_state := State_done_pending\<rparr>"
  let ?pb = "pb\<lparr>pb_buf := ?b\<lparr>cb_buffer := m\<rparr>, pb_input := ?i'\<rparr>"
  have "PacketBuffer_event e (In_complete d) pb = Some ([], ?pb)"
    using p i len st by (simp add: PacketBuffer_event_def flow_defs)
  moreover have "in_ok mtu ?i' (?b\<lparr>cb_buffer := m\<rparr>) [d]" using inp st len m(3) by (auto simp: in_ok_def pri_inv_def)
  then have "pb_ok e mtu num ?pb ps [d]" using ok m(2) by (simp add: pb_ok_def buf_ok_def out_ok_def)
  ultimately show ?thesis using i(3) by simp
qed

lemma pb_in_done:
  assumes ok: "pb_ok e mtu num pb ps ds" and job: "pri_job_done (pb_input pb)"
  shows "\<exists>d pb'. ds = [d] \<and> PacketBuffer_event e In_done pb = Some ([], pb') \<and> pb_ok e mtu num pb' (ps @ [d]) [] \<and>
     handed_over (pb_output pb') (ps @ [d]) = handed_over (pb_output pb) ps"
proof -
  let ?i = "pb_input pb" and ?b = "pb_buf pb" and ?o = "pb_output pb"
  have buf: "buf_ok e mtu num ?b ps" and inp: "in_ok mtu ?i ?b ds" and out: "out_ok mtu ?o ?b ps" and mtu: "pb_input_mtu pb = mtu"
    using ok by (simp_all add: pb_ok_def)
  have r: "cb_rep e ?b ps" and pos: "0 \<le> mtu" using buf by (simp_all add: buf_ok_def)
  obtain d where d: "ds = [d]" "cb_holds ?b d" "pri_done_len ?i = int (length d)" and st: "pri_state ?i = State_done_pending"
      "pri_done_len ?i \<le> mtu" "mtu \<le> cb_input_avail ?b"
    using inp job by (auto simp: in_ok_def pri_inv_def split: if_splits)
  have len: "int (length d) \<le> mtu" using d(3) st(2) by simp
  obtain b' where b': "ChunkBuffer2_SubmitPacket e ?b (int (length d)) = Some b'" "cb_rep e b' (ps @ [d])"
      "cb_size b' = cb_size ?b" "cb_mtu b' = cb_mtu ?b" "cb_start b' = cb_start ?b"
    by (rule Submit_rep [OF r order_trans [OF len st(3)] d(2)])
  have buf': "buf_ok e mtu num b' (ps @ [d])" using buf b' len by (auto simp: buf_ok_def)
  let ?fin = "?i\<lparr>pri_job_done := False, pri_state := State_none\<rparr>"
  obtain i' where i': "(if cb_input_avail b' \<ge> mtu then PacketRecvInterface_Receiver_Recv ?fin (cb_input_dest b') else Some ?fin) = Some i'"
      "in_ok mtu i' b' []"
    by (rule recv_if_room [OF b'(2) pos, of ?fin]) (use inp st in \<open>auto simp: in_ok_def pri_inv_def\<close>)
  obtain o' where o': "(if ps = [] then PacketPassInterface_Sender_Send ?o (cb_output_dest b') (cb_output_avail b') else Some ?o) = Some o'"
      "out_ok mtu o' b' (ps @ [d])" "handed_over o' (ps @ [d]) = handed_over ?o ps"
  proof (cases "ps = []")
    case True
    then have "ppi_state ?o = State_none" using out by (simp add: out_ok_def)
    moreover from this have "handed_over ?o ps = []" by (simp add: handed_over_def)
    moreover obtain o' where "PacketPassInterface_Sender_Send ?o (cb_output_dest b') (cb_output_avail b') = Some o'"
        "out_ok mtu o' b' (ps @ [d])" "handed_over o' (ps @ [d]) = []"
      by (rule send_first [OF b'(2), of mtu ?o]) (use True out len calculation in \<open>simp_all add: out_ok_def\<close>)
    ultimately show thesis using that True by simp
  next
    case False
    then show thesis using out rep_output(1) [OF r] rep_output(1) [OF b'(2)] b'(5)
      by (intro that [of ?o]) (auto simp: out_ok_def handed_over_def)
  qed
  have empty: "cb_output_avail ?b < 0 \<longleftrightarrow> ps = []" using rep_output(2) [OF r] by simp
  let ?pb = "pb\<lparr>pb_input := i', pb_buf := b', pb_output := o'\<rparr>"
  have "PacketBuffer_event e In_done pb = Some ([], ?pb)"
    using st(1,2) d(3) b'(1) i'(1) o'(1) empty mtu
    by (cases "mtu \<le> cb_input_avail b'"; cases "ps = []")
      (auto simp: PacketBuffer_event_def PacketBuffer_input_handler_done_def PacketRecvInterface_job_done_def)
  moreover have "pb_ok e mtu num ?pb (ps @ [d]) []" using buf' i'(2) o'(2) mtu by (simp add: pb_ok_def)
  ultimately show ?thesis using d(1) o'(3) by auto
qed

lemma pb_out_operation:
  assumes ok: "pb_ok e mtu num pb ps ds" and job: "ppi_job_operation (pb_output pb)"
  shows "\<exists>pb'. PacketBuffer_event e Out_operation pb = Some ([hd ps], pb') \<and> pb_ok e mtu num pb' ps ds \<and>
     handed_over (pb_output pb) ps = [] \<and> handed_over (pb_output pb') ps = [hd ps]"
proof -
  let ?o = "pb_output pb" and ?b = "pb_buf pb"
  have out: "out_ok mtu ?o ?b ps" and r: "cb_rep e ?b ps" using ok by (simp_all add: pb_ok_def buf_ok_def)
  have st: "ppi_state ?o = State_operation_pending" using out job by (auto simp: out_ok_def ppi_inv_def)
  then obtain p qs where ps: "ps = p # qs" using out by (cases ps) (auto simp: out_ok_def)
  have "cb_packet ?b = Some p" using r unfolding ps by (rule Consume_rep)
  then obtain a where a: "ppi_data ?o = Some a" "subbytes (cb_buffer ?b) a (length p) = Some p" "ppi_len ?o = int (length p)"
    using out ps rep_output(2) [OF r] by (auto simp: cb_packet_def bind_Some_iff out_ok_def)
  let ?o' = "?o\<lparr>ppi_job_operation := False, ppi_state := State_busy\<rparr>"
  have "PacketBuffer_event e Out_operation pb = Some ([p], pb\<lparr>pb_output := ?o'\<rparr>)"
    using a st by (simp add: PacketBuffer_event_def PacketPassInterface_job_operation_def)
  moreover have "out_ok mtu ?o' ?b ps" using out st ps by (simp add: out_ok_def ppi_inv_def)
  ultimately show ?thesis using ok ps st by (simp add: pb_ok_def handed_over_def)
qed

lemma pb_out_complete:
  assumes "pb_ok e mtu num pb ps ds" "ppi_state (pb_output pb) = State_busy"
  shows "\<exists>pb'. PacketBuffer_event e Out_complete pb = Some ([], pb') \<and> pb_ok e mtu num pb' ps ds \<and>
     handed_over (pb_output pb') ps = handed_over (pb_output pb) ps"
  using assms
  by (intro exI [of _ "pb\<lparr>pb_output := (pb_output pb)\<lparr>ppi_job_requestcancel := False, ppi_job_done := True, ppi_state := State_done_pending\<rparr>\<rparr>"])
    (auto simp: PacketBuffer_event_def pb_ok_def out_ok_def flow_defs handed_over_def)

lemma pb_out_done:
  assumes ok: "pb_ok e mtu num pb ps ds" and job: "ppi_job_done (pb_output pb)"
  shows "\<exists>p qs pb'. ps = p # qs \<and> PacketBuffer_event e Out_done pb = Some ([], pb') \<and> pb_ok e mtu num pb' qs ds \<and>
     handed_over (pb_output pb) ps = [p] \<and> handed_over (pb_output pb') qs = []"
proof -
  let ?i = "pb_input pb" and ?b = "pb_buf pb" and ?o = "pb_output pb"
  have buf: "buf_ok e mtu num ?b ps" and inp: "in_ok mtu ?i ?b ds" and out: "out_ok mtu ?o ?b ps" and mtu: "pb_input_mtu pb = mtu"
    using ok by (simp_all add: pb_ok_def)
  have st: "ppi_state ?o = State_done_pending" using out job by (auto simp: out_ok_def ppi_inv_def)
  then obtain p qs where ps: "ps = p # qs" using out by (cases ps) (auto simp: out_ok_def)
  have r: "cb_rep e ?b (p # qs)" and pos: "0 \<le> mtu" using buf ps by (simp_all add: buf_ok_def)
  obtain b' where b': "ChunkBuffer2_ConsumePacket e ?b = Some b'" "cb_rep e b' qs" "cb_size b' = cb_size ?b" "cb_mtu b' = cb_mtu ?b"
      "cb_buffer b' = cb_buffer ?b" "ChunkBuffer2_end b' = ChunkBuffer2_end ?b" "free_blocks ?b \<le> free_blocks b'"
    by (rule Consume_rep [OF r])
  have buf': "buf_ok e mtu num b' qs" using buf b' ps by (auto simp: buf_ok_def)
  have more: "cb_input_avail ?b \<le> cb_input_avail b'" "0 \<le> cb_input_avail ?b \<Longrightarrow> cb_input_dest b' = cb_input_dest ?b"
    "cb_holds b' = cb_holds ?b"
    using rep_input [OF r] rep_input [OF b'(2)] b'(5-7) by (auto simp: fun_eq_iff cb_holds_def split: if_splits)
  let ?recv = "cb_input_avail ?b < mtu \<and> cb_input_avail b' \<ge> mtu"
  obtain i' where i': "(if ?recv then PacketRecvInterface_Receiver_Recv ?i (cb_input_dest b') else Some ?i) = Some i'" "in_ok mtu i' b' ds"
  proof (cases "cb_input_avail ?b < mtu")
    case True
    then have n: "pri_state ?i = State_none" "ds = []" using inp by (auto simp: in_ok_def)
    show thesis
      by (rule recv_if_room [OF b'(2) pos, of ?i]) (use inp n True that in \<open>auto simp: in_ok_def\<close>)
  next
    case False
    then have "in_ok mtu ?i b' ds" using inp more pos unfolding in_ok_def by auto
    then show thesis using that False by simp
  qed
  let ?fin = "?o\<lparr>ppi_job_done := False, ppi_state := State_none\<rparr>"
  obtain o' where o': "(if qs \<noteq> [] then PacketPassInterface_Sender_Send ?fin (cb_output_dest b') (cb_output_avail b') else Some ?fin) = Some o'"
      "out_ok mtu o' b' qs" "handed_over o' qs = []"
  proof (cases "qs = []")
    case True
    then show thesis using out st by (intro that [of ?fin]) (auto simp: out_ok_def ppi_inv_def handed_over_def)
  next
    case False
    then have len: "int (length (hd qs)) \<le> mtu" using buf' by (auto simp: buf_ok_def)
    have o0: "mtu \<le> ppi_mtu ?fin" "ppi_done_handler ?fin" "ppi_inv ?fin" "ppi_state ?fin = State_none"
      using out st by (auto simp: out_ok_def ppi_inv_def)
    obtain o' where "PacketPassInterface_Sender_Send ?fin (cb_output_dest b') (cb_output_avail b') = Some o'"
        "out_ok mtu o' b' qs" "handed_over o' qs = []"
      by (rule send_first [OF b'(2) False len o0])
    then show thesis using that False by simp
  qed
  have empty: "0 \<le> cb_output_avail b' \<longleftrightarrow> qs \<noteq> []" using rep_output(2) [OF b'(2)] by simp
  let ?pb = "pb\<lparr>pb_input := i', pb_buf := b', pb_output := o'\<rparr>"
  have "PacketBuffer_event e Out_done pb = Some ([], ?pb)"
    using st b'(1) i'(1) o'(1) empty mtu
    by (cases ?recv; cases "qs = []")
      (auto simp: PacketBuffer_event_def PacketBuffer_output_handler_done_def PacketPassInterface_job_done_def)
  moreover have "pb_ok e mtu num ?pb qs ds" using buf' i'(2) o'(2) mtu by (simp add: pb_ok_def)
  moreover have "handed_over ?o ps = [p]" unfolding ps handed_over_def using st by simp
  ultimately show ?thesis using ps o'(3) by auto
qed

lemma pb_event:
  assumes inv: "pb_inv e mtu num pb rcv snt" and en: "relay_enabled (pb_input pb) (pb_output pb) ev"
  shows "\<exists>o' pb'. PacketBuffer_event e ev pb = Some (o', pb') \<and> pb_inv e mtu num pb' (rcv @ received [ev]) (snt @ o')"
proof -
  obtain taken ps ds where ok: "pb_ok e mtu num pb ps ds" and rcv: "rcv = taken @ ps @ ds"
      and snt: "snt = taken @ handed_over (pb_output pb) ps"
    using inv by (auto simp: pb_inv_def)
  show ?thesis
  proof (cases ev)
    case In_operation
    then obtain i where "PacketBuffer_event e ev pb = Some ([], pb\<lparr>pb_input := i\<rparr>)" "pb_ok e mtu num (pb\<lparr>pb_input := i\<rparr>) ps ds"
      using pb_in_operation [OF ok] en by (auto simp: relay_enabled_def)
    then show ?thesis using rcv snt In_operation by (fastforce simp: pb_inv_def)
  next
    case (In_complete d)
    moreover have "pri_mtu (pb_input pb) = mtu" using ok by (simp add: pb_ok_def in_ok_def)
    ultimately obtain pb' where "ds = []" "PacketBuffer_event e ev pb = Some ([], pb')" "pb_ok e mtu num pb' ps [d]" "pb_output pb' = pb_output pb"
      using pb_in_complete [OF ok] en by (auto simp: relay_enabled_def)
    then show ?thesis using rcv snt In_complete by (fastforce simp: pb_inv_def)
  next
    case In_done
    then obtain d pb' where "ds = [d]" "PacketBuffer_event e ev pb = Some ([], pb')" "pb_ok e mtu num pb' (ps @ [d]) []"
        "handed_over (pb_output pb') (ps @ [d]) = handed_over (pb_output pb) ps"
      using pb_in_done [OF ok] en by (auto simp: relay_enabled_def)
    then show ?thesis using rcv snt In_done by (fastforce simp: pb_inv_def)
  next
    case Out_operation
    then obtain pb' where "PacketBuffer_event e ev pb = Some ([hd ps], pb')" "pb_ok e mtu num pb' ps ds"
        "handed_over (pb_output pb) ps = []" "handed_over (pb_output pb') ps = [hd ps]"
      using pb_out_operation [OF ok] en by (auto simp: relay_enabled_def)
    then show ?thesis using rcv snt Out_operation by (fastforce simp: pb_inv_def)
  next
    case Out_complete
    then obtain pb' where "PacketBuffer_event e ev pb = Some ([], pb')" "pb_ok e mtu num pb' ps ds"
        "handed_over (pb_output pb') ps = handed_over (pb_output pb) ps"
      using pb_out_complete [OF ok] en by (auto simp: relay_enabled_def)
    then show ?thesis using rcv snt Out_complete by (fastforce simp: pb_inv_def)
  next
    case Out_done
    then obtain p qs pb' where "ps = p # qs" "PacketBuffer_event e ev pb = Some ([], pb')" "pb_ok e mtu num pb' qs ds"
        "handed_over (pb_output pb) ps = [p]" "handed_over (pb_output pb') qs = []"
      using pb_out_done [OF ok] en by (auto simp: relay_enabled_def)
    then have "pb_inv e mtu num pb' rcv snt" unfolding pb_inv_def using rcv snt
      by (intro exI [of _ "taken @ [p]"] exI [of _ qs] exI [of _ ds]) simp
    then show ?thesis using \<open>PacketBuffer_event e ev pb = Some ([], pb')\<close> Out_done by simp
  qed
qed

lemma receiving_with_room:
  assumes "pb_ok e mtu num pb ps ds" "int (length ps) < num"
  shows "pri_state (pb_input pb) \<noteq> State_none"
proof -
  have b: "buf_ok e mtu num (pb_buf pb) ps" and i: "in_ok mtu (pb_input pb) (pb_buf pb) ds"
    using assms(1) by (simp_all add: pb_ok_def)
  have small: "(int (length p) + 3) div 4 \<le> (mtu + 3) div 4" if "p \<in> set ps" for p
    using that b by (intro zdiv_mono1) (auto simp: buf_ok_def)
  have "4 * cb_mtu (pb_buf pb) \<le> cb_input_avail (pb_buf pb)"
    by (rule capacity [of e _ ps num]) (use b small assms(2) in \<open>auto simp: buf_ok_def\<close>)
  then have "mtu \<le> cb_input_avail (pb_buf pb)" using b by (simp add: buf_ok_def)
  then show ?thesis using i by (auto simp: in_ok_def)
qed

lemma pb_enabled:
  assumes "pb_inv e mtu num pb rcv snt"
  shows "\<exists>ev. relay_enabled (pb_input pb) (pb_output pb) ev"
proof -
  obtain ps ds where ok: "pb_ok e mtu num pb ps ds" using assms by (auto simp: pb_inv_def)
  then have num: "0 < num" and i: "pri_inv (pb_input pb)" and o': "ppi_inv (pb_output pb)" and mtu: "0 \<le> pri_mtu (pb_input pb)"
    by (auto simp: pb_ok_def buf_ok_def in_ok_def out_ok_def)
  show ?thesis
  proof (cases "ps = []")
    case True
    then have "pri_state (pb_input pb) \<noteq> State_none" using receiving_with_room [OF ok] num by simp
    then show ?thesis using i mtu
      by (cases "pri_state (pb_input pb)")
        (auto simp: relay_enabled_def pri_inv_def intro: exI [of _ In_operation] exI [of _ "In_complete []"] exI [of _ In_done])
  next
    case False
    then have "ppi_state (pb_output pb) \<noteq> State_none" using ok by (simp add: pb_ok_def out_ok_def)
    then show ?thesis using o'
      by (cases "ppi_state (pb_output pb)")
        (auto simp: relay_enabled_def ppi_inv_def intro: exI [of _ Out_operation] exI [of _ Out_complete] exI [of _ Out_done])
  qed
qed

lemma pb_event_work:
  assumes "PacketBuffer_event e ev pb = Some (o', pb')"
  shows "relay_work (pri_state (pb_input pb')) (ppi_state (pb_output pb')) + 1
    \<le> relay_work (pri_state (pb_input pb)) (ppi_state (pb_output pb)) + 4 * length o' + 4 * length (received [ev])"
  using assms
proof (cases ev)
  case In_done
  then show ?thesis using assms
    by (auto simp: PacketBuffer_event_def PacketBuffer_input_handler_done_def bind_Some_iff split: if_splits dest!: flow_states)
next
  case Out_done
  then show ?thesis using assms
    by (auto simp: PacketBuffer_event_def PacketBuffer_output_handler_done_def bind_Some_iff split: if_splits dest!: flow_states)
qed (auto simp: PacketBuffer_event_def bind_Some_iff dest!: flow_states)

lemma pb_idle:
  assumes "pb_inv e mtu num pb rcv snt" "waits_for_source (pb_input pb) (pb_output pb)"
  shows "snt = rcv"
proof -
  obtain taken ps ds where ok: "pb_ok e mtu num pb ps ds" "rcv = taken @ ps @ ds" "snt = taken @ handed_over (pb_output pb) ps"
    using assms(1) by (auto simp: pb_inv_def)
  then have "ppi_state (pb_output pb) = State_none" "pri_state (pb_input pb) \<noteq> State_done_pending"
    using assms(2) by (cases "ppi_state (pb_output pb)"; auto simp: waits_for_source_def pb_ok_def out_ok_def in_ok_def ppi_inv_def pri_inv_def)+
  then have "ps = []" "ds = []" using ok(1) by (auto simp: pb_ok_def out_ok_def in_ok_def)
  then show ?thesis using ok(2,3) by (simp add: handed_over_def \<open>ppi_state (pb_output pb) = State_none\<close>)
qed

interpretation pb: live_relay "PacketBuffer_event e" pb_input pb_output "pb_inv e mtu num" for e mtu num
proof
  fix s s' rcv snt ev o'
  assume inv: "pb_inv e mtu num s rcv snt"
  show "\<exists>o' s'. PacketBuffer_event e ev s = Some (o', s') \<and> pb_inv e mtu num s' (rcv @ received [ev]) (snt @ o')"
    if "relay_enabled (pb_input s) (pb_output s) ev"
    using inv that by (rule pb_event)
  show "\<exists>ev. relay_enabled (pb_input s) (pb_output s) ev" using inv by (rule pb_enabled)
  obtain taken ps ds where ok: "pb_ok e mtu num s ps ds" "rcv = taken @ ps @ ds" "snt = taken @ handed_over (pb_output s) ps"
    using inv by (auto simp: pb_inv_def)
  then show "\<exists>rest. rcv = snt @ rest"
    by (cases ps) (auto simp: handed_over_def pb_ok_def out_ok_def)
  show "snt = rcv" if "waits_for_source (pb_input s) (pb_output s)" using inv that by (rule pb_idle)
qed (rule pb_event_work)

lemma alloc_blocks:
  assumes "0 < n" "n \<le> INT_MAX"
  shows "BAllocArray (word_of_int n) 4 = Some (word_of_int (4 * n))" "unat (word_of_int (4 * n) :: u64) = 4 * nat n"
proof -
  have u: "unat (word_of_int n :: u64) = nat n" using assms by (simp add: unat_eq_nat_uint uint_word_of_int)
  show u4: "unat (word_of_int (4 * n) :: u64) = 4 * nat n"
    unfolding unat_eq_nat_uint uint_word_of_int using assms by (simp add: nat_mult_distrib)
  have "unat (word_of_int n :: u64) \<noteq> 0" "unat (word_of_int (4 * n) :: u64) \<noteq> 0" unfolding u u4 using assms(1) by simp_all
  then have "(word_of_int n :: u64) \<noteq> 0" "(word_of_int (4 * n) :: u64) \<noteq> 0" by (metis unat_0)+
  moreover have "unat (SIZE_MAX div 4) = 4611686018427387903" by (simp add: unat_div unat_SIZE_MAX)
  then have "\<not> (word_of_int n :: u64) > SIZE_MAX div 4" using assms(2) u by (simp add: word_less_nat_alt)
  ultimately show "BAllocArray (word_of_int n) 4 = Some (word_of_int (4 * n))"
    unfolding BAllocArray_def BAlloc_def by (simp add: mult.commute)
qed

lemma PacketBuffer_Init_inv:
  assumes "PacketRecvInterface_Init mtu = Some input" "PacketPassInterface_Init out_mtu = Some output" "mtu \<le> out_mtu"
    and "0 < num" "4 * ((1 + (mtu + 3) div 4) * (num + 1) - 1) \<le> INT_MAX"
    and malloc: "\<And>n m. malloc n = Some m \<Longrightarrow> length m = unat n"
  obtains "PacketBuffer_Init e input output num malloc = Some None"
  | pb where "PacketBuffer_Init e input output num malloc = Some (Some pb)" "pb_inv e mtu num pb [] []"
proof -
  define n where "n = (1 + (mtu + 3) div 4) * (num + 1)"
  have small: "4 * (n - 1) \<le> INT_MAX" using assms(5) by (simp add: n_def)
  let ?in = "input\<lparr>pri_done_handler := True\<rparr>" and ?out = "output\<lparr>ppi_done_handler := True\<rparr>"
  have mtu: "0 \<le> mtu" "pri_mtu input = mtu" "ppi_mtu output = out_mtu" "0 \<le> (mtu + 3) div 4"
    and inp: "PacketRecvInterface_Receiver_Init input = Some ?in" "pri_inv ?in" "pri_state ?in = State_none"
    and out: "PacketPassInterface_Sender_Init output = Some ?out" "out_ok mtu ?out b []" "handed_over ?out [] = []" for b
    using assms(1-3)
    by (auto simp: PacketRecvInterface_Init_def PacketPassInterface_Init_def PacketRecvInterface_Receiver_Init_def
        PacketPassInterface_Sender_Init_def bind_Some_iff pri_inv_def out_ok_def ppi_inv_def handed_over_def)
  have "1 + (mtu + 3) div 4 \<le> n" using mtu(4) assms(4) mult_left_mono [of 1 "num + 1" "1 + (mtu + 3) div 4"] by (simp add: n_def)
  then have n: "(mtu + 3) div 4 < n" "0 < n" "n \<le> INT_MAX" "mtu \<le> INT_MAX" using small mtu(4) by simp_all
  then have calc: "ChunkBuffer2_calc_blocks mtu num = n" using calc_blocks_eq [OF mtu(1) n(4) assms(4)] n(3) by (simp add: n_def)
  have alloc: "BAllocArray (word_of_int n) 4 = Some (word_of_int (4 * n))" and sz: "unat (word_of_int (4 * n) :: u64) = 4 * nat n"
    using alloc_blocks [OF n(2,3)] by simp_all
  show thesis
  proof (cases "malloc (word_of_int (4 * n))")
    case None
    then show thesis using that(1) assms(3,4) mtu inp(1) out(1) calc n(2) alloc by (simp add: PacketBuffer_Init_def)
  next
    case (Some m)
    then have len: "length m = 4 * nat n" using malloc sz by simp
    obtain b where b: "ChunkBuffer2_Init e m n mtu = Some b" "cb_rep e b []" "cb_size b = n" "cb_mtu b = (mtu + 3) div 4"
      by (rule Init_rep [OF len small mtu(1) n(4,1)])
    have buf: "buf_ok e mtu num b []" using b mtu(1) assms(4) by (simp add: buf_ok_def n_def)
    have "4 * cb_mtu b \<le> cb_input_avail b" by (rule capacity [OF b(2)]) (use b assms(4) in \<open>auto simp: n_def\<close>)
    then have room: "mtu \<le> cb_input_avail b" using b(4) by linarith
    obtain i' where i': "PacketRecvInterface_Receiver_Recv ?in (cb_input_dest b) = Some i'" "in_ok mtu i' b []"
      by (rule recv_if_room [OF b(2) mtu(1), of ?in]) (use inp mtu room in auto)
    let ?pb = "\<lparr>pb_input = i', pb_output = ?out, pb_input_mtu = mtu, pb_buf = b\<rparr>"
    have "pb_ok e mtu num ?pb [] []" using buf i'(2) out(2) by (simp add: pb_ok_def)
    then have "pb_inv e mtu num ?pb [] []" using out(3) unfolding pb_inv_def by fastforce
    moreover have "PacketBuffer_Init e input output num malloc = Some (Some ?pb)"
      using Some assms(3,4) mtu inp(1) out(1) calc n(2) alloc b(1) i'(1) by (simp add: PacketBuffer_Init_def)
    ultimately show thesis using that(2) by blast
  qed
qed

lemma PacketBuffer_Init_work:
  assumes "PacketPassInterface_Init out_mtu = Some output" "PacketBuffer_Init e input output num malloc = Some (Some pb)"
  shows "relay_work (pri_state (pb_input pb)) (ppi_state (pb_output pb)) = 1"
  using assms
  by (auto simp: PacketBuffer_Init_def bind_Some_iff Let_def PacketPassInterface_Init_def PacketPassInterface_Sender_Init_def
      split: if_splits option.splits dest!: flow_states)

lemma pb_capacity:
  assumes "pb_inv e mtu num pb (snt @ rest) snt"
    and "int (length rest) + (if ppi_state (pb_output pb) = State_busy \<or> ppi_state (pb_output pb) = State_done_pending then 1 else 0) < num"
  shows "pri_state (pb_input pb) \<noteq> State_none"
proof -
  obtain taken ps ds where ok: "pb_ok e mtu num pb ps ds" "snt @ rest = taken @ ps @ ds" "snt = taken @ handed_over (pb_output pb) ps"
    using assms(1) by (auto simp: pb_inv_def)
  then have "length ps \<le> length (handed_over (pb_output pb) ps) + length rest"
    by (metis append_assoc append_same_eq le_add1 length_append same_append_eq)
  then have "int (length ps) < num" using assms(2) by (auto simp: handed_over_def split: if_splits)
  then show ?thesis by (rule receiving_with_room [OF ok(1)])
qed

section \<open>Properties\<close>

text \<open>
  C6. A packet buffer built on two fresh interfaces (the sink takes packets at least as large as the source makes) is
  either refused because memory is short or runs without ever failing an assertion or leaving its memory: in every interleaving of the jobs of
  the two interfaces and of the completions of the two providers, the packets handed to the sink are the packets
  received from the source, unchanged and in order, and the buffer keeps reading from the source whenever it holds fewer
  than \<open>num\<close> packets. The size must be one that \<open>ChunkBuffer2\<close> can describe in an \<open>int\<close>.
\<close>

theorem packet_buffer_relays:
  assumes "PacketRecvInterface_Init mtu = Some input" "PacketPassInterface_Init out_mtu = Some output" "mtu \<le> out_mtu"
    and "0 < num" "4 * ((1 + (mtu + 3) div 4) * (num + 1) - 1) \<le> INT_MAX"
    and malloc: "\<And>n m. malloc n = Some m \<Longrightarrow> length m = unat n"
  shows "PacketBuffer_Init e input output num malloc = Some None \<or>
    (\<exists>pb. PacketBuffer_Init e input output num malloc = Some (Some pb) \<and>
      (\<forall>evs. relay_legal (PacketBuffer_event e) pb_input pb_output evs pb \<longrightarrow>
        (\<exists>sent rest s. relay_run (PacketBuffer_event e) evs pb = Some (sent, s) \<and> received evs = sent @ rest \<and>
          (int (length rest) + (if ppi_state (pb_output s) = State_busy \<or> ppi_state (pb_output s) = State_done_pending then 1 else 0) < num
           \<longrightarrow> pri_state (pb_input s) \<noteq> State_none))))"
proof (rule PacketBuffer_Init_inv [OF assms(1-5), where malloc = malloc and e = e])
  fix pb
  assume init: "PacketBuffer_Init e input output num malloc = Some (Some pb)" and inv: "pb_inv e mtu num pb [] []"
  have "\<exists>sent rest s. relay_run (PacketBuffer_event e) evs pb = Some (sent, s) \<and> received evs = sent @ rest \<and> pb_inv e mtu num s (sent @ rest) sent"
    if "relay_legal (PacketBuffer_event e) pb_input pb_output evs pb" for evs
    using pb.run_relays [OF inv that] pb.sent_prefix by fastforce
  then show ?thesis using init pb_capacity by meson
qed (use malloc in auto)

text \<open>A run used as an example: one packet of three bytes through a buffer for one packet.\<close>

abbreviation pb_example :: "PacketBuffer option option" where
  "pb_example \<equiv> PacketBuffer_Init LittleEndian (the (PacketRecvInterface_Init 6)) (the (PacketPassInterface_Init 6)) 1
     (\<lambda>n. Some (replicate (unat n) 0))"

abbreviation pb_example_events :: "relay_event list" where
  "pb_example_events \<equiv> [In_operation, In_complete [1, 2, 3], In_done, Out_operation, In_operation, Out_complete, Out_done]"

lemma pb_example_legal:
  "\<exists>pb. pb_example = Some (Some pb) \<and> relay_legal (PacketBuffer_event LittleEndian) pb_input pb_output pb_example_events pb \<and>
     (\<forall>sent s. relay_run (PacketBuffer_event LittleEndian) pb_example_events pb = Some (sent, s) \<longrightarrow> waits_for_source (pb_input s) (pb_output s))"
proof -
  have "case pb_example of
      Some (Some pb) \<Rightarrow> relay_legal (PacketBuffer_event LittleEndian) pb_input pb_output pb_example_events pb \<and>
        (case relay_run (PacketBuffer_event LittleEndian) pb_example_events pb of
           Some (_, s) \<Rightarrow> waits_for_source (pb_input s) (pb_output s) | None \<Rightarrow> False)
    | _ \<Rightarrow> False" by code_simp
  then show ?thesis by (auto split: option.splits)
qed

lemma pb_example_inits:
  "PacketRecvInterface_Init 6 = Some (the (PacketRecvInterface_Init 6))" "PacketPassInterface_Init 6 = Some (the (PacketPassInterface_Init 6))"
  by code_simp+

lemma pb_example_alloc: "(\<lambda>n. Some (replicate (unat n) 0)) n = Some m \<Longrightarrow> length m = unat n"
  by auto

theorem packet_buffer_relays_witness:
  "\<exists>pb sent s. pb_example = Some (Some pb) \<and>
     relay_run (PacketBuffer_event LittleEndian) pb_example_events pb = Some (sent, s) \<and> (\<exists>rest. [[1, 2, 3]] = sent @ rest)"
proof -
  obtain pb where pb: "pb_example = Some (Some pb)" "relay_legal (PacketBuffer_event LittleEndian) pb_input pb_output pb_example_events pb"
    using pb_example_legal by blast
  have "received pb_example_events = [[1, 2, 3]]" by simp
  then show ?thesis
    using packet_buffer_relays [OF pb_example_inits, of 1 "\<lambda>n. Some (replicate (unat n) 0)" LittleEndian, OF _ _ _ pb_example_alloc] pb
    by (auto simp del: run_events.simps legal_events.simps)
qed

text \<open>
  C9. A packet buffer delivers: whatever the order in which the jobs run and the providers finish, a run has at most eight
  events for each packet received, and one more; so it comes to a point where no job is pending and the sink is idle unless
  the source keeps making packets, and whenever it is at such a point every packet received has been handed to the
  sink. At no point is there nothing to wait for.
\<close>

theorem packet_buffer_delivers:
  assumes "PacketRecvInterface_Init mtu = Some input" "PacketPassInterface_Init out_mtu = Some output" "mtu \<le> out_mtu"
    and "0 < num" "4 * ((1 + (mtu + 3) div 4) * (num + 1) - 1) \<le> INT_MAX"
    and malloc: "\<And>n m. malloc n = Some m \<Longrightarrow> length m = unat n"
    and init: "PacketBuffer_Init e input output num malloc = Some (Some pb)"
    and legal: "relay_legal (PacketBuffer_event e) pb_input pb_output evs pb"
  shows "\<exists>sent s. relay_run (PacketBuffer_event e) evs pb = Some (sent, s) \<and>
    length evs \<le> 8 * length (received evs) + 1 \<and>
    (waits_for_source (pb_input s) (pb_output s) \<longrightarrow> sent = received evs) \<and>
    (\<exists>ev. relay_enabled (pb_input s) (pb_output s) ev)"
proof (rule PacketBuffer_Init_inv [OF assms(1-5), where malloc = malloc and e = e])
  fix pb'
  assume init': "PacketBuffer_Init e input output num malloc = Some (Some pb')" and inv: "pb_inv e mtu num pb' [] []"
  have "pb' = pb" using init init' by simp
  moreover have "relay_work (pri_state (pb_input pb)) (ppi_state (pb_output pb)) = 1" by (rule PacketBuffer_Init_work [OF assms(2) init])
  ultimately show ?thesis using pb.run_live [OF inv, of evs] legal by fastforce
qed (use malloc init in auto)

theorem packet_buffer_delivers_witness:
  "\<exists>pb s. pb_example = Some (Some pb) \<and> relay_run (PacketBuffer_event LittleEndian) pb_example_events pb = Some ([[1, 2, 3]], s)"
proof -
  obtain pb where pb: "pb_example = Some (Some pb)" "relay_legal (PacketBuffer_event LittleEndian) pb_input pb_output pb_example_events pb"
    "\<forall>sent s. relay_run (PacketBuffer_event LittleEndian) pb_example_events pb = Some (sent, s) \<longrightarrow> waits_for_source (pb_input s) (pb_output s)"
    using pb_example_legal by blast
  obtain sent s where run: "relay_run (PacketBuffer_event LittleEndian) pb_example_events pb = Some (sent, s)"
    "waits_for_source (pb_input s) (pb_output s) \<longrightarrow> sent = received pb_example_events"
    using packet_buffer_delivers [OF pb_example_inits _ _ _ pb_example_alloc pb(1,2)]
    by (auto simp del: run_events.simps legal_events.simps received.simps)
  moreover have "waits_for_source (pb_input s) (pb_output s)" using pb(3) run(1) by blast
  moreover have "received pb_example_events = [[1, 2, 3]]" by simp
  ultimately show ?thesis using pb(1) by metis
qed

text \<open>
  C39. \<open>ChunkBuffer2_calc_blocks\<close> computes the number of blocks for \<open>num\<close> packets exactly, or refuses it because it does
  not fit an \<open>int\<close>; but initialisation works only for sizes whose number of \<^emph>\<open>bytes\<close> fits: for every larger size that
  was accepted it computes a wrong \<open>input_avail\<close> and fails its assertion.
\<close>

theorem chunk_buffer_size_limit:
  assumes "0 \<le> mtu" "mtu \<le> INT_MAX" "0 < num" "num \<le> INT_MAX" and blocks: "n = ChunkBuffer2_calc_blocks mtu num"
  shows "(if (1 + (mtu + 3) div 4) * (num + 1) \<le> INT_MAX then n = (1 + (mtu + 3) div 4) * (num + 1) else n = -1) \<and>
    (n > 0 \<and> length buffer = 4 * nat n \<longrightarrow> (ChunkBuffer2_Init e buffer n mtu = None \<longleftrightarrow> 4 * (n - 1) > INT_MAX))"
proof -
  let ?n = "(1 + (mtu + 3) div 4) * (num + 1)"
  have n: "n = (if ?n \<le> INT_MAX then ?n else -1)" using calc_blocks_eq [OF assms(1-3)] blocks by simp
  moreover have "ChunkBuffer2_Init e buffer n mtu = None \<longleftrightarrow> 4 * (n - 1) > INT_MAX" if pos: "n > 0" and len: "length buffer = 4 * nat n"
  proof -
    have eq: "n = ?n" "n \<le> INT_MAX" using pos n by (auto split: if_splits)
    have "1 + (mtu + 3) div 4 \<le> ?n" using assms(1,3) mult_left_mono [of 1 "num + 1" "1 + (mtu + 3) div 4"] by simp
    then have k: "(mtu + 3) div 4 < n" using eq(1) by simp
    show ?thesis
    proof (cases "4 * (n - 1) > INT_MAX")
      case True
      then show ?thesis using Init_overflow [OF _ eq(2) assms(1,2) k] by simp
    next
      case False
      then obtain b where "ChunkBuffer2_Init e buffer n mtu = Some b" by (metis Init_rep [OF len _ assms(1,2) k] not_less)
      then show ?thesis using False by simp
    qed
  qed
  ultimately show ?thesis by (simp split: if_splits)
qed

theorem chunk_buffer_size_limit_witness:
  "\<exists>n buffer. ChunkBuffer2_calc_blocks 1500 2000000 = n \<and> length buffer = 4 * nat n \<and> ChunkBuffer2_Init LittleEndian buffer n 1500 = None"
proof -
  define n where "n = ChunkBuffer2_calc_blocks 1500 2000000"
  have n: "n = 752000376" unfolding n_def by (subst calc_blocks_eq) simp_all
  have "n > 0 \<and> length (replicate (4 * nat n) (0 :: u8)) = 4 * nat n \<longrightarrow>
      (ChunkBuffer2_Init LittleEndian (replicate (4 * nat n) 0) n 1500 = None \<longleftrightarrow> 4 * (n - 1) > INT_MAX)"
    by (rule conjunct2 [OF chunk_buffer_size_limit [OF _ _ _ _ n_def]]) simp_all
  moreover have "n > 0" "4 * (n - 1) > INT_MAX" unfolding n by simp_all
  ultimately show ?thesis using n_def length_replicate by metis
qed

end
