(* ===== verification/Single_Packet_Buffer.thy ===== *)
theory Single_Packet_Buffer
  imports Packet_Relay Size_Arith
begin

text \<open>
  The buffer for a single packet (\<open>flow/SinglePacketBuffer.c\<close>), which the tunnel program puts between the tun device and the
  network stack: it is a \<open>live_relay\<close> like the larger packet buffer, and it never reads a packet before the last one
  has been taken. The memory of the buffer is a list of bytes, the pointer to it is address 0.
\<close>

section \<open>SinglePacketBuffer\<close>

record SinglePacketBuffer =
  spb_input :: PacketRecvInterface
  spb_output :: PacketPassInterface
  spb_buf :: bytes

definition SinglePacketBuffer_input_handler_done :: "SinglePacketBuffer \<Rightarrow> int \<Rightarrow> SinglePacketBuffer option" where
  "SinglePacketBuffer_input_handler_done b in_len =
     do { p \<leftarrow> PacketPassInterface_Sender_Send (spb_output b) (Some 0) in_len; Some (b\<lparr>spb_output := p\<rparr>) }"

definition SinglePacketBuffer_output_handler_done :: "SinglePacketBuffer \<Rightarrow> SinglePacketBuffer option" where
  "SinglePacketBuffer_output_handler_done b =
     do { i \<leftarrow> PacketRecvInterface_Receiver_Recv (spb_input b) (Some 0); Some (b\<lparr>spb_input := i\<rparr>) }"

definition SinglePacketBuffer_Init ::
  "PacketRecvInterface \<Rightarrow> PacketPassInterface \<Rightarrow> (u64 \<Rightarrow> bytes option) \<Rightarrow> SinglePacketBuffer option option" where
  "SinglePacketBuffer_Init input output malloc =
     do { cassert (ppi_mtu output \<ge> pri_mtu input);
          input \<leftarrow> PacketRecvInterface_Receiver_Init input;
          output \<leftarrow> PacketPassInterface_Sender_Init output;
          (case Option.bind (BAlloc (word_of_int (pri_mtu input))) malloc of
             None \<Rightarrow> Some None
           | Some buf \<Rightarrow>
               do { input \<leftarrow> PacketRecvInterface_Receiver_Recv input (Some 0);
                    Some (Some \<lparr>spb_input = input, spb_output = output, spb_buf = buf\<rparr>) }) }"

section \<open>The buffer between its two interfaces\<close>

definition SinglePacketBuffer_event :: "relay_event \<Rightarrow> SinglePacketBuffer \<Rightarrow> (bytes list \<times> SinglePacketBuffer) option" where
  "SinglePacketBuffer_event ev b =
     (case ev of
        In_operation \<Rightarrow> do { i \<leftarrow> PacketRecvInterface_job_operation (spb_input b); Some ([], b\<lparr>spb_input := i\<rparr>) }
      | In_complete d \<Rightarrow>
          do { p \<leftarrow> pri_data (spb_input b);
               m \<leftarrow> overwrite (spb_buf b) p d;
               i \<leftarrow> PacketRecvInterface_Done (spb_input b) (int (length d));
               Some ([], b\<lparr>spb_buf := m, spb_input := i\<rparr>) }
      | In_done \<Rightarrow>
          do { i \<leftarrow> PacketRecvInterface_job_done (spb_input b);
               b \<leftarrow> SinglePacketBuffer_input_handler_done (b\<lparr>spb_input := i\<rparr>) (pri_done_len i);
               Some ([], b) }
      | Out_operation \<Rightarrow>
          do { i \<leftarrow> PacketPassInterface_job_operation (spb_output b);
               p \<leftarrow> ppi_data i;
               d \<leftarrow> subbytes (spb_buf b) p (nat (ppi_len i));
               Some ([d], b\<lparr>spb_output := i\<rparr>) }
      | Out_complete \<Rightarrow> do { i \<leftarrow> PacketPassInterface_Done (spb_output b); Some ([], b\<lparr>spb_output := i\<rparr>) }
      | Out_done \<Rightarrow>
          do { i \<leftarrow> PacketPassInterface_job_done (spb_output b);
               b \<leftarrow> SinglePacketBuffer_output_handler_done (b\<lparr>spb_output := i\<rparr>);
               Some ([], b) })"

definition spb_ready :: "int \<Rightarrow> SinglePacketBuffer \<Rightarrow> bool" where
  "spb_ready mtu b \<longleftrightarrow>
     pri_mtu (spb_input b) = mtu \<and> 0 \<le> mtu \<and> mtu \<le> ppi_mtu (spb_output b) \<and> mtu \<le> int (length (spb_buf b)) \<and>
     pri_done_handler (spb_input b) \<and> ppi_done_handler (spb_output b) \<and> pri_inv (spb_input b) \<and> ppi_inv (spb_output b)"

definition spb_holds :: "SinglePacketBuffer \<Rightarrow> int \<Rightarrow> bytes \<Rightarrow> bool" where
  "spb_holds b len d \<longleftrightarrow> len = int (length d) \<and> subbytes (spb_buf b) 0 (length d) = Some d"

definition spb_inv :: "int \<Rightarrow> SinglePacketBuffer \<Rightarrow> bytes list \<Rightarrow> bytes list \<Rightarrow> bool" where
  \<comment> \<open>either the source is filling the buffer or the sink is emptying it\<close>
  "spb_inv mtu b rcv snt \<longleftrightarrow> spb_ready mtu b \<and>
     (case pri_state (spb_input b) of
        State_none \<Rightarrow> ppi_state (spb_output b) \<noteq> State_none \<and> ppi_data (spb_output b) = Some 0 \<and>
          (\<exists>d. spb_holds b (ppi_len (spb_output b)) d \<and>
               rcv = snt @ (if ppi_state (spb_output b) = State_operation_pending then [d] else []))
      | State_done_pending \<Rightarrow> ppi_state (spb_output b) = State_none \<and>
          (\<exists>d. spb_holds b (pri_done_len (spb_input b)) d \<and> rcv = snt @ [d])
      | _ \<Rightarrow> ppi_state (spb_output b) = State_none \<and> pri_data (spb_input b) = Some 0 \<and> rcv = snt)"

lemmas spb_defs = spb_inv_def spb_ready_def spb_holds_def SinglePacketBuffer_event_def SinglePacketBuffer_input_handler_done_def
  SinglePacketBuffer_output_handler_done_def

lemma spb_event:
  assumes inv: "spb_inv mtu b rcv snt" and en: "relay_enabled (spb_input b) (spb_output b) ev"
  shows "\<exists>o' b'. SinglePacketBuffer_event ev b = Some (o', b') \<and> spb_inv mtu b' (rcv @ received [ev]) (snt @ o')"
proof (cases ev)
  case (In_complete d)
  have len: "0 + length d \<le> length (spb_buf b)" using assms In_complete by (simp add: spb_inv_def spb_ready_def relay_enabled_def)
  show ?thesis using assms In_complete overwrite_total [OF len]
    by (auto simp: relay_enabled_def spb_defs flow_defs subbytes_def)
qed (use assms in \<open>(cases "pri_state (spb_input b)"; cases "ppi_state (spb_output b)";
    auto simp: relay_enabled_def spb_defs flow_defs)+\<close>)

lemma spb_event_work:
  assumes "SinglePacketBuffer_event ev b = Some (o', b')"
  shows "relay_work (pri_state (spb_input b')) (ppi_state (spb_output b')) + 1
    \<le> relay_work (pri_state (spb_input b)) (ppi_state (spb_output b)) + 4 * length o' + 4 * length (received [ev])"
  using assms by (cases ev) (auto simp: spb_defs bind_Some_iff dest!: flow_states)

interpretation spb: live_relay SinglePacketBuffer_event spb_input spb_output "spb_inv mtu" for mtu
proof
  fix s s' rcv snt ev o'
  assume inv: "spb_inv mtu s rcv snt"
  show "\<exists>o' s'. SinglePacketBuffer_event ev s = Some (o', s') \<and> spb_inv mtu s' (rcv @ received [ev]) (snt @ o')"
    if "relay_enabled (spb_input s) (spb_output s) ev" using inv that by (rule spb_event)
  show "\<exists>rest. rcv = snt @ rest" using inv by (auto simp: spb_inv_def split: op_state.splits)
  show "\<exists>ev. relay_enabled (spb_input s) (spb_output s) ev"
    using inv
    by (cases "pri_state (spb_input s)"; cases "ppi_state (spb_output s)")
      (auto simp: spb_inv_def spb_ready_def relay_enabled_def pri_inv_def ppi_inv_def
        intro: exI [of _ In_operation] exI [of _ "In_complete []"] exI [of _ In_done] exI [of _ Out_operation] exI [of _ Out_complete] exI [of _ Out_done])
  show "snt = rcv" if "waits_for_source (spb_input s) (spb_output s)"
    using inv that by (auto simp: spb_inv_def spb_ready_def waits_for_source_def pri_inv_def ppi_inv_def split: op_state.splits)
qed (rule spb_event_work)

lemma SinglePacketBuffer_Init_inv:
  assumes "PacketRecvInterface_Init mtu = Some input" "PacketPassInterface_Init out_mtu = Some output" "mtu \<le> out_mtu" "mtu \<le> INT_MAX"
    and malloc: "\<forall>n m. malloc n = Some m \<longrightarrow> length m = unat n"
  shows "case SinglePacketBuffer_Init input output malloc of
     None \<Rightarrow> False | Some None \<Rightarrow> True
   | Some (Some b) \<Rightarrow> spb_inv mtu b [] [] \<and> relay_work (pri_state (spb_input b)) (ppi_state (spb_output b)) = 1"
proof -
  have mtu: "0 \<le> mtu" using assms(1) by (auto simp: PacketRecvInterface_Init_def bind_Some_iff)
  have "uint (word_of_int mtu :: u64) = mtu" using mtu assms(4) by (simp add: uint_word_of_int)
  then have "mtu \<le> int (length m)" if "Option.bind (BAlloc (word_of_int mtu)) malloc = Some m" for m
    using that malloc by (auto simp: BAlloc_def split: if_splits)
  then show ?thesis using assms(1-3)
    by (auto simp: SinglePacketBuffer_Init_def PacketRecvInterface_Init_def PacketPassInterface_Init_def spb_defs
        PacketRecvInterface_Receiver_Init_def PacketPassInterface_Sender_Init_def bind_Some_iff flow_defs split: option.splits)
qed

section \<open>Properties\<close>

text \<open>
  C29. The buffer for a single packet, built on two fresh interfaces, never fails an assertion or leaves its memory and delivers: in every
  interleaving of jobs and completions the packets handed to the sink are the packets received, unchanged and in order; at
  most one of them is under way, since the source is read only while the sink is idle; a run has at most
  eight events for each packet and one more, and when no job is pending and the sink is idle, everything has been delivered.
\<close>

theorem single_packet_buffer_delivers:
  assumes "PacketRecvInterface_Init mtu = Some input" "PacketPassInterface_Init out_mtu = Some output" "mtu \<le> out_mtu" "mtu \<le> INT_MAX"
    and malloc: "\<forall>n m. malloc n = Some m \<longrightarrow> length m = unat n"
  shows "SinglePacketBuffer_Init input output malloc = Some None \<or>
    (\<exists>b. SinglePacketBuffer_Init input output malloc = Some (Some b) \<and>
      (\<forall>evs. relay_legal SinglePacketBuffer_event spb_input spb_output evs b \<longrightarrow>
        (\<exists>sent rest s. relay_run SinglePacketBuffer_event evs b = Some (sent, s) \<and> received evs = sent @ rest \<and> length rest \<le> 1 \<and>
          (pri_state (spb_input s) = State_none \<longleftrightarrow> ppi_state (spb_output s) \<noteq> State_none) \<and>
          length evs \<le> 8 * length (received evs) + 1 \<and>
          (waits_for_source (spb_input s) (spb_output s) \<longrightarrow> rest = []))))"
proof -
  have run: "\<exists>sent rest s. relay_run SinglePacketBuffer_event evs b = Some (sent, s) \<and> received evs = sent @ rest \<and> length rest \<le> 1 \<and>
      (pri_state (spb_input s) = State_none \<longleftrightarrow> ppi_state (spb_output s) \<noteq> State_none) \<and>
      length evs \<le> 8 * length (received evs) + 1 \<and> (waits_for_source (spb_input s) (spb_output s) \<longrightarrow> rest = [])"
    if inv: "spb_inv mtu b [] []" and work: "relay_work (pri_state (spb_input b)) (ppi_state (spb_output b)) = 1"
      and legal: "relay_legal SinglePacketBuffer_event spb_input spb_output evs b" for b evs
  proof -
    obtain sent s where r: "relay_run SinglePacketBuffer_event evs b = Some (sent, s)" "spb_inv mtu s (received evs) sent"
      using spb.run_relays [OF inv legal] by auto
    then have "\<exists>rest. received evs = sent @ rest \<and> length rest \<le> 1"
      "pri_state (spb_input s) = State_none \<longleftrightarrow> ppi_state (spb_output s) \<noteq> State_none"
      by (auto simp: spb_inv_def split: op_state.splits)
    then show ?thesis using r(1) spb.run_live [OF inv legal] work by auto
  qed
  show ?thesis using SinglePacketBuffer_Init_inv [OF assms] run by (auto split: option.splits)
qed

theorem single_packet_buffer_delivers_witness:
  "\<exists>b s. SinglePacketBuffer_Init (the (PacketRecvInterface_Init 3)) (the (PacketPassInterface_Init 5)) (\<lambda>n. Some (replicate (unat n) 0)) = Some (Some b) \<and>
     relay_run SinglePacketBuffer_event [In_operation, In_complete [1, 2], In_done, Out_operation, Out_complete, Out_done, In_operation] b
       = Some ([[1, 2]], s)"
proof -
  let ?evs = "[In_operation, In_complete [1, 2], In_done, Out_operation, Out_complete, Out_done, In_operation]"
  let ?b = "SinglePacketBuffer_Init (the (PacketRecvInterface_Init 3)) (the (PacketPassInterface_Init 5)) (\<lambda>n. Some (replicate (unat n) 0))"
  have "case ?b of
      Some (Some b) \<Rightarrow> relay_legal SinglePacketBuffer_event spb_input spb_output ?evs b \<and>
        (case relay_run SinglePacketBuffer_event ?evs b of
           Some (_, s) \<Rightarrow> waits_for_source (spb_input s) (spb_output s) | None \<Rightarrow> False)
    | _ \<Rightarrow> False" by code_simp
  then obtain b where b: "?b = Some (Some b)" "relay_legal SinglePacketBuffer_event spb_input spb_output ?evs b"
      "\<forall>sent s. relay_run SinglePacketBuffer_event ?evs b = Some (sent, s) \<longrightarrow> waits_for_source (spb_input s) (spb_output s)"
    by (auto simp del: run_events.simps legal_events.simps split: option.splits)
  have inits: "PacketRecvInterface_Init 3 = Some (the (PacketRecvInterface_Init 3))" "PacketPassInterface_Init 5 = Some (the (PacketPassInterface_Init 5))"
    by code_simp+
  have rcv: "received ?evs = [[1, 2]]" by simp
  have "(3 :: int) \<le> 5" "(3 :: int) \<le> INT_MAX" "\<forall>n m. (\<lambda>n :: u64. Some (replicate (unat n) (0 :: u8))) n = Some m \<longrightarrow> length m = unat n" by auto
  from single_packet_buffer_delivers [OF inits this] b(1)
  have "relay_legal SinglePacketBuffer_event spb_input spb_output evs b \<longrightarrow>
      (\<exists>sent rest s. relay_run SinglePacketBuffer_event evs b = Some (sent, s) \<and> received evs = sent @ rest \<and>
        (waits_for_source (spb_input s) (spb_output s) \<longrightarrow> rest = []))" for evs by auto
  from this [of ?evs] b(2) obtain sent rest s where
      "relay_run SinglePacketBuffer_event ?evs b = Some (sent, s)" "received ?evs = sent @ rest" "waits_for_source (spb_input s) (spb_output s) \<longrightarrow> rest = []"
    by blast
  then show ?thesis using b(1,3) rcv by (metis append_Nil2)
qed

end
