(* ===== verification/Connection.thy ===== *)
theory Connection
  imports Flow_Interface Event_System Socket_Address
begin

text \<open>
  Stream connections over file descriptors (\<open>system/BConnection_unix.c\<close>): the connector, which waits for a socket to
  connect, and the connection, which provides a \<open>StreamPassInterface\<close> and a \<open>StreamRecvInterface\<close> on top of
  \<open>write\<close> and \<open>read\<close>; and the part of the reactor (\<open>system/BReactor_badvpn.c\<close>) they meet: the registration of a file
  descriptor, the events reported for it, and the limits on operations in one round of the event loop. The results of
  system calls are arguments of the handlers.
\<close>

section \<open>File descriptors in the reactor\<close>

record fd_events =
  ev_read :: bool
  ev_write :: bool
  ev_error :: bool
  ev_hup :: bool

definition no_events :: fd_events where
  "no_events = \<lparr>ev_read = False, ev_write = False, ev_error = False, ev_hup = False\<rparr>"

definition mask_out :: "fd_events \<Rightarrow> fd_events \<Rightarrow> fd_events" where
  "mask_out w ev = \<lparr>ev_read = ev_read w \<and> \<not> ev_read ev, ev_write = ev_write w \<and> \<not> ev_write ev,
     ev_error = ev_error w \<and> \<not> ev_error ev, ev_hup = ev_hup w \<and> \<not> ev_hup ev\<rparr>"

text \<open>A registered descriptor is given by the events it waits for, one that is not active by \<^term>\<open>None\<close>.\<close>

type_synonym bfd = "fd_events option"

definition BReactor_AddFileDescriptor :: "bfd \<Rightarrow> bool \<Rightarrow> bfd option option" where
  \<comment> \<open>\<open>added\<close> is whether \<open>epoll_ctl\<close> succeeds; the inner \<^term>\<open>None\<close> is the result 0\<close>
  "BReactor_AddFileDescriptor bs added = do { cassert (bs = None); Some (if added then Some (Some no_events) else None) }"

definition BReactor_RemoveFileDescriptor :: "bfd \<Rightarrow> bfd option" where
  "BReactor_RemoveFileDescriptor bs = do { cassert (bs \<noteq> None); Some None }"

definition BReactor_SetFileDescriptorEvents :: "bfd \<Rightarrow> fd_events \<Rightarrow> bfd option" where
  "BReactor_SetFileDescriptorEvents bs events =
     do { cassert (bs \<noteq> None); cassert (\<not> ev_error events \<and> \<not> ev_hup events); Some (Some events) }"

definition epoll_report :: "fd_events \<Rightarrow> fd_events \<Rightarrow> fd_events option" where
  \<comment> \<open>what the handler is called with, if it is called, for what the kernel returned\<close>
  "epoll_report waiting returned =
     (let events = \<lparr>ev_read = ev_read waiting \<and> ev_read returned, ev_write = ev_write waiting \<and> ev_write returned,
                    ev_error = ev_error returned, ev_hup = ev_hup returned\<rparr> in
      if events = no_events then None else Some events)"

record BReactorLimit =
  lim_limit :: int
  lim_count :: int

definition BReactorLimit_Init :: "int \<Rightarrow> BReactorLimit option" where
  "BReactorLimit_Init limit = do { cassert (limit > 0); Some \<lparr>lim_limit = limit, lim_count = 0\<rparr> }"

definition BReactorLimit_Increment :: "BReactorLimit \<Rightarrow> BReactorLimit option" where
  \<comment> \<open>\<^term>\<open>None\<close> is the result 0\<close>
  "BReactorLimit_Increment l = (if lim_count l \<ge> lim_limit l then None else Some (l\<lparr>lim_count := lim_count l + 1\<rparr>))"

definition reset_limit :: "BReactorLimit \<Rightarrow> BReactorLimit" where
  "reset_limit l = l\<lparr>lim_count := 0\<rparr>"

section \<open>BConnection\<close>

datatype send_state = SEND_STATE_NOT_INITED | SEND_STATE_READY | SEND_STATE_BUSY

datatype recv_state = RECV_STATE_NOT_INITED | RECV_STATE_READY | RECV_STATE_BUSY | RECV_STATE_INITED_CLOSED | RECV_STATE_NOT_INITED_CLOSED

record BConnection =
  con_close_fd :: bool
  con_is_hupd :: bool
  con_bfd :: bfd
  con_wait_events :: fd_events
  con_send_limit :: BReactorLimit
  con_send_iface :: StreamInterface
  con_send_job :: bool
  con_send_busy_data :: "nat option"
  con_send_busy_len :: int
  con_send_state :: send_state
  con_recv_limit :: BReactorLimit
  con_recv_iface :: StreamInterface
  con_recv_job :: bool
  con_recv_busy_data :: "nat option"
  con_recv_busy_avail :: int
  con_recv_state :: recv_state
  con_error :: bool  \<comment> \<open>the job of \<open>d_err\<close>: an error was reported\<close>

datatype write_result = Write_bytes nat | Write_again | Write_error

datatype read_result = Read_bytes bytes | Read_again | Read_error

text \<open>
  What can be observed of a connection: the bytes given to \<open>write\<close> and got from \<open>read\<close>, the bytes the user is told
  were sent or received, and the two events of its handler.
\<close>

datatype con_out = Wrote bytes | Sent bytes | Got bytes | Delivered bytes | Event_error | Event_recvclosed

definition connection_report_error :: "BConnection \<Rightarrow> (con_out list \<times> BConnection) option" where
  "connection_report_error c = do { cassert (\<not> con_error c); Some ([Event_error], c\<lparr>con_error := True\<rparr>) }"

definition wait_for_fd :: "BConnection \<Rightarrow> fd_events \<Rightarrow> BConnection option" where
  "wait_for_fd c events =
     do { bfd \<leftarrow> BReactor_SetFileDescriptorEvents (con_bfd c) events; Some (c\<lparr>con_wait_events := events, con_bfd := bfd\<rparr>) }"

definition connection_send :: "write_result \<Rightarrow> bytes \<Rightarrow> BConnection \<Rightarrow> (con_out list \<times> BConnection) option" where
  \<comment> \<open>\<open>m\<close> is the memory of the user\<close>
  "connection_send w m c =
     do { cassert (\<not> con_error c);
          cassert (con_send_state c = SEND_STATE_BUSY);
          (case if con_is_hupd c then Some (con_send_limit c) else BReactorLimit_Increment (con_send_limit c) of
             None \<Rightarrow> do { c \<leftarrow> wait_for_fd c ((con_wait_events c)\<lparr>ev_write := True\<rparr>); Some ([], c) }
           | Some limit \<Rightarrow>
               let c = c\<lparr>con_send_limit := limit\<rparr> in
               case w of
                 Write_again \<Rightarrow> if \<not> con_is_hupd c
                   then do { c \<leftarrow> wait_for_fd c ((con_wait_events c)\<lparr>ev_write := True\<rparr>); Some ([], c) }
                   else connection_report_error c
               | Write_error \<Rightarrow> connection_report_error c
               | Write_bytes n \<Rightarrow>
                   do { p \<leftarrow> con_send_busy_data c;
                        d \<leftarrow> subbytes m p n;
                        cassert (n > 0);
                        cassert (int n \<le> con_send_busy_len c);
                        i \<leftarrow> StreamPassInterface_Done (con_send_iface c) (int n);
                        Some ([Wrote d], c\<lparr>con_send_state := SEND_STATE_READY, con_send_iface := i\<rparr>) }) }"

definition connection_recv :: "read_result \<Rightarrow> bytes \<Rightarrow> BConnection \<Rightarrow> (con_out list \<times> bytes \<times> BConnection) option" where
  "connection_recv r m c =
     do { cassert (\<not> con_error c);
          cassert (con_recv_state c = RECV_STATE_BUSY);
          (case if con_is_hupd c then Some (con_recv_limit c) else BReactorLimit_Increment (con_recv_limit c) of
             None \<Rightarrow> do { c \<leftarrow> wait_for_fd c ((con_wait_events c)\<lparr>ev_read := True\<rparr>); Some ([], m, c) }
           | Some limit \<Rightarrow>
               let c = c\<lparr>con_recv_limit := limit\<rparr> in
               case r of
                 Read_again \<Rightarrow> if \<not> con_is_hupd c
                   then do { c \<leftarrow> wait_for_fd c ((con_wait_events c)\<lparr>ev_read := True\<rparr>); Some ([], m, c) }
                   else do { (out, c) \<leftarrow> connection_report_error c; Some (out, m, c) }
               | Read_error \<Rightarrow> do { (out, c) \<leftarrow> connection_report_error c; Some (out, m, c) }
               | Read_bytes d \<Rightarrow>
                   do { p \<leftarrow> con_recv_busy_data c;
                        m \<leftarrow> overwrite m p d;
                        if d = [] then Some ([Event_recvclosed], m, c\<lparr>con_recv_state := RECV_STATE_INITED_CLOSED\<rparr>)
                        else do { cassert (int (length d) \<le> con_recv_busy_avail c);
                                  i \<leftarrow> StreamRecvInterface_Done (con_recv_iface c) (int (length d));
                                  Some ([Got d], m, c\<lparr>con_recv_state := RECV_STATE_READY, con_recv_iface := i\<rparr>) } }) }"

definition connection_fd_handler ::
  "fd_events \<Rightarrow> write_result \<Rightarrow> read_result \<Rightarrow> bytes \<Rightarrow> bytes \<Rightarrow> BConnection \<Rightarrow> (con_out list \<times> bytes \<times> BConnection) option" where
  "connection_fd_handler events w r sm rm c =
     do { cassert (\<not> con_error c);
          cassert (\<not> con_is_hupd c);
          c \<leftarrow> wait_for_fd c (mask_out (con_wait_events c) events);
          c \<leftarrow> (if ev_hup events
               then do { bfd \<leftarrow> BReactor_RemoveFileDescriptor (con_bfd c); Some (c\<lparr>con_bfd := bfd, con_is_hupd := True\<rparr>) }
               else Some c);
          have_send \<leftarrow> Some (ev_write events \<or> (ev_error events \<or> ev_hup events) \<and> con_send_state c = SEND_STATE_BUSY);
          cassert (have_send \<longrightarrow> con_send_state c = SEND_STATE_BUSY);
          have_recv \<leftarrow> Some (ev_read events \<or> (ev_error events \<or> ev_hup events) \<and> con_recv_state c = RECV_STATE_BUSY);
          cassert (have_recv \<longrightarrow> con_recv_state c = RECV_STATE_BUSY);
          if have_send
          then do { (out, c) \<leftarrow> connection_send w sm (if have_recv then c\<lparr>con_recv_job := True\<rparr> else c); Some (out, rm, c) }
          else if have_recv then connection_recv r rm c
          else if \<not> con_is_hupd c then do { (out, c) \<leftarrow> connection_report_error c; Some (out, rm, c) }
          else Some ([], rm, c) }"

definition connection_send_job_handler :: "write_result \<Rightarrow> bytes \<Rightarrow> BConnection \<Rightarrow> (con_out list \<times> BConnection) option" where
  "connection_send_job_handler w m c =
     do { cassert (\<not> con_error c); cassert (con_send_state c = SEND_STATE_BUSY); connection_send w m c }"

definition connection_recv_job_handler :: "read_result \<Rightarrow> bytes \<Rightarrow> BConnection \<Rightarrow> (con_out list \<times> bytes \<times> BConnection) option" where
  "connection_recv_job_handler r m c =
     do { cassert (\<not> con_error c); cassert (con_recv_state c = RECV_STATE_BUSY); connection_recv r m c }"

definition connection_send_if_handler_send ::
  "write_result \<Rightarrow> bytes \<Rightarrow> nat option \<Rightarrow> int \<Rightarrow> BConnection \<Rightarrow> (con_out list \<times> BConnection) option" where
  "connection_send_if_handler_send w m data data_len c =
     do { cassert (\<not> con_error c);
          cassert (con_send_state c = SEND_STATE_READY);
          cassert (data_len > 0);
          connection_send w m (c\<lparr>con_send_busy_data := data, con_send_busy_len := data_len, con_send_state := SEND_STATE_BUSY\<rparr>) }"

definition connection_recv_if_handler_recv ::
  "read_result \<Rightarrow> bytes \<Rightarrow> nat option \<Rightarrow> int \<Rightarrow> BConnection \<Rightarrow> (con_out list \<times> bytes \<times> BConnection) option" where
  "connection_recv_if_handler_recv r m data data_avail c =
     do { cassert (\<not> con_error c);
          cassert (con_recv_state c = RECV_STATE_READY);
          cassert (data_avail > 0);
          connection_recv r m (c\<lparr>con_recv_busy_data := data, con_recv_busy_avail := data_avail, con_recv_state := RECV_STATE_BUSY\<rparr>) }"

definition BConnection_Free :: "BConnection \<Rightarrow> bool option" where
  \<comment> \<open>whether the file descriptor is closed\<close>
  "BConnection_Free c =
     do { cassert (con_send_state c = SEND_STATE_NOT_INITED);
          cassert (con_recv_state c = RECV_STATE_NOT_INITED \<or> con_recv_state c = RECV_STATE_NOT_INITED_CLOSED);
          (if con_is_hupd c then Some () else do { BReactor_RemoveFileDescriptor (con_bfd c); Some () });
          Some (con_close_fd c) }"

definition BConnection_SendAsync_Init :: "BConnection \<Rightarrow> BConnection option" where
  "BConnection_SendAsync_Init c =
     do { cassert (\<not> con_error c);
          cassert (con_send_state c = SEND_STATE_NOT_INITED);
          Some (c\<lparr>con_send_iface := StreamPassInterface_Init, con_send_job := False, con_send_state := SEND_STATE_READY\<rparr>) }"

definition BConnection_SendAsync_Free :: "BConnection \<Rightarrow> BConnection option" where
  "BConnection_SendAsync_Free c =
     do { cassert (con_send_state c = SEND_STATE_READY \<or> con_send_state c = SEND_STATE_BUSY);
          c \<leftarrow> (if con_is_hupd c then Some c else wait_for_fd c ((con_wait_events c)\<lparr>ev_write := False\<rparr>));
          Some (c\<lparr>con_send_job := False, con_send_state := SEND_STATE_NOT_INITED\<rparr>) }"

definition BConnection_SendAsync_GetIf :: "BConnection \<Rightarrow> StreamInterface option" where
  "BConnection_SendAsync_GetIf c =
     do { cassert (con_send_state c = SEND_STATE_READY \<or> con_send_state c = SEND_STATE_BUSY); Some (con_send_iface c) }"

definition BConnection_RecvAsync_Init :: "BConnection \<Rightarrow> BConnection option" where
  "BConnection_RecvAsync_Init c =
     do { cassert (\<not> con_error c);
          cassert (con_recv_state c = RECV_STATE_NOT_INITED);
          Some (c\<lparr>con_recv_iface := StreamRecvInterface_Init, con_recv_job := False, con_recv_state := RECV_STATE_READY\<rparr>) }"

definition BConnection_RecvAsync_Free :: "BConnection \<Rightarrow> BConnection option" where
  "BConnection_RecvAsync_Free c =
     do { cassert (con_recv_state c = RECV_STATE_READY \<or> con_recv_state c = RECV_STATE_BUSY \<or> con_recv_state c = RECV_STATE_INITED_CLOSED);
          c \<leftarrow> (if con_is_hupd c then Some c else wait_for_fd c ((con_wait_events c)\<lparr>ev_read := False\<rparr>));
          Some (c\<lparr>con_recv_job := False, con_recv_state := RECV_STATE_NOT_INITED\<rparr>) }"

definition BConnection_RecvAsync_GetIf :: "BConnection \<Rightarrow> StreamInterface option" where
  "BConnection_RecvAsync_GetIf c =
     do { cassert (con_recv_state c = RECV_STATE_READY \<or> con_recv_state c = RECV_STATE_BUSY \<or> con_recv_state c = RECV_STATE_INITED_CLOSED);
          Some (con_recv_iface c) }"

section \<open>BConnector\<close>

datatype BLisCon_from = BLISCON_FROM_ADDR BAddr | BLISCON_FROM_UNIX string

datatype sys_addr = Sys_ipv4 u16 u32 | Sys_ipv6 u16 bytes

definition BConnection_AddressSupported :: "BAddr \<Rightarrow> bool" where
  "BConnection_AddressSupported addr = (case addr of BAddr_IPv4 _ _ \<Rightarrow> True | BAddr_IPv6 _ _ \<Rightarrow> True | _ \<Rightarrow> False)"

definition addr_socket_to_sys :: "BAddr \<Rightarrow> sys_addr option" where
  "addr_socket_to_sys addr =
     (case addr of BAddr_IPv4 ip port \<Rightarrow> Some (Sys_ipv4 port ip) | BAddr_IPv6 ip port \<Rightarrow> Some (Sys_ipv6 port ip) | _ \<Rightarrow> None)"

definition MAX_UNIX_SOCKET_PATH :: nat where
  "MAX_UNIX_SOCKET_PATH = 200"

definition build_unix_address :: "string \<Rightarrow> string option" where
  "build_unix_address socket_path = (if length socket_path > MAX_UNIX_SOCKET_PATH then None else Some socket_path)"

record BConnector =
  cr_fd :: int
  cr_connected :: bool
  cr_have_bfd :: bool
  cr_bfd :: bfd
  cr_job :: bool

datatype connect_result = Connect_done | Connect_progress | Connect_failed

definition BConnector_InitFrom :: "BLisCon_from \<Rightarrow> int \<Rightarrow> bool \<Rightarrow> connect_result \<Rightarrow> bool \<Rightarrow> BConnector option option" where
  \<comment> \<open>the results of \<open>socket\<close>, of setting it non-blocking, of \<open>connect\<close> and of \<open>epoll_ctl\<close>\<close>
  "BConnector_InitFrom from sock nonblocking connect added =
     do { ok \<leftarrow> (case from of
                 BLISCON_FROM_UNIX socket_path \<Rightarrow> Some (build_unix_address socket_path \<noteq> None)
               | BLISCON_FROM_ADDR addr \<Rightarrow>
                   if \<not> BConnection_AddressSupported addr then Some False else do { addr_socket_to_sys addr; Some True });
          if \<not> ok then Some None
          else if sock < 0 then Some None
          else if \<not> nonblocking then Some None
          else (case connect of
                  Connect_failed \<Rightarrow> Some None
                | Connect_progress \<Rightarrow>
                    do { bfd \<leftarrow> BReactor_AddFileDescriptor None added;
                         case bfd of
                           None \<Rightarrow> Some None
                         | Some bfd \<Rightarrow>
                             do { bfd \<leftarrow> BReactor_SetFileDescriptorEvents bfd (no_events\<lparr>ev_write := True\<rparr>);
                                  Some (Some \<lparr>cr_fd = sock, cr_connected = False, cr_have_bfd = True, cr_bfd = bfd, cr_job = False\<rparr>) } }
                | Connect_done \<Rightarrow>
                    Some (Some \<lparr>cr_fd = sock, cr_connected = True, cr_have_bfd = False, cr_bfd = None, cr_job = True\<rparr>)) }"

definition connector_fd_handler :: "int option \<Rightarrow> BConnector \<Rightarrow> (bool \<times> BConnector) option" where
  \<comment> \<open>the result of \<open>getsockopt\<close>; the \<open>is_error\<close> the handler is called with\<close>
  "connector_fd_handler result c =
     do { cassert (cr_fd c \<ge> 0);
          cassert (\<not> cr_connected c);
          cassert (cr_have_bfd c);
          bfd \<leftarrow> BReactor_RemoveFileDescriptor (cr_bfd c);
          c \<leftarrow> Some (c\<lparr>cr_bfd := bfd, cr_have_bfd := False\<rparr>);
          c \<leftarrow> Some (if result = Some 0 then c\<lparr>cr_connected := True\<rparr> else c);
          Some (\<not> cr_connected c, c) }"

definition connector_job_handler :: "BConnector \<Rightarrow> (bool \<times> BConnector) option" where
  \<comment> \<open>a job is no longer pending when its handler runs\<close>
  "connector_job_handler c =
     do { cassert (cr_fd c \<ge> 0); cassert (cr_connected c); cassert (\<not> cr_have_bfd c); Some (False, c\<lparr>cr_job := False\<rparr>) }"

definition BConnector_Free :: "BConnector \<Rightarrow> bool option" where
  \<comment> \<open>whether the file descriptor is closed\<close>
  "BConnector_Free c =
     do { (if cr_have_bfd c then do { BReactor_RemoveFileDescriptor (cr_bfd c); Some () } else Some ());
          Some (cr_fd c \<noteq> -1) }"

definition new_connection :: "bool \<Rightarrow> fd_events option \<Rightarrow> BConnection option" where
  "new_connection close_fd bfd =
     do { send_limit \<leftarrow> BReactorLimit_Init 2;
          recv_limit \<leftarrow> BReactorLimit_Init 2;
          Some \<lparr>con_close_fd = close_fd, con_is_hupd = False, con_bfd = bfd, con_wait_events = no_events,
             con_send_limit = send_limit, con_send_iface = StreamPassInterface_Init, con_send_job = False, con_send_busy_data = None,
             con_send_busy_len = 0, con_send_state = SEND_STATE_NOT_INITED,
             con_recv_limit = recv_limit, con_recv_iface = StreamRecvInterface_Init, con_recv_job = False, con_recv_busy_data = None,
             con_recv_busy_avail = 0, con_recv_state = RECV_STATE_NOT_INITED, con_error = False\<rparr> }"

definition BConnection_Init_connector :: "BConnector \<Rightarrow> bool \<Rightarrow> (BConnector \<times> BConnection option) option" where
  \<comment> \<open>a connection from a connector; \<open>added\<close> is the result of \<open>epoll_ctl\<close>\<close>
  "BConnection_Init_connector connector added =
     do { cassert (cr_fd connector \<ge> 0);
          cassert (cr_connected connector);
          cassert (\<not> cr_have_bfd connector);
          cassert (\<not> cr_job connector);
          connector \<leftarrow> Some (connector\<lparr>cr_fd := -1\<rparr>);
          bfd \<leftarrow> BReactor_AddFileDescriptor None added;
          case bfd of
            None \<Rightarrow> Some (connector, None)
          | Some bfd \<Rightarrow> do { c \<leftarrow> new_connection True bfd; Some (connector, Some c) } }"

definition BConnection_Init_pipe :: "int \<Rightarrow> bool \<Rightarrow> bool \<Rightarrow> bool \<Rightarrow> BConnection option option" where
  "BConnection_Init_pipe pipefd close_it nonblocking added =
     do { cassert (pipefd \<ge> 0);
          if \<not> nonblocking then Some None
          else do { bfd \<leftarrow> BReactor_AddFileDescriptor None added;
                    case bfd of
                      None \<Rightarrow> Some None
                    | Some bfd \<Rightarrow> do { c \<leftarrow> new_connection close_it bfd; Some (Some c) } } }"

section \<open>A connection between its user and the kernel\<close>

text \<open>
  The user sends and receives through the two interfaces, with a block of memory for each (\<open>sm\<close>, \<open>rm\<close>), which it
  leaves alone until the operation is done. The kernel reports events for the descriptor and answers the system calls.
\<close>

datatype con_event =
    User_send bytes | Send_operation write_result | Send_done
  | User_recv nat | Recv_operation read_result | Recv_retry read_result | Recv_done
  | Fd_event fd_events write_result read_result | Limits_reset

type_synonym con_state = "BConnection \<times> bytes \<times> bytes"

definition BConnection_event :: "con_event \<Rightarrow> con_state \<Rightarrow> (con_out list \<times> con_state) option" where
  "BConnection_event ev s =
     (case s of (c, sm, rm) \<Rightarrow>
      case ev of
        User_send d \<Rightarrow>
          do { i \<leftarrow> StreamPassInterface_Sender_Send (con_send_iface c) (Some 0) (int (length d));
               Some ([], c\<lparr>con_send_iface := i\<rparr>, d, rm) }
      | Send_operation w \<Rightarrow>
          do { i \<leftarrow> StreamPassInterface_job_operation (con_send_iface c);
               (out, c) \<leftarrow> connection_send_if_handler_send w sm (si_data i) (si_len i) (c\<lparr>con_send_iface := i\<rparr>);
               Some (out, c, sm, rm) }
      | Send_done \<Rightarrow>
          do { i \<leftarrow> StreamPassInterface_job_done (con_send_iface c);
               p \<leftarrow> si_data i;
               d \<leftarrow> subbytes sm p (nat (si_done_len i));
               Some ([Sent d], c\<lparr>con_send_iface := i\<rparr>, sm, rm) }
      | User_recv n \<Rightarrow>
          do { i \<leftarrow> StreamRecvInterface_Receiver_Recv (con_recv_iface c) (Some 0) (int n);
               Some ([], c\<lparr>con_recv_iface := i\<rparr>, sm, replicate n 0) }
      | Recv_operation r \<Rightarrow>
          do { i \<leftarrow> StreamRecvInterface_job_operation (con_recv_iface c);
               (out, rm, c) \<leftarrow> connection_recv_if_handler_recv r rm (si_data i) (si_len i) (c\<lparr>con_recv_iface := i\<rparr>);
               Some (out, c, sm, rm) }
      | Recv_retry r \<Rightarrow>
          do { (out, rm, c) \<leftarrow> connection_recv_job_handler r rm (c\<lparr>con_recv_job := False\<rparr>); Some (out, c, sm, rm) }
      | Recv_done \<Rightarrow>
          do { i \<leftarrow> StreamRecvInterface_job_done (con_recv_iface c);
               p \<leftarrow> si_data i;
               d \<leftarrow> subbytes rm p (nat (si_done_len i));
               Some ([Delivered d], c\<lparr>con_recv_iface := i\<rparr>, sm, rm) }
      | Fd_event events w r \<Rightarrow> do { (out, rm, c) \<leftarrow> connection_fd_handler events w r sm rm c; Some (out, c, sm, rm) }
      | Limits_reset \<Rightarrow>
          Some ([], c\<lparr>con_send_limit := reset_limit (con_send_limit c), con_recv_limit := reset_limit (con_recv_limit c)\<rparr>, sm, rm))"

fun write_ok :: "int \<Rightarrow> write_result \<Rightarrow> bool" where
  \<comment> \<open>\<open>write\<close> of a positive number of bytes takes between one and all of them\<close>
  "write_ok len (Write_bytes n) \<longleftrightarrow> 0 < n \<and> int n \<le> len"
| "write_ok len _ = True"

fun read_ok :: "int \<Rightarrow> read_result \<Rightarrow> bool" where
  "read_ok len (Read_bytes d) \<longleftrightarrow> int (length d) \<le> len"
| "read_ok len _ = True"

definition jobs_pending :: "BConnection \<Rightarrow> bool" where
  "jobs_pending c \<longleftrightarrow> con_send_job c \<or> con_recv_job c \<or> si_job_operation (con_send_iface c) \<or> si_job_done (con_send_iface c) \<or>
     si_job_operation (con_recv_iface c) \<or> si_job_done (con_recv_iface c)"

definition con_enabled :: "con_state \<Rightarrow> con_event \<Rightarrow> bool" where
  \<comment> \<open>the reactor runs all jobs before it looks for events of descriptors and resets limits;
    after an error was reported the user must free the connection\<close>
  "con_enabled s ev \<longleftrightarrow>
     (case s of (c, sm, rm) \<Rightarrow> \<not> con_error c \<and>
      (case ev of
         User_send d \<Rightarrow> si_state (con_send_iface c) = State_none \<and> d \<noteq> []
       | Send_operation w \<Rightarrow> si_job_operation (con_send_iface c) \<and> write_ok (si_len (con_send_iface c)) w
       | Send_done \<Rightarrow> si_job_done (con_send_iface c)
       | User_recv n \<Rightarrow> si_state (con_recv_iface c) = State_none \<and> 0 < n
       | Recv_operation r \<Rightarrow> si_job_operation (con_recv_iface c) \<and> read_ok (si_len (con_recv_iface c)) r
       | Recv_retry r \<Rightarrow> con_recv_job c \<and> read_ok (si_len (con_recv_iface c)) r
       | Recv_done \<Rightarrow> si_job_done (con_recv_iface c)
       | Fd_event events w r \<Rightarrow>
           (case con_bfd c of None \<Rightarrow> False | Some waiting \<Rightarrow> epoll_report waiting events = Some events) \<and>
           \<not> jobs_pending c \<and> write_ok (si_len (con_send_iface c)) w \<and> read_ok (si_len (con_recv_iface c)) r
       | Limits_reset \<Rightarrow> \<not> jobs_pending c))"

definition no_lone_error :: "con_state \<Rightarrow> con_event \<Rightarrow> bool" where
  \<comment> \<open>an error is reported together with a hang-up, or with every event the connection waits for\<close>
  "no_lone_error s ev \<longleftrightarrow>
     (case s of (c, _) \<Rightarrow> case ev of
        Fd_event events _ _ \<Rightarrow> ev_error events \<and> \<not> ev_hup events \<longrightarrow>
          (ev_read (con_wait_events c) \<longrightarrow> ev_read events) \<and> (ev_write (con_wait_events c) \<longrightarrow> ev_write events)
      | _ \<Rightarrow> True)"

fun wrote :: "con_out list \<Rightarrow> bytes" where
  "wrote [] = []" | "wrote (Wrote d # os) = d @ wrote os" | "wrote (_ # os) = wrote os"

fun sent :: "con_out list \<Rightarrow> bytes" where
  "sent [] = []" | "sent (Sent d # os) = d @ sent os" | "sent (_ # os) = sent os"

fun got :: "con_out list \<Rightarrow> bytes" where
  "got [] = []" | "got (Got d # os) = d @ got os" | "got (_ # os) = got os"

fun delivered :: "con_out list \<Rightarrow> bytes" where
  "delivered [] = []" | "delivered (Delivered d # os) = d @ delivered os" | "delivered (_ # os) = delivered os"

lemma con_out_append [simp]:
  "wrote (xs @ ys) = wrote xs @ wrote ys" "sent (xs @ ys) = sent xs @ sent ys"
  "got (xs @ ys) = got xs @ got ys" "delivered (xs @ ys) = delivered xs @ delivered ys"
  by (induction xs rule: wrote.induct) simp_all

definition done_part :: "StreamInterface \<Rightarrow> bytes \<Rightarrow> bytes" where
  \<comment> \<open>what was transferred without the user knowing yet\<close>
  "done_part i m = (if si_state i = State_done_pending then take (nat (si_done_len i)) m else [])"

definition iface_ok :: "StreamInterface \<Rightarrow> bytes \<Rightarrow> bool" where
  "iface_ok i m \<longleftrightarrow> si_inv i \<and> si_done_handler i \<and> (si_state i \<noteq> State_none \<longrightarrow> si_data i = Some 0 \<and> si_len i = int (length m))"

definition send_ok :: "BConnection \<Rightarrow> bytes \<Rightarrow> bool" where
  "send_ok c m \<longleftrightarrow> iface_ok (con_send_iface c) m \<and> \<not> con_send_job c \<and>
     (case con_send_state c of
        SEND_STATE_READY \<Rightarrow> si_state (con_send_iface c) \<noteq> State_busy
      | SEND_STATE_BUSY \<Rightarrow> si_state (con_send_iface c) = State_busy \<and>
          con_send_busy_data c = si_data (con_send_iface c) \<and> con_send_busy_len c = si_len (con_send_iface c)
      | _ \<Rightarrow> False)"

definition recv_ok :: "BConnection \<Rightarrow> bytes \<Rightarrow> bool" where
  "recv_ok c m \<longleftrightarrow> iface_ok (con_recv_iface c) m \<and> (con_recv_job c \<longrightarrow> con_recv_state c = RECV_STATE_BUSY) \<and>
     (case con_recv_state c of
        RECV_STATE_READY \<Rightarrow> si_state (con_recv_iface c) \<noteq> State_busy
      | RECV_STATE_BUSY \<Rightarrow> si_state (con_recv_iface c) = State_busy \<and>
          con_recv_busy_data c = si_data (con_recv_iface c) \<and> con_recv_busy_avail c = si_len (con_recv_iface c)
      | RECV_STATE_INITED_CLOSED \<Rightarrow> si_state (con_recv_iface c) = State_busy
      | _ \<Rightarrow> False)"

definition waits_ok :: "BConnection \<Rightarrow> bool" where
  \<comment> \<open>a busy direction is waiting for the descriptor or, for receiving, has its job set; nothing else is waited for\<close>
  "waits_ok c \<longleftrightarrow>
     (if con_is_hupd c
      then con_bfd c = None \<and> con_send_state c \<noteq> SEND_STATE_BUSY \<and> (con_recv_state c = RECV_STATE_BUSY \<longrightarrow> con_recv_job c)
      else con_bfd c = Some (con_wait_events c) \<and> \<not> ev_error (con_wait_events c) \<and> \<not> ev_hup (con_wait_events c) \<and>
        (ev_write (con_wait_events c) \<longleftrightarrow> con_send_state c = SEND_STATE_BUSY) \<and>
        (ev_read (con_wait_events c) \<longleftrightarrow> con_recv_state c = RECV_STATE_BUSY \<and> \<not> con_recv_job c))"

definition can_wait :: "BConnection \<Rightarrow> bool" where
  "can_wait c \<longleftrightarrow> con_is_hupd c \<or> con_bfd c \<noteq> None \<and> \<not> ev_error (con_wait_events c) \<and> \<not> ev_hup (con_wait_events c)"

definition teardown_ok :: "BConnection \<Rightarrow> bool" where
  \<comment> \<open>what freeing a connection relies on, also after an error\<close>
  "teardown_ok c \<longleftrightarrow> can_wait c \<and> con_send_state c \<noteq> SEND_STATE_NOT_INITED \<and>
     con_recv_state c \<noteq> RECV_STATE_NOT_INITED \<and> con_recv_state c \<noteq> RECV_STATE_NOT_INITED_CLOSED"

definition con_inv :: "con_state \<Rightarrow> con_event list \<Rightarrow> con_out list \<Rightarrow> bool" where
  "con_inv s evs out \<longleftrightarrow>
     (case s of (c, sm, rm) \<Rightarrow>
        wrote out = sent out @ done_part (con_send_iface c) sm \<and> got out = delivered out @ done_part (con_recv_iface c) rm \<and>
        (con_error c \<and> teardown_ok c \<or> send_ok c sm \<and> recv_ok c rm \<and> waits_ok c))"

lemma connection_send_cases:
  assumes "\<not> con_error c" "con_send_state c = SEND_STATE_BUSY" "send_ok c m" "can_wait c" "write_ok (si_len (con_send_iface c)) w"
  obtains (taken) l n where "connection_send w m c = Some ([Wrote (take n m)], c\<lparr>con_send_limit := l, con_send_state := SEND_STATE_READY,
      con_send_iface := (con_send_iface c)\<lparr>si_done_len := int n, si_job_done := True, si_state := State_done_pending\<rparr>\<rparr>)"
      "0 < n" "int n \<le> si_len (con_send_iface c)"
  | (waiting) l where "connection_send w m c = Some ([], c\<lparr>con_send_limit := l, con_wait_events := (con_wait_events c)\<lparr>ev_write := True\<rparr>,
      con_bfd := Some ((con_wait_events c)\<lparr>ev_write := True\<rparr>)\<rparr>)" "\<not> con_is_hupd c"
  | (failed) l where "connection_send w m c = Some ([Event_error], c\<lparr>con_send_limit := l, con_error := True\<rparr>)"
proof -
  have i: "si_state (con_send_iface c) = State_busy" "con_send_busy_data c = Some 0" "con_send_busy_len c = si_len (con_send_iface c)"
      "si_len (con_send_iface c) = int (length m)"
    using assms(2,3) by (auto simp: send_ok_def iface_ok_def)
  let ?wait = "(con_wait_events c)\<lparr>ev_write := True\<rparr>"
  have wait: "wait_for_fd (c\<lparr>con_send_limit := l\<rparr>) ?wait = Some (c\<lparr>con_send_limit := l, con_wait_events := ?wait, con_bfd := Some ?wait\<rparr>)"
    if "\<not> con_is_hupd c" for l
    using that assms(4) by (auto simp: can_wait_def wait_for_fd_def BReactor_SetFileDescriptorEvents_def)
  show thesis
  proof (cases "if con_is_hupd c then Some (con_send_limit c) else BReactorLimit_Increment (con_send_limit c)")
    case None
    then have "\<not> con_is_hupd c" by (auto split: if_splits)
    moreover have "connection_send w m c = Some ([], c\<lparr>con_send_limit := con_send_limit c, con_wait_events := ?wait, con_bfd := Some ?wait\<rparr>)"
      unfolding connection_send_def None using wait [OF \<open>\<not> con_is_hupd c\<close>, of "con_send_limit c"] assms(1,2) by simp
    ultimately show thesis by (rule waiting [rotated])
  next
    case (Some l)
    note eq = connection_send_def [of w m c, unfolded Some, simplified Let_def option.case]
    show thesis
    proof (cases w)
      case (Write_bytes n)
      then show thesis using eq i assms(1,2,5) by (intro taken [of n l]) (auto simp: subbytes_def StreamPassInterface_Done_def)
    next
      case Write_again
      show thesis
      proof (cases "con_is_hupd c")
        case True
        then show thesis using eq assms(1,2) Write_again by (intro failed [of l]) (simp add: connection_report_error_def)
      next
        case False
        then show thesis using eq assms(1,2) Write_again wait [OF False, of l] by (intro waiting [of l]) simp_all
      qed
    next
      case Write_error
      then show thesis using eq assms(1,2) by (intro failed [of l]) (simp add: connection_report_error_def)
    qed
  qed
qed

lemma connection_recv_cases:
  assumes "\<not> con_error c" "con_recv_state c = RECV_STATE_BUSY" "recv_ok c m" "can_wait c" "read_ok (si_len (con_recv_iface c)) r"
  obtains (got) l d where "connection_recv r m c = Some ([Got d], d @ drop (length d) m, c\<lparr>con_recv_limit := l, con_recv_state := RECV_STATE_READY,
      con_recv_iface := (con_recv_iface c)\<lparr>si_done_len := int (length d), si_job_done := True, si_state := State_done_pending\<rparr>\<rparr>)"
      "d \<noteq> []" "length d \<le> length m"
  | (closed) l where "connection_recv r m c = Some ([Event_recvclosed], m, c\<lparr>con_recv_limit := l, con_recv_state := RECV_STATE_INITED_CLOSED\<rparr>)"
  | (waiting) l where "connection_recv r m c = Some ([], m, c\<lparr>con_recv_limit := l, con_wait_events := (con_wait_events c)\<lparr>ev_read := True\<rparr>,
      con_bfd := Some ((con_wait_events c)\<lparr>ev_read := True\<rparr>)\<rparr>)" "\<not> con_is_hupd c"
  | (failed) l where "connection_recv r m c = Some ([Event_error], m, c\<lparr>con_recv_limit := l, con_error := True\<rparr>)"
proof -
  have i: "si_state (con_recv_iface c) = State_busy" "con_recv_busy_data c = Some 0" "con_recv_busy_avail c = si_len (con_recv_iface c)"
      "si_len (con_recv_iface c) = int (length m)"
    using assms(2,3) by (auto simp: recv_ok_def iface_ok_def)
  let ?wait = "(con_wait_events c)\<lparr>ev_read := True\<rparr>"
  have wait: "wait_for_fd (c\<lparr>con_recv_limit := l\<rparr>) ?wait = Some (c\<lparr>con_recv_limit := l, con_wait_events := ?wait, con_bfd := Some ?wait\<rparr>)"
    if "\<not> con_is_hupd c" for l
    using that assms(4) by (auto simp: can_wait_def wait_for_fd_def BReactor_SetFileDescriptorEvents_def)
  show thesis
  proof (cases "if con_is_hupd c then Some (con_recv_limit c) else BReactorLimit_Increment (con_recv_limit c)")
    case None
    then have hup: "\<not> con_is_hupd c" by (auto split: if_splits)
    have "connection_recv r m c = Some ([], m, c\<lparr>con_recv_limit := con_recv_limit c, con_wait_events := ?wait, con_bfd := Some ?wait\<rparr>)"
      unfolding connection_recv_def None using wait [OF hup, of "con_recv_limit c"] assms(1,2) by simp
    then show thesis using hup by (rule waiting)
  next
    case (Some l)
    note eq = connection_recv_def [of r m c, unfolded Some, simplified Let_def option.case]
    show thesis
    proof (cases r)
      case (Read_bytes d)
      show thesis
      proof (cases "d = []")
        case True
        then show thesis using eq i assms(1,2) Read_bytes by (intro closed [of l]) (simp add: overwrite_def)
      next
        case False
        then show thesis using eq i assms(1,2,5) Read_bytes
          by (intro got [of d l]) (auto simp: overwrite_def StreamRecvInterface_Done_def)
      qed
    next
      case Read_again
      show thesis
      proof (cases "con_is_hupd c")
        case True
        then show thesis using eq assms(1,2) Read_again by (intro failed [of l]) (simp add: connection_report_error_def)
      next
        case False
        then show thesis using eq assms(1,2) Read_again wait [OF False, of l] by (intro waiting [of l]) simp_all
      qed
    next
      case Read_error
      then show thesis using eq assms(1,2) by (intro failed [of l]) (simp add: connection_report_error_def)
    qed
  qed
qed

lemma recv_ok_frame [simp]:
  "recv_ok (c\<lparr>con_send_limit := x0\<rparr>) m \<longleftrightarrow> recv_ok c m"
  "recv_ok (c\<lparr>con_send_state := x1\<rparr>) m \<longleftrightarrow> recv_ok c m"
  "recv_ok (c\<lparr>con_send_iface := x2\<rparr>) m \<longleftrightarrow> recv_ok c m"
  "recv_ok (c\<lparr>con_send_busy_data := x3\<rparr>) m \<longleftrightarrow> recv_ok c m"
  "recv_ok (c\<lparr>con_send_busy_len := x4\<rparr>) m \<longleftrightarrow> recv_ok c m"
  "recv_ok (c\<lparr>con_wait_events := x5\<rparr>) m \<longleftrightarrow> recv_ok c m"
  "recv_ok (c\<lparr>con_bfd := x6\<rparr>) m \<longleftrightarrow> recv_ok c m"
  "recv_ok (c\<lparr>con_recv_limit := x7\<rparr>) m \<longleftrightarrow> recv_ok c m"
  "recv_ok (c\<lparr>con_is_hupd := x8\<rparr>) m \<longleftrightarrow> recv_ok c m"
  by (simp_all add: recv_ok_def cong: recv_state.case_cong)

lemma send_ok_frame [simp]:
  "send_ok (c\<lparr>con_recv_limit := x0\<rparr>) m \<longleftrightarrow> send_ok c m"
  "send_ok (c\<lparr>con_recv_state := x1\<rparr>) m \<longleftrightarrow> send_ok c m"
  "send_ok (c\<lparr>con_recv_iface := x2\<rparr>) m \<longleftrightarrow> send_ok c m"
  "send_ok (c\<lparr>con_recv_busy_data := x3\<rparr>) m \<longleftrightarrow> send_ok c m"
  "send_ok (c\<lparr>con_recv_busy_avail := x4\<rparr>) m \<longleftrightarrow> send_ok c m"
  "send_ok (c\<lparr>con_recv_job := x5\<rparr>) m \<longleftrightarrow> send_ok c m"
  "send_ok (c\<lparr>con_wait_events := x6\<rparr>) m \<longleftrightarrow> send_ok c m"
  "send_ok (c\<lparr>con_bfd := x7\<rparr>) m \<longleftrightarrow> send_ok c m"
  "send_ok (c\<lparr>con_send_limit := x8\<rparr>) m \<longleftrightarrow> send_ok c m"
  "send_ok (c\<lparr>con_is_hupd := x9\<rparr>) m \<longleftrightarrow> send_ok c m"
  by (simp_all add: send_ok_def cong: send_state.case_cong)

lemma waits_ok_frame [simp]:
  "waits_ok (c\<lparr>con_send_limit := x\<rparr>) \<longleftrightarrow> waits_ok c" "waits_ok (c\<lparr>con_recv_limit := y\<rparr>) \<longleftrightarrow> waits_ok c"
  by (simp_all add: waits_ok_def)

lemma teardown_ok_frame [simp]:
  "teardown_ok (c\<lparr>con_send_limit := x\<rparr>) \<longleftrightarrow> teardown_ok c" "teardown_ok (c\<lparr>con_recv_limit := y\<rparr>) \<longleftrightarrow> teardown_ok c"
  "teardown_ok (c\<lparr>con_error := z\<rparr>) \<longleftrightarrow> teardown_ok c"
  by (simp_all add: teardown_ok_def can_wait_def)

lemma teardown_okI: "send_ok c sm \<Longrightarrow> recv_ok c rm \<Longrightarrow> can_wait c \<Longrightarrow> teardown_ok c"
  by (auto simp: teardown_ok_def send_ok_def recv_ok_def)

lemma waits_ok_can_wait: "waits_ok c \<Longrightarrow> can_wait c"
  by (auto simp: waits_ok_def can_wait_def split: if_splits)

lemma send_step:
  assumes "\<not> con_error c" "con_send_state c = SEND_STATE_BUSY" "send_ok c sm" "recv_ok c rm"
    and "waits_ok (c\<lparr>con_send_state := SEND_STATE_READY\<rparr>)" "write_ok (si_len (con_send_iface c)) w"
    and "wrote out = sent out" "got out = delivered out @ done_part (con_recv_iface c) rm"
  shows "\<exists>o' c'. connection_send w sm c = Some (o', c') \<and> con_inv (c', sm, rm) evs (out @ o')"
proof -
  have "can_wait c" using assms(5) by (auto simp: waits_ok_def can_wait_def split: if_splits)
  from assms(1-3) \<open>can_wait c\<close> assms(6) show ?thesis
  proof (cases rule: connection_send_cases)
    case (taken l n)
    let ?c = "c\<lparr>con_send_limit := l, con_send_state := SEND_STATE_READY,
      con_send_iface := (con_send_iface c)\<lparr>si_done_len := int n, si_job_done := True, si_state := State_done_pending\<rparr>\<rparr>"
    have "send_ok ?c sm" using assms(2,3) taken(2,3) by (auto simp: send_ok_def iface_ok_def si_inv_def)
    moreover have "recv_ok ?c rm" using assms(4) by simp
    moreover have "waits_ok ?c" using assms(5) by (auto simp: waits_ok_def split: if_splits)
    ultimately have "con_inv (?c, sm, rm) evs (out @ [Wrote (take n sm)])" using assms(7,8) by (simp add: con_inv_def done_part_def)
    then show ?thesis using taken(1) by blast
  next
    case (waiting l)
    let ?c = "c\<lparr>con_send_limit := l, con_wait_events := (con_wait_events c)\<lparr>ev_write := True\<rparr>, con_bfd := Some ((con_wait_events c)\<lparr>ev_write := True\<rparr>)\<rparr>"
    have "send_ok ?c sm" using assms(3) by simp
    moreover have "recv_ok ?c rm" using assms(4) by simp
    moreover have "waits_ok ?c" using assms(2,5) waiting(2) by (auto simp: waits_ok_def split: if_splits)
    moreover have "si_state (con_send_iface c) = State_busy" using assms(2,3) by (simp add: send_ok_def)
    ultimately have "con_inv (?c, sm, rm) evs (out @ [])" using assms(7,8) by (simp add: con_inv_def done_part_def)
    then show ?thesis using waiting(1) by blast
  next
    case (failed l)
    have "si_state (con_send_iface c) = State_busy" using assms(2,3) by (simp add: send_ok_def)
    then show ?thesis using failed assms(7,8) teardown_okI [OF assms(3,4) \<open>can_wait c\<close>] by (simp add: con_inv_def done_part_def)
  qed
qed

lemma recv_step:
  assumes "\<not> con_error c" "con_recv_state c = RECV_STATE_BUSY" "\<not> con_recv_job c" "send_ok c sm" "recv_ok c rm"
    and "waits_ok (c\<lparr>con_recv_state := RECV_STATE_READY\<rparr>)" "read_ok (si_len (con_recv_iface c)) r"
    and "wrote out = sent out @ done_part (con_send_iface c) sm" "got out = delivered out"
  shows "\<exists>o' m' c'. connection_recv r rm c = Some (o', m', c') \<and> con_inv (c', sm, m') evs (out @ o')"
proof -
  have "can_wait c" using assms(6) by (auto simp: waits_ok_def can_wait_def split: if_splits)
  have busy: "si_state (con_recv_iface c) = State_busy" using assms(2,5) by (simp add: recv_ok_def)
  from assms(1,2,5) \<open>can_wait c\<close> assms(7) show ?thesis
  proof (cases rule: connection_recv_cases)
    case (got l d)
    let ?c = "c\<lparr>con_recv_limit := l, con_recv_state := RECV_STATE_READY,
      con_recv_iface := (con_recv_iface c)\<lparr>si_done_len := int (length d), si_job_done := True, si_state := State_done_pending\<rparr>\<rparr>"
    have "send_ok ?c sm" using assms(4) by simp
    moreover have "recv_ok ?c (d @ drop (length d) rm)" using assms(2,3,5) got(2,3) by (auto simp: recv_ok_def iface_ok_def si_inv_def)
    moreover have "waits_ok ?c" using assms(6) by (auto simp: waits_ok_def split: if_splits)
    ultimately have "con_inv (?c, sm, d @ drop (length d) rm) evs (out @ [Got d])" using assms(8,9) by (simp add: con_inv_def done_part_def)
    then show ?thesis using got(1) by blast
  next
    case (closed l)
    let ?c = "c\<lparr>con_recv_limit := l, con_recv_state := RECV_STATE_INITED_CLOSED\<rparr>"
    have "send_ok ?c sm" using assms(4) by simp
    moreover have "recv_ok ?c rm" using assms(2,3,5) by (simp add: recv_ok_def)
    moreover have "waits_ok ?c" using assms(6) by (auto simp: waits_ok_def split: if_splits)
    ultimately have "con_inv (?c, sm, rm) evs (out @ [Event_recvclosed])" using assms(8,9) busy by (simp add: con_inv_def done_part_def)
    then show ?thesis using closed by blast
  next
    case (waiting l)
    let ?c = "c\<lparr>con_recv_limit := l, con_wait_events := (con_wait_events c)\<lparr>ev_read := True\<rparr>, con_bfd := Some ((con_wait_events c)\<lparr>ev_read := True\<rparr>)\<rparr>"
    have "send_ok ?c sm" using assms(4) by simp
    moreover have "recv_ok ?c rm" using assms(5) by simp
    moreover have "waits_ok ?c" using assms(2,3,6) waiting(2) by (auto simp: waits_ok_def split: if_splits)
    ultimately have "con_inv (?c, sm, rm) evs (out @ [])" using assms(8,9) busy by (simp add: con_inv_def done_part_def)
    then show ?thesis using waiting(1) by blast
  next
    case (failed l)
    then show ?thesis using assms(8,9) busy teardown_okI [OF assms(4,5) \<open>can_wait c\<close>] by (simp add: con_inv_def done_part_def)
  qed
qed

lemma con_inv_parts:
  assumes "con_inv (c, sm, rm) evs out" "con_enabled (c, sm, rm) ev"
  shows "\<not> con_error c" "send_ok c sm" "recv_ok c rm" "waits_ok c"
    "wrote out = sent out @ done_part (con_send_iface c) sm" "got out = delivered out @ done_part (con_recv_iface c) rm"
  using assms by (auto simp: con_inv_def con_enabled_def)

lemma con_event_send:
  assumes inv: "con_inv (c, sm, rm) evs out" and en: "con_enabled (c, sm, rm) ev"
    and ev: "ev = User_send d \<or> ev = Send_operation w \<or> ev = Send_done"
  shows "\<exists>o' s'. BConnection_event ev (c, sm, rm) = Some (o', s') \<and> con_inv s' (evs @ [ev]) (out @ o')"
proof -
  note p = con_inv_parts [OF inv en]
  let ?i = "con_send_iface c"
  have i: "iface_ok ?i sm" "si_state ?i \<noteq> State_busy \<longrightarrow> con_send_state c = SEND_STATE_READY"
    using p(2) by (auto simp: send_ok_def split: send_state.splits)
  consider (user) "ev = User_send d" | (op) "ev = Send_operation w" | (fin) "ev = Send_done" using ev by blast
  then show ?thesis
  proof cases
    case user
    then have st: "si_state ?i = State_none" "d \<noteq> []" using en by (auto simp: con_enabled_def)
    let ?c = "c\<lparr>con_send_iface := ?i\<lparr>si_data := Some 0, si_len := int (length d), si_job_operation := True, si_state := State_operation_pending\<rparr>\<rparr>"
    have "send_ok ?c d" "recv_ok ?c rm" "waits_ok ?c" using p(2-4) i st by (auto simp: send_ok_def iface_ok_def si_inv_def waits_ok_def split: if_splits)
    then have "con_inv (?c, d, rm) (evs @ [ev]) (out @ [])" using p(5,6) st by (simp add: con_inv_def done_part_def)
    moreover have "BConnection_event ev (c, sm, rm) = Some ([], ?c, d, rm)"
      using user st i by (simp add: BConnection_event_def StreamPassInterface_Sender_Send_def iface_ok_def)
    ultimately show ?thesis by blast
  next
    case op
    then have st: "si_state ?i = State_operation_pending" "write_ok (si_len ?i) w" using en i by (auto simp: con_enabled_def iface_ok_def si_inv_def)
    let ?j = "?i\<lparr>si_job_operation := False, si_state := State_busy\<rparr>"
    let ?c = "c\<lparr>con_send_iface := ?j, con_send_busy_data := si_data ?i, con_send_busy_len := si_len ?i, con_send_state := SEND_STATE_BUSY\<rparr>"
    have ready: "con_send_state c = SEND_STATE_READY" "0 < si_len ?i" using i st by (auto simp: iface_ok_def si_inv_def)
    have "\<exists>o' c'. connection_send w sm ?c = Some (o', c') \<and> con_inv (c', sm, rm) (evs @ [ev]) (out @ o')"
      by (rule send_step)
        (use p i st ready in \<open>auto simp: send_ok_def iface_ok_def si_inv_def waits_ok_def done_part_def split: if_splits\<close>)
    then show ?thesis using op st ready p(1)
      by (auto simp: BConnection_event_def connection_send_if_handler_send_def StreamPassInterface_job_operation_def)
  next
    case fin
    then have st: "si_state ?i = State_done_pending" "0 < si_done_len ?i" "si_done_len ?i \<le> int (length sm)" "si_data ?i = Some 0"
      using en i by (auto simp: con_enabled_def iface_ok_def si_inv_def)
    let ?c = "c\<lparr>con_send_iface := ?i\<lparr>si_job_done := False, si_state := State_none\<rparr>\<rparr>"
    have "send_ok ?c sm" "recv_ok ?c rm" "waits_ok ?c" using p(2-4) i st by (auto simp: send_ok_def iface_ok_def si_inv_def waits_ok_def split: if_splits)
    then have "con_inv (?c, sm, rm) (evs @ [ev]) (out @ [Sent (take (nat (si_done_len ?i)) sm)])"
      using p(5,6) st by (simp add: con_inv_def done_part_def)
    moreover have "BConnection_event ev (c, sm, rm) = Some ([Sent (take (nat (si_done_len ?i)) sm)], ?c, sm, rm)"
      using fin st by (simp add: BConnection_event_def StreamPassInterface_job_done_def subbytes_def)
    ultimately show ?thesis by blast
  qed
qed

lemma con_event_recv:
  assumes inv: "con_inv (c, sm, rm) evs out" and en: "con_enabled (c, sm, rm) ev"
    and ev: "ev = User_recv n \<or> ev = Recv_operation r \<or> ev = Recv_retry r \<or> ev = Recv_done"
  shows "\<exists>o' s'. BConnection_event ev (c, sm, rm) = Some (o', s') \<and> con_inv s' (evs @ [ev]) (out @ o')"
proof -
  note p = con_inv_parts [OF inv en]
  let ?i = "con_recv_iface c"
  have i: "iface_ok ?i rm" "si_state ?i \<noteq> State_busy \<longrightarrow> con_recv_state c = RECV_STATE_READY \<and> \<not> con_recv_job c"
    using p(3) by (auto simp: recv_ok_def split: recv_state.splits)
  consider (user) "ev = User_recv n" | (op) "ev = Recv_operation r" | (retry) "ev = Recv_retry r" | (fin) "ev = Recv_done" using ev by blast
  then show ?thesis
  proof cases
    case user
    then have st: "si_state ?i = State_none" "0 < n" using en by (auto simp: con_enabled_def)
    let ?c = "c\<lparr>con_recv_iface := ?i\<lparr>si_data := Some 0, si_len := int n, si_job_operation := True, si_state := State_operation_pending\<rparr>\<rparr>"
    have "send_ok ?c sm" "recv_ok ?c (replicate n 0)" "waits_ok ?c"
      using p(2-4) i st by (auto simp: recv_ok_def iface_ok_def si_inv_def waits_ok_def split: if_splits)
    then have "con_inv (?c, sm, replicate n 0) (evs @ [ev]) (out @ [])" using p(5,6) st by (simp add: con_inv_def done_part_def)
    moreover have "BConnection_event ev (c, sm, rm) = Some ([], ?c, sm, replicate n 0)"
      using user st i by (simp add: BConnection_event_def StreamRecvInterface_Receiver_Recv_def iface_ok_def)
    ultimately show ?thesis by blast
  next
    case op
    then have st: "si_state ?i = State_operation_pending" "read_ok (si_len ?i) r" using en i by (auto simp: con_enabled_def iface_ok_def si_inv_def)
    let ?j = "?i\<lparr>si_job_operation := False, si_state := State_busy\<rparr>"
    let ?c = "c\<lparr>con_recv_iface := ?j, con_recv_busy_data := si_data ?i, con_recv_busy_avail := si_len ?i, con_recv_state := RECV_STATE_BUSY\<rparr>"
    have ready: "con_recv_state c = RECV_STATE_READY" "0 < si_len ?i" "\<not> con_recv_job c" using i st by (auto simp: iface_ok_def si_inv_def)
    have "\<exists>o' m' c'. connection_recv r rm ?c = Some (o', m', c') \<and> con_inv (c', sm, m') (evs @ [ev]) (out @ o')"
      by (rule recv_step)
        (use p i st ready in \<open>auto simp: recv_ok_def iface_ok_def si_inv_def waits_ok_def done_part_def split: if_splits\<close>)
    then show ?thesis using op st ready p(1)
      by (auto simp: BConnection_event_def connection_recv_if_handler_recv_def StreamRecvInterface_job_operation_def)
  next
    case retry
    then have st: "con_recv_job c" "read_ok (si_len ?i) r" using en by (auto simp: con_enabled_def)
    then have busy: "con_recv_state c = RECV_STATE_BUSY" "si_state ?i = State_busy" using p(3) by (auto simp: recv_ok_def)
    have "\<exists>o' m' c'. connection_recv r rm (c\<lparr>con_recv_job := False\<rparr>) = Some (o', m', c') \<and> con_inv (c', sm, m') (evs @ [ev]) (out @ o')"
      by (rule recv_step) (use p st busy in \<open>auto simp: recv_ok_def waits_ok_def done_part_def split: if_splits\<close>)
    then show ?thesis using retry busy p(1) by (auto simp: BConnection_event_def connection_recv_job_handler_def)
  next
    case fin
    then have st: "si_state ?i = State_done_pending" "0 < si_done_len ?i" "si_done_len ?i \<le> int (length rm)" "si_data ?i = Some 0"
      using en i by (auto simp: con_enabled_def iface_ok_def si_inv_def)
    let ?c = "c\<lparr>con_recv_iface := ?i\<lparr>si_job_done := False, si_state := State_none\<rparr>\<rparr>"
    have "send_ok ?c sm" "recv_ok ?c rm" "waits_ok ?c" using p(2-4) i st by (auto simp: recv_ok_def iface_ok_def si_inv_def waits_ok_def split: if_splits)
    then have "con_inv (?c, sm, rm) (evs @ [ev]) (out @ [Delivered (take (nat (si_done_len ?i)) rm)])"
      using p(5,6) st by (simp add: con_inv_def done_part_def)
    moreover have "BConnection_event ev (c, sm, rm) = Some ([Delivered (take (nat (si_done_len ?i)) rm)], ?c, sm, rm)"
      using fin st by (simp add: BConnection_event_def StreamRecvInterface_job_done_def subbytes_def)
    ultimately show ?thesis by blast
  qed
qed

definition fd_handled :: "fd_events \<Rightarrow> BConnection \<Rightarrow> BConnection" where
  \<comment> \<open>the connection when the handler of the descriptor turns to sending and receiving\<close>
  "fd_handled events c =
     (let w = mask_out (con_wait_events c) events; c = c\<lparr>con_wait_events := w, con_bfd := Some w\<rparr> in
      if ev_hup events then c\<lparr>con_bfd := None, con_is_hupd := True\<rparr> else c)"

lemma fd_handler_eq:
  assumes "\<not> con_error c" "\<not> con_is_hupd c" "waits_ok c"
  shows "connection_fd_handler events w r sm rm c =
    (let c' = fd_handled events c;
         have_send = (ev_write events \<or> (ev_error events \<or> ev_hup events) \<and> con_send_state c = SEND_STATE_BUSY);
         have_recv = (ev_read events \<or> (ev_error events \<or> ev_hup events) \<and> con_recv_state c = RECV_STATE_BUSY) in
     do { cassert (have_send \<longrightarrow> con_send_state c = SEND_STATE_BUSY);
          cassert (have_recv \<longrightarrow> con_recv_state c = RECV_STATE_BUSY);
          if have_send
          then do { (out, c) \<leftarrow> connection_send w sm (if have_recv then c'\<lparr>con_recv_job := True\<rparr> else c'); Some (out, rm, c) }
          else if have_recv then connection_recv r rm c'
          else if \<not> ev_hup events then do { (out, c) \<leftarrow> connection_report_error c'; Some (out, rm, c) }
          else Some ([], rm, c') })"
  using assms
  by (simp add: connection_fd_handler_def fd_handled_def wait_for_fd_def BReactor_SetFileDescriptorEvents_def BReactor_RemoveFileDescriptor_def
      waits_ok_def mask_out_def Let_def)

lemma epoll_report_iff:
  "epoll_report w ev = Some ev \<longleftrightarrow> ev \<noteq> no_events \<and> (ev_read ev \<longrightarrow> ev_read w) \<and> (ev_write ev \<longrightarrow> ev_write w)"
  by (cases ev) (auto simp: epoll_report_def no_events_def Let_def)

lemma con_event_fd:
  assumes inv: "con_inv (c, sm, rm) evs out" and en: "con_enabled (c, sm, rm) (Fd_event events w r)" and err: "no_lone_error (c, sm, rm) (Fd_event events w r)"
  shows "\<exists>o' s'. BConnection_event (Fd_event events w r) (c, sm, rm) = Some (o', s') \<and> con_inv s' (evs @ [Fd_event events w r]) (out @ o')"
proof -
  note p = con_inv_parts [OF inv en]
  let ?c = "fd_handled events c" and ?evs = "evs @ [Fd_event events w r]"
  have hup: "\<not> con_is_hupd c" and jobs: "\<not> jobs_pending c" and rw: "write_ok (si_len (con_send_iface c)) w" "read_ok (si_len (con_recv_iface c)) r"
      and rep: "epoll_report (con_wait_events c) events = Some events"
    using en p(4) by (auto simp: con_enabled_def waits_ok_def split: option.splits if_splits)
  have c: "con_send_state ?c = con_send_state c" "con_recv_state ?c = con_recv_state c" "con_send_iface ?c = con_send_iface c"
      "con_recv_iface ?c = con_recv_iface c" "con_error ?c = con_error c" "con_recv_job ?c = con_recv_job c" "send_ok ?c sm" "recv_ok ?c rm"
    using p(2,3) by (simp_all add: fd_handled_def Let_def)
  have ev: "ev_write events \<longrightarrow> con_send_state c = SEND_STATE_BUSY" "ev_read events \<longrightarrow> con_recv_state c = RECV_STATE_BUSY" "\<not> con_recv_job c"
    using rep p(4) hup jobs by (auto simp: epoll_report_iff waits_ok_def jobs_pending_def)
  have wait: "con_bfd c = Some (con_wait_events c)" "\<not> ev_error (con_wait_events c)" "\<not> ev_hup (con_wait_events c)"
      "ev_write (con_wait_events c) \<longleftrightarrow> con_send_state c = SEND_STATE_BUSY"
      "ev_read (con_wait_events c) \<longleftrightarrow> con_recv_state c = RECV_STATE_BUSY \<and> \<not> con_recv_job c"
    using p(4) hup by (simp_all add: waits_ok_def)
  have lone: "ev_error events \<Longrightarrow> \<not> ev_hup events \<Longrightarrow> ev_read (con_wait_events c) \<Longrightarrow> ev_read events"
      "ev_error events \<Longrightarrow> \<not> ev_hup events \<Longrightarrow> ev_write (con_wait_events c) \<Longrightarrow> ev_write events"
    using err by (auto simp: no_lone_error_def)
  note eq = fd_handler_eq [OF p(1) hup p(4), of events w r sm rm, unfolded Let_def]
  consider (send) "ev_write events \<or> (ev_error events \<or> ev_hup events) \<and> con_send_state c = SEND_STATE_BUSY"
    | (recv) "\<not> (ev_write events \<or> (ev_error events \<or> ev_hup events) \<and> con_send_state c = SEND_STATE_BUSY)"
        "ev_read events \<or> (ev_error events \<or> ev_hup events) \<and> con_recv_state c = RECV_STATE_BUSY"
    | (none) "\<not> (ev_write events \<or> (ev_error events \<or> ev_hup events) \<and> con_send_state c = SEND_STATE_BUSY)"
        "\<not> (ev_read events \<or> (ev_error events \<or> ev_hup events) \<and> con_recv_state c = RECV_STATE_BUSY)" by blast
  then show ?thesis
  proof cases
    case send
    let ?d = "if ev_read events \<or> (ev_error events \<or> ev_hup events) \<and> con_recv_state c = RECV_STATE_BUSY then ?c\<lparr>con_recv_job := True\<rparr> else ?c"
    have busy: "con_send_state c = SEND_STATE_BUSY" "si_state (con_send_iface c) = State_busy" using send ev p(2) by (auto simp: send_ok_def)
    have "\<exists>o' c'. connection_send w sm ?d = Some (o', c') \<and> con_inv (c', sm, rm) ?evs (out @ o')"
    proof (rule send_step)
      show "waits_ok (?d\<lparr>con_send_state := SEND_STATE_READY\<rparr>)"
      proof (cases "ev_hup events")
        case True
        then show ?thesis using ev by (auto simp: waits_ok_def fd_handled_def Let_def)
      next
        case False
        then have "ev_write events" using send lone wait by blast
        moreover have "ev_read (con_wait_events c) \<longrightarrow> ev_read events \<or> \<not> ev_error events" using lone False by blast
        ultimately show ?thesis using wait ev False hup by (simp add: waits_ok_def fd_handled_def mask_out_def Let_def) blast
      qed
      show "recv_ok ?d rm" using c(2,8) ev by (auto simp: recv_ok_def)
    qed (use p c rw busy in \<open>auto simp: done_part_def\<close>)
    then show ?thesis using eq send ev by (auto simp: BConnection_event_def)
  next
    case recv
    have busy: "con_recv_state c = RECV_STATE_BUSY" "si_state (con_recv_iface c) = State_busy" using recv ev p(3) by (auto simp: recv_ok_def)
    have "\<exists>o' m' c'. connection_recv r rm ?c = Some (o', m', c') \<and> con_inv (c', sm, m') ?evs (out @ o')"
    proof (rule recv_step)
      show "waits_ok (?c\<lparr>con_recv_state := RECV_STATE_READY\<rparr>)"
      proof (cases "ev_hup events")
        case True
        then show ?thesis using recv by (auto simp: waits_ok_def fd_handled_def Let_def)
      next
        case False
        then have "ev_read events" using recv lone wait ev(3) by blast
        then show ?thesis using wait ev False hup recv by (simp add: waits_ok_def fd_handled_def mask_out_def Let_def)
      qed
    qed (use p c rw busy ev in \<open>auto simp: done_part_def\<close>)
    then show ?thesis using eq recv ev by (auto simp: BConnection_event_def)
  next
    case none
    show ?thesis
    proof (cases "ev_hup events")
      case True
      then have "waits_ok ?c" using p(4) hup ev none by (auto simp: waits_ok_def fd_handled_def Let_def)
      then have "con_inv (?c, sm, rm) ?evs (out @ [])" using p(5,6) c by (simp add: con_inv_def)
      then show ?thesis using eq none True by (auto simp: BConnection_event_def)
    next
      case False
      then have "can_wait ?c" using wait by (simp add: can_wait_def fd_handled_def mask_out_def Let_def)
      then have "con_inv (?c\<lparr>con_error := True\<rparr>, sm, rm) ?evs (out @ [Event_error])"
        using p(5,6) c(1-4) teardown_okI [OF c(7,8)] by (simp add: con_inv_def)
      then show ?thesis using eq none False p(1) c(5) by (auto simp: BConnection_event_def connection_report_error_def)
    qed
  qed
qed

interpretation con: event_system "\<lambda>s ev. con_enabled s ev \<and> no_lone_error s ev" BConnection_event con_inv
proof
  fix s evs out ev
  assume inv: "con_inv s evs out" and en: "con_enabled s ev \<and> no_lone_error s ev"
  obtain c sm rm where s: "s = (c, sm, rm)" by (cases s)
  have inv': "con_inv (c, sm, rm) evs out" and en': "con_enabled (c, sm, rm) ev" using inv en by (simp_all add: s)
  show "\<exists>o' s'. BConnection_event ev s = Some (o', s') \<and> con_inv s' (evs @ [ev]) (out @ o')"
  proof (cases ev)
    case (Fd_event events w r)
    then show ?thesis using con_event_fd [OF inv'] en by (simp add: s)
  next
    case Limits_reset
    then show ?thesis using inv' by (auto simp: s BConnection_event_def con_inv_def)
  qed (use con_event_send [OF inv' en'] con_event_recv [OF inv' en'] in \<open>auto simp: s\<close>)
qed

lemma teardown:
  assumes "teardown_ok c"
  shows "do { c \<leftarrow> BConnection_SendAsync_Free c; c \<leftarrow> BConnection_RecvAsync_Free c; BConnection_Free c } = Some (con_close_fd c)"
  using assms
  by (cases "con_send_state c"; cases "con_recv_state c")
    (auto simp: teardown_ok_def can_wait_def BConnection_SendAsync_Free_def BConnection_RecvAsync_Free_def BConnection_Free_def wait_for_fd_def
      BReactor_SetFileDescriptorEvents_def BReactor_RemoveFileDescriptor_def)

definition connected :: "BConnector \<Rightarrow> con_state option" where
  \<comment> \<open>a connection made of a connector, with both interfaces in use\<close>
  "connected k =
     do { (k, c) \<leftarrow> BConnection_Init_connector k True;
          c \<leftarrow> c;
          c \<leftarrow> BConnection_SendAsync_Init c;
          c \<leftarrow> BConnection_RecvAsync_Init c;
          si \<leftarrow> StreamPassInterface_Sender_Init (con_send_iface c);
          ri \<leftarrow> StreamRecvInterface_Receiver_Init (con_recv_iface c);
          Some (c\<lparr>con_send_iface := si, con_recv_iface := ri\<rparr>, [], []) }"

lemma connected_inv: "connected k = Some s \<Longrightarrow> con_inv s [] []"
  by (auto simp: connected_def bind_Some_iff BConnection_Init_connector_def new_connection_def BReactorLimit_Init_def BReactor_AddFileDescriptor_def
      BConnection_SendAsync_Init_def BConnection_RecvAsync_Init_def StreamPassInterface_Sender_Init_def StreamRecvInterface_Receiver_Init_def
      StreamPassInterface_Init_def StreamRecvInterface_Init_def con_inv_def done_part_def send_ok_def recv_ok_def iface_ok_def si_inv_def
      waits_ok_def no_events_def split: if_splits)

section \<open>Properties\<close>

text \<open>
  C5. A connection is a faithful stream in both directions. Whatever the user sends and receives, however the kernel splits
  and delays the transfers, and in whatever order jobs and events come, no assertion fails and no byte outside the
  user's memory is touched: the bytes given to \<open>write\<close> are those the user is told were sent (with at most the last
  operation not yet reported), the bytes the user receives are those \<open>read\<close> returned, in order, and no wake-up is lost: while
  an operation is under way, the reactor watches the descriptor for it or its job is set. The connection can be torn
  down at every moment, also after an error. (The kernel reports an error of the descriptor together with a hang-up or with all
  events waited for.)
\<close>

theorem connection_streams:
  assumes start: "connected k = Some s0"
    and legal: "legal_events (\<lambda>s ev. con_enabled s ev \<and> no_lone_error s ev) BConnection_event evs s0"
  shows "\<exists>out c sm rm. run_events BConnection_event evs s0 = Some (out, c, sm, rm) \<and>
    (\<exists>p. wrote out = sent out @ p \<and> (si_state (con_send_iface c) \<noteq> State_done_pending \<longrightarrow> p = [])) \<and>
    (\<exists>p. got out = delivered out @ p \<and> (si_state (con_recv_iface c) \<noteq> State_done_pending \<longrightarrow> p = [])) \<and>
    (\<not> con_error c \<and> con_send_state c = SEND_STATE_BUSY \<longrightarrow> (\<exists>w. con_bfd c = Some w \<and> ev_write w)) \<and>
    (\<not> con_error c \<and> con_recv_state c = RECV_STATE_BUSY \<longrightarrow> con_recv_job c \<or> (\<exists>w. con_bfd c = Some w \<and> ev_read w)) \<and>
    do { c \<leftarrow> BConnection_SendAsync_Free c; c \<leftarrow> BConnection_RecvAsync_Free c; BConnection_Free c } = Some (con_close_fd c)"
proof -
  obtain out c sm rm where r: "run_events BConnection_event evs s0 = Some (out, c, sm, rm)" "con_inv (c, sm, rm) evs out"
    using con.run_inv [OF connected_inv [OF start] legal] by auto
  have "teardown_ok c" using r(2) waits_ok_can_wait teardown_okI by (auto simp: con_inv_def)
  note td = teardown [OF this]
  have "\<not> con_error c \<longrightarrow> waits_ok c" using r(2) by (auto simp: con_inv_def)
  then have "\<not> con_error c \<and> con_send_state c = SEND_STATE_BUSY \<longrightarrow> (\<exists>w. con_bfd c = Some w \<and> ev_write w)"
      "\<not> con_error c \<and> con_recv_state c = RECV_STATE_BUSY \<longrightarrow> con_recv_job c \<or> (\<exists>w. con_bfd c = Some w \<and> ev_read w)"
    by (auto simp: waits_ok_def split: if_splits)
  then show ?thesis using r td by (auto simp: con_inv_def done_part_def)
qed

abbreviation example_connector :: BConnector where
  "example_connector \<equiv> \<lparr>cr_fd = 7, cr_connected = True, cr_have_bfd = False, cr_bfd = None, cr_job = False\<rparr>"

abbreviation example_con_events :: "con_event list" where
  "example_con_events \<equiv>
     [User_recv 4, User_send [1, 2, 3], Recv_operation Read_again, Send_operation (Write_bytes 2), Send_done,
      Fd_event (no_events\<lparr>ev_read := True\<rparr>) Write_again (Read_bytes [9]), Recv_done]"

theorem connection_streams_witness:
  "\<exists>s0 out c sm rm. connected example_connector = Some s0 \<and>
     run_events BConnection_event example_con_events s0 = Some (out, c, sm, rm) \<and> wrote out = sent out @ [] \<and> got out = delivered out @ []"
proof -
  obtain s0 where s0: "connected example_connector = Some s0"
      "legal_events (\<lambda>s ev. con_enabled s ev \<and> no_lone_error s ev) BConnection_event example_con_events s0"
      "case run_events BConnection_event example_con_events s0 of
         Some (_, c, _) \<Rightarrow> si_state (con_send_iface c) = State_none \<and> si_state (con_recv_iface c) = State_none | None \<Rightarrow> False"
  proof -
    have "case connected example_connector of None \<Rightarrow> False | Some s0 \<Rightarrow>
        legal_events (\<lambda>s ev. con_enabled s ev \<and> no_lone_error s ev) BConnection_event example_con_events s0 \<and>
        (case run_events BConnection_event example_con_events s0 of
           Some (_, c, _) \<Rightarrow> si_state (con_send_iface c) = State_none \<and> si_state (con_recv_iface c) = State_none | None \<Rightarrow> False)"
      by code_simp
    then show thesis using that by (simp split: option.splits del: run_events.simps legal_events.simps)
  qed
  show ?thesis using connection_streams [OF s0(1,2)] s0(1,3) by (auto simp del: run_events.simps legal_events.simps)
qed




end
