(* ===== verification/Packet_Stream_Sender.thy ===== *)
theory Packet_Stream_Sender
  imports Flow_Interface Event_System
begin

text \<open>
  The adapter that writes packets to a stream (\<open>flow/PacketStreamSender.c\<close>): the user gives it packets through a
  \<open>PacketPassInterface\<close>, it passes them to a \<open>StreamPassInterface\<close>, whose provider may take any part of what it is offered.
\<close>

section \<open>PacketStreamSender\<close>

record PacketStreamSender =
  pss_input :: PacketPassInterface
  pss_output :: StreamInterface
  pss_in_len :: int
  pss_in :: "nat option"
  pss_in_used :: int

definition PacketStreamSender_send_data :: "PacketStreamSender \<Rightarrow> PacketStreamSender option" where
  "PacketStreamSender_send_data s =
     do { cassert (pss_in_len s \<ge> 0);
          if pss_in_used s < pss_in_len s
          then do { out \<leftarrow> StreamPassInterface_Sender_Send (pss_output s) (map_option (\<lambda>a. a + nat (pss_in_used s)) (pss_in s))
                      (pss_in_len s - pss_in_used s);
                    Some (s\<lparr>pss_output := out\<rparr>) }
          else do { i \<leftarrow> PacketPassInterface_Done (pss_input s); Some (s\<lparr>pss_in_len := -1, pss_input := i\<rparr>) } }"

definition PacketStreamSender_input_handler_send :: "PacketStreamSender \<Rightarrow> nat option \<Rightarrow> int \<Rightarrow> PacketStreamSender option" where
  "PacketStreamSender_input_handler_send s data data_len =
     do { cassert (pss_in_len s = -1);
          cassert (data_len \<ge> 0);
          PacketStreamSender_send_data (s\<lparr>pss_in_len := data_len, pss_in := data, pss_in_used := 0\<rparr>) }"

definition PacketStreamSender_output_handler_done :: "PacketStreamSender \<Rightarrow> int \<Rightarrow> PacketStreamSender option" where
  "PacketStreamSender_output_handler_done s data_len =
     do { cassert (pss_in_len s \<ge> 0);
          cassert (data_len > 0);
          cassert (data_len \<le> pss_in_len s - pss_in_used s);
          PacketStreamSender_send_data (s\<lparr>pss_in_used := pss_in_used s + data_len\<rparr>) }"

definition PacketStreamSender_Init :: "StreamInterface \<Rightarrow> int \<Rightarrow> PacketStreamSender option" where
  "PacketStreamSender_Init output mtu =
     do { cassert (mtu \<ge> 0);
          input \<leftarrow> PacketPassInterface_Init mtu;
          output \<leftarrow> StreamPassInterface_Sender_Init output;
          Some \<lparr>pss_input = input, pss_output = output, pss_in_len = -1, pss_in = None, pss_in_used = 0\<rparr> }"

section \<open>The sender between its user and the stream\<close>

text \<open>
  The user gives a packet in a block of memory of its own, at address 0 of the block, and leaves it alone until the
  packet is done; the provider of the stream takes some of the bytes it is offered. The state is the sender with the block, the
  outputs are the bytes written to the stream.
\<close>

datatype pss_event = Give bytes | Give_job | Stream_job | Stream_taken nat | Stream_job_done | Give_job_done

definition PacketStreamSender_event :: "pss_event \<Rightarrow> PacketStreamSender \<times> bytes \<Rightarrow> (bytes \<times> PacketStreamSender \<times> bytes) option" where
  "PacketStreamSender_event ev sm =
     (case sm of (s, m) \<Rightarrow>
      case ev of
        Give p \<Rightarrow> do { i \<leftarrow> PacketPassInterface_Sender_Send (pss_input s) (Some 0) (int (length p)); Some ([], s\<lparr>pss_input := i\<rparr>, p) }
      | Give_job \<Rightarrow>
          do { i \<leftarrow> PacketPassInterface_job_operation (pss_input s);
               s \<leftarrow> PacketStreamSender_input_handler_send (s\<lparr>pss_input := i\<rparr>) (ppi_data i) (ppi_len i);
               Some ([], s, m) }
      | Stream_job \<Rightarrow> do { out \<leftarrow> StreamPassInterface_job_operation (pss_output s); Some ([], s\<lparr>pss_output := out\<rparr>, m) }
      | Stream_taken n \<Rightarrow>
          do { p \<leftarrow> si_data (pss_output s);
               d \<leftarrow> subbytes m p n;
               out \<leftarrow> StreamPassInterface_Done (pss_output s) (int n);
               Some (d, s\<lparr>pss_output := out\<rparr>, m) }
      | Stream_job_done \<Rightarrow>
          do { out \<leftarrow> StreamPassInterface_job_done (pss_output s);
               s \<leftarrow> PacketStreamSender_output_handler_done (s\<lparr>pss_output := out\<rparr>) (si_done_len out);
               Some ([], s, m) }
      | Give_job_done \<Rightarrow> do { i \<leftarrow> PacketPassInterface_job_done (pss_input s); Some ([], s\<lparr>pss_input := i\<rparr>, m) })"

definition pss_enabled :: "PacketStreamSender \<times> bytes \<Rightarrow> pss_event \<Rightarrow> bool" where
  "pss_enabled sm ev \<longleftrightarrow>
     (case sm of (s, m) \<Rightarrow>
      case ev of
        Give p \<Rightarrow> ppi_state (pss_input s) = State_none \<and> int (length p) \<le> ppi_mtu (pss_input s)
      | Give_job \<Rightarrow> ppi_job_operation (pss_input s)
      | Stream_job \<Rightarrow> si_job_operation (pss_output s)
      | Stream_taken n \<Rightarrow> si_state (pss_output s) = State_busy \<and> 0 < n \<and> int n \<le> si_len (pss_output s)
      | Stream_job_done \<Rightarrow> si_job_done (pss_output s)
      | Give_job_done \<Rightarrow> ppi_job_done (pss_input s))"

fun given :: "pss_event list \<Rightarrow> bytes list" where
  "given [] = []"
| "given (Give p # evs) = p # given evs"
| "given (ev # evs) = given evs"

lemma given_append [simp]: "given (evs @ evs') = given evs @ given evs'"
  by (induction evs rule: given.induct) simp_all

definition pss_sending :: "PacketStreamSender \<Rightarrow> bytes \<Rightarrow> bytes \<Rightarrow> bool" where
  \<comment> \<open>a packet is being written, \<open>rest\<close> of it is still to be taken by the stream\<close>
  "pss_sending s m rest \<longleftrightarrow> pss_in_len s = int (length m) \<and> pss_in s = Some 0 \<and> 0 \<le> pss_in_used s \<and> pss_in_used s < pss_in_len s \<and>
     si_state (pss_output s) \<noteq> State_none \<and> si_data (pss_output s) = Some (nat (pss_in_used s)) \<and>
     si_len (pss_output s) = pss_in_len s - pss_in_used s \<and>
     rest = drop (nat (pss_in_used s + (if si_state (pss_output s) = State_done_pending then si_done_len (pss_output s) else 0))) m"

definition pss_inv :: "PacketStreamSender \<times> bytes \<Rightarrow> pss_event list \<Rightarrow> bytes \<Rightarrow> bool" where
  "pss_inv sm evs out \<longleftrightarrow>
     (case sm of (s, m) \<Rightarrow> ppi_done_handler (pss_input s) \<and> ppi_inv (pss_input s) \<and> \<not> ppi_job_requestcancel (pss_input s) \<and>
        si_done_handler (pss_output s) \<and> si_inv (pss_output s) \<and>
        (\<exists>rest. concat (given evs) = out @ rest \<and>
          (if ppi_state (pss_input s) = State_busy then pss_sending s m rest
           else pss_in_len s = -1 \<and> si_state (pss_output s) = State_none \<and>
             (if ppi_state (pss_input s) = State_operation_pending
              then ppi_data (pss_input s) = Some 0 \<and> ppi_len (pss_input s) = int (length m) \<and> rest = m
              else rest = []))))"

lemmas stream_defs = StreamPassInterface_job_operation_def StreamPassInterface_job_done_def StreamPassInterface_Done_def
  StreamPassInterface_Sender_Send_def

lemmas pass_defs = PacketPassInterface_job_operation_def PacketPassInterface_job_done_def PacketPassInterface_Done_def
  PacketPassInterface_Sender_Send_def

lemma send_data_ok:
  assumes "ppi_state (pss_input s) = State_busy" "ppi_done_handler (pss_input s)" "ppi_inv (pss_input s)" "\<not> ppi_job_requestcancel (pss_input s)"
    and "si_done_handler (pss_output s)" "si_inv (pss_output s)" "si_state (pss_output s) = State_none"
    and "pss_in_len s = int (length m)" "pss_in s = Some 0 \<or> m = []" "0 \<le> pss_in_used s" "pss_in_used s \<le> pss_in_len s"
    and "concat (given evs) = out @ drop (nat (pss_in_used s)) m"
  shows "\<exists>s'. PacketStreamSender_send_data s = Some s' \<and> pss_inv (s', m) evs out"
proof (cases "pss_in_used s < pss_in_len s")
  case True
  let ?o = "(pss_output s)\<lparr>si_data := Some (nat (pss_in_used s)), si_len := pss_in_len s - pss_in_used s,
    si_job_operation := True, si_state := State_operation_pending\<rparr>"
  have "PacketStreamSender_send_data s = Some (s\<lparr>pss_output := ?o\<rparr>)" using True assms by (auto simp: PacketStreamSender_send_data_def stream_defs)
  moreover have "pss_inv (s\<lparr>pss_output := ?o\<rparr>, m) evs out" using True assms by (auto simp: pss_inv_def pss_sending_def si_inv_def)
  ultimately show ?thesis by blast
next
  case False
  let ?i = "(pss_input s)\<lparr>ppi_job_requestcancel := False, ppi_job_done := True, ppi_state := State_done_pending\<rparr>"
  have "PacketStreamSender_send_data s = Some (s\<lparr>pss_in_len := -1, pss_input := ?i\<rparr>)"
    using False assms by (auto simp: PacketStreamSender_send_data_def pass_defs)
  moreover have "pss_inv (s\<lparr>pss_in_len := -1, pss_input := ?i\<rparr>, m) evs out" using False assms by (auto simp: pss_inv_def ppi_inv_def)
  ultimately show ?thesis by blast
qed

lemma pss_inv_no_packet: "given [ev] = [] \<Longrightarrow> pss_inv sm (evs @ [ev]) out \<longleftrightarrow> pss_inv sm evs out"
  by (simp add: pss_inv_def)

lemma pss_event:
  assumes inv: "pss_inv sm evs out" and en: "pss_enabled sm ev"
  shows "\<exists>o' sm'. PacketStreamSender_event ev sm = Some (o', sm') \<and> pss_inv sm' (evs @ [ev]) (out @ o')"
proof -
  obtain s m where sm: "sm = (s, m)" by (cases sm)
  show ?thesis
  proof (cases ev)
    case (Give p)
    then show ?thesis using assms
      by (auto simp: sm pss_inv_def pss_enabled_def PacketStreamSender_event_def pass_defs ppi_inv_def)
  next
    case Give_job
    let ?i = "(pss_input s)\<lparr>ppi_job_operation := False, ppi_state := State_busy\<rparr>"
    have "\<exists>s'. PacketStreamSender_send_data (s\<lparr>pss_input := ?i, pss_in_len := ppi_len ?i, pss_in := ppi_data ?i, pss_in_used := 0\<rparr>) = Some s'
        \<and> pss_inv (s', m) evs out"
      by (rule send_data_ok) (use assms Give_job in \<open>auto simp: sm pss_inv_def pss_enabled_def ppi_inv_def\<close>)
    moreover have "ppi_state (pss_input s) = State_operation_pending" "pss_in_len s = -1" "0 \<le> ppi_len (pss_input s)"
      using assms Give_job by (auto simp: sm pss_inv_def pss_enabled_def ppi_inv_def)
    ultimately show ?thesis using Give_job
      by (auto simp: sm PacketStreamSender_event_def PacketStreamSender_input_handler_send_def PacketPassInterface_job_operation_def
          pss_inv_no_packet)
  next
    case Stream_job
    then show ?thesis using assms
      by (auto simp: sm pss_inv_def pss_sending_def pss_enabled_def PacketStreamSender_event_def stream_defs si_inv_def split: if_splits)
  next
    case (Stream_taken n)
    let ?k = "nat (pss_in_used s)" and ?o = "(pss_output s)\<lparr>si_done_len := int n, si_job_done := True, si_state := State_done_pending\<rparr>"
    have st: "si_state (pss_output s) = State_busy" "0 < n" "int n \<le> si_len (pss_output s)"
      using en Stream_taken by (auto simp: sm pss_enabled_def)
    then have snd: "ppi_state (pss_input s) = State_busy" "concat (given evs) = out @ drop ?k m" "pss_sending s m (drop ?k m)"
      using inv by (auto simp: sm pss_inv_def pss_sending_def split: if_splits)
    then have len: "?k + n \<le> length m" "si_data (pss_output s) = Some ?k" using st by (auto simp: pss_sending_def)
    have "drop ?k m = take n (drop ?k m) @ drop (?k + n) m" by (metis append_take_drop_id drop_drop add.commute)
    moreover have "pss_sending (s\<lparr>pss_output := ?o\<rparr>) m (drop (?k + n) m)" using snd(3) by (simp add: pss_sending_def nat_add_distrib)
    moreover have "si_inv ?o" using inv st by (auto simp: sm pss_inv_def si_inv_def)
    ultimately have "pss_inv (s\<lparr>pss_output := ?o\<rparr>, m) (evs @ [ev]) (out @ take n (drop ?k m))"
      using inv snd Stream_taken by (simp add: sm pss_inv_def) blast
    moreover have "PacketStreamSender_event ev sm = Some (take n (drop ?k m), s\<lparr>pss_output := ?o\<rparr>, m)"
      using st len Stream_taken by (simp add: sm PacketStreamSender_event_def subbytes_def StreamPassInterface_Done_def)
    ultimately show ?thesis by blast
  next
    case Stream_job_done
    let ?o = "(pss_output s)\<lparr>si_job_done := False, si_state := State_none\<rparr>"
    have "\<exists>s'. PacketStreamSender_send_data (s\<lparr>pss_output := ?o, pss_in_used := pss_in_used s + si_done_len ?o\<rparr>) = Some s'
        \<and> pss_inv (s', m) evs out"
      by (rule send_data_ok)
        (use assms Stream_job_done in \<open>auto simp: sm pss_inv_def pss_sending_def pss_enabled_def si_inv_def split: if_splits\<close>)
    moreover have "si_state (pss_output s) = State_done_pending" "0 \<le> pss_in_len s" "0 < si_done_len (pss_output s)"
        "si_done_len (pss_output s) \<le> pss_in_len s - pss_in_used s"
      using assms Stream_job_done by (auto simp: sm pss_inv_def pss_sending_def pss_enabled_def si_inv_def split: if_splits)
    ultimately show ?thesis using Stream_job_done
      by (auto simp: sm PacketStreamSender_event_def PacketStreamSender_output_handler_done_def StreamPassInterface_job_done_def
          pss_inv_no_packet)
  next
    case Give_job_done
    then show ?thesis using assms
      by (auto simp: sm pss_inv_def pss_enabled_def PacketStreamSender_event_def pass_defs ppi_inv_def)
  qed
qed

fun pss_work :: "op_state \<Rightarrow> op_state \<Rightarrow> nat" where
  "pss_work i p =
     (case i of State_operation_pending \<Rightarrow> 2 | State_done_pending \<Rightarrow> 1 | _ \<Rightarrow> 0) +
     (case p of State_operation_pending \<Rightarrow> 1 | State_done_pending \<Rightarrow> 2 | _ \<Rightarrow> 0)"

lemma pass_states:
  "StreamPassInterface_Sender_Send i d n = Some i' \<Longrightarrow> si_state i = State_none \<and> si_state i' = State_operation_pending"
  "StreamPassInterface_job_operation i = Some i' \<Longrightarrow> si_state i = State_operation_pending \<and> si_state i' = State_busy"
  "StreamPassInterface_Done i n = Some i' \<Longrightarrow> si_state i = State_busy \<and> si_state i' = State_done_pending \<and> 0 < n"
  "StreamPassInterface_job_done i = Some i' \<Longrightarrow> si_state i = State_done_pending \<and> si_state i' = State_none"
  "PacketPassInterface_Sender_Send p d n = Some p' \<Longrightarrow> ppi_state p = State_none \<and> ppi_state p' = State_operation_pending"
  "PacketPassInterface_job_operation p = Some p' \<Longrightarrow> ppi_state p = State_operation_pending \<and> ppi_state p' = State_busy"
  "PacketPassInterface_Done p = Some p' \<Longrightarrow> ppi_state p = State_busy \<and> ppi_state p' = State_done_pending"
  "PacketPassInterface_job_done p = Some p' \<Longrightarrow> ppi_state p = State_done_pending \<and> ppi_state p' = State_none"
  by (auto simp: stream_defs pass_defs bind_Some_iff)

interpretation pss: metered_system pss_enabled PacketStreamSender_event pss_inv
  "\<lambda>(s, m). pss_work (ppi_state (pss_input s)) (si_state (pss_output s))" "\<lambda>ev. 3 * length (given [ev])" 3
proof
  show "\<exists>o' sm'. PacketStreamSender_event ev sm = Some (o', sm') \<and> pss_inv sm' (evs @ [ev]) (out @ o')"
    if "pss_inv sm evs out" "pss_enabled sm ev" for sm evs out ev using that by (rule pss_event)
  show "(case sm' of (s, m) \<Rightarrow> pss_work (ppi_state (pss_input s)) (si_state (pss_output s))) + 1
      \<le> (case sm of (s, m) \<Rightarrow> pss_work (ppi_state (pss_input s)) (si_state (pss_output s))) + 3 * length o' + 3 * length (given [ev])"
    if "PacketStreamSender_event ev sm = Some (o', sm')" for sm sm' ev o'
    using that
    by (cases ev; cases sm)
      (auto simp: PacketStreamSender_event_def PacketStreamSender_input_handler_send_def PacketStreamSender_output_handler_done_def
        PacketStreamSender_send_data_def bind_Some_iff simp del: length_greater_0_conv split: if_splits dest!: pass_states subbytes_length)
qed

lemma given_credits: "(\<Sum>ev\<leftarrow>evs. 3 * length (given [ev])) = 3 * length (given evs)"
proof (induction evs)
  case (Cons ev evs)
  then show ?case by (cases ev) simp_all
qed simp

lemma pss_enabled_while_sending:
  assumes "pss_inv (s, m) evs out" "ppi_state (pss_input s) \<noteq> State_none"
  shows "\<exists>ev. pss_enabled (s, m) ev \<and> given [ev] = []"
  using assms
  by (cases "ppi_state (pss_input s)"; cases "si_state (pss_output s)")
    (auto simp: pss_inv_def pss_sending_def pss_enabled_def ppi_inv_def si_inv_def
      intro: exI [of _ Give_job] exI [of _ Stream_job] exI [of _ "Stream_taken 1"] exI [of _ Stream_job_done] exI [of _ Give_job_done])

section \<open>Properties\<close>

text \<open>
  C28. A packet stream sender concatenates: whatever parts of the offered bytes the stream takes and in whatever order the
  jobs run, no assertion fails, no byte outside the packet in hand is read, and the bytes written are a prefix of the
  concatenation of the packets given. When the user is told that a packet is done, all of it has been written. While a
  packet is in hand something other than the user can go on, and there are at most three events for a packet and three for
  a byte, so every packet is written completely.
\<close>

theorem packet_stream_sender_concatenates:
  assumes "PacketStreamSender_Init StreamPassInterface_Init mtu = Some s0" "PacketPassInterface_Sender_Init (pss_input s0) = Some i0"
    and legal: "legal_events pss_enabled PacketStreamSender_event evs (s0\<lparr>pss_input := i0\<rparr>, m0)"
  shows "\<exists>out s m rest. run_events PacketStreamSender_event evs (s0\<lparr>pss_input := i0\<rparr>, m0) = Some (out, s, m) \<and>
    concat (given evs) = out @ rest \<and>
    (ppi_state (pss_input s) = State_none \<or> ppi_job_done (pss_input s) \<longrightarrow> rest = []) \<and>
    (ppi_state (pss_input s) \<noteq> State_none \<longrightarrow> (\<exists>ev. pss_enabled (s, m) ev \<and> given [ev] = [])) \<and>
    length evs \<le> 3 * length out + 3 * length (given evs)"
proof -
  have init: "pss_inv (s0\<lparr>pss_input := i0\<rparr>, m0) [] []" "pss_work (ppi_state i0) (si_state (pss_output s0)) = 0"
    using assms(1,2)
    by (auto simp: PacketStreamSender_Init_def StreamPassInterface_Init_def StreamPassInterface_Sender_Init_def PacketPassInterface_Init_def
        PacketPassInterface_Sender_Init_def bind_Some_iff pss_inv_def ppi_inv_def si_inv_def)
  obtain out s m where r: "run_events PacketStreamSender_event evs (s0\<lparr>pss_input := i0\<rparr>, m0) = Some (out, s, m)" "pss_inv (s, m) evs out"
    using pss.run_inv [OF init(1) legal] by auto
  then obtain rest where "concat (given evs) = out @ rest" "ppi_state (pss_input s) = State_none \<or> ppi_job_done (pss_input s) \<longrightarrow> rest = []"
    by (auto simp: pss_inv_def ppi_inv_def split: if_splits)
  moreover have "length evs \<le> 3 * length out + 3 * length (given evs)"
    using pss.run_work [OF init(1) legal r(1)] init(2) unfolding given_credits by simp
  ultimately show ?thesis using r(1) pss_enabled_while_sending [OF r(2)] by blast
qed

abbreviation pss_example :: PacketStreamSender where
  "pss_example \<equiv> the (PacketStreamSender_Init StreamPassInterface_Init 3)"

abbreviation pss_example_state :: "PacketStreamSender \<times> bytes" where
  "pss_example_state \<equiv> (pss_example\<lparr>pss_input := the (PacketPassInterface_Sender_Init (pss_input pss_example))\<rparr>, [])"

abbreviation pss_example_events :: "pss_event list" where
  "pss_example_events \<equiv>
     [Give [1, 2, 3], Give_job, Stream_job, Stream_taken 2, Stream_job_done, Stream_job, Stream_taken 1, Stream_job_done, Give_job_done,
      Give [4], Give_job, Stream_job, Stream_taken 1, Stream_job_done]"

theorem packet_stream_sender_concatenates_witness:
  "\<exists>s. run_events PacketStreamSender_event pss_example_events pss_example_state = Some ([1, 2, 3, 4], s)"
proof -
  have init: "PacketStreamSender_Init StreamPassInterface_Init 3 = Some pss_example"
      "PacketPassInterface_Sender_Init (pss_input pss_example) = Some (the (PacketPassInterface_Sender_Init (pss_input pss_example)))"
    by code_simp+
  have "case run_events PacketStreamSender_event pss_example_events pss_example_state of
      Some (_, s, _) \<Rightarrow> ppi_job_done (pss_input s) | None \<Rightarrow> False" by code_simp
  moreover have legal: "legal_events pss_enabled PacketStreamSender_event pss_example_events pss_example_state" by code_simp
  obtain out s m rest where "run_events PacketStreamSender_event pss_example_events pss_example_state = Some (out, s, m)"
      "concat (given pss_example_events) = out @ rest" "ppi_state (pss_input s) = State_none \<or> ppi_job_done (pss_input s) \<longrightarrow> rest = []"
    using packet_stream_sender_concatenates [OF init legal] by blast
  moreover have "concat (given pss_example_events) = [1, 2, 3, 4]" by simp
  ultimately show ?thesis by (auto simp del: run_events.simps given.simps)
qed

end
