(* ===== verification/Socks_Client.thy ===== *)
theory Socks_Client
  imports Connection Packet_Stream_Sender Size_Arith "HOL-Library.Sublist"
begin

text \<open>
  The SOCKS 5 client (\<open>socksclient/BSocksClient.c\<close>, \<open>misc/socks_proto.h\<close>): it connects to the server, negotiates the
  authentication, asks for a connection to the destination and hands the connection over to its user. The
  messages are built in and read into one buffer on the heap, which is a list of bytes; pointers into it are offsets.
  \<open>realloc\<close> is a parameter. Handlers return the new state with the events reported to the user of the client.
\<close>

section \<open>State\<close>

abbreviation SOCKS_VERSION :: u8 where "SOCKS_VERSION \<equiv> 5"
abbreviation SOCKS_METHOD_NO_AUTHENTICATION_REQUIRED :: u8 where "SOCKS_METHOD_NO_AUTHENTICATION_REQUIRED \<equiv> 0"
abbreviation SOCKS_METHOD_USERNAME_PASSWORD :: u8 where "SOCKS_METHOD_USERNAME_PASSWORD \<equiv> 2"
abbreviation SOCKS_CMD_CONNECT :: u8 where "SOCKS_CMD_CONNECT \<equiv> 1"
abbreviation SOCKS_ATYP_IPV4 :: u8 where "SOCKS_ATYP_IPV4 \<equiv> 1"
abbreviation SOCKS_ATYP_IPV6 :: u8 where "SOCKS_ATYP_IPV6 \<equiv> 4"
abbreviation SOCKS_REP_SUCCEEDED :: u8 where "SOCKS_REP_SUCCEEDED \<equiv> 0"

datatype socks_state =
    STATE_CONNECTING | STATE_SENDING_HELLO | STATE_SENT_HELLO | STATE_SENDING_PASSWORD | STATE_SENT_PASSWORD
  | STATE_SENDING_REQUEST | STATE_SENT_REQUEST | STATE_RECEIVED_REPLY_HEADER | STATE_UP

datatype socks_report = BSOCKSCLIENT_EVENT_ERROR | BSOCKSCLIENT_EVENT_UP | BSOCKSCLIENT_EVENT_ERROR_CLOSED

record BSocksClient_auth_info =
  auth_type :: u8
  auth_username :: bytes
  auth_password :: bytes

definition BSocksClient_auth_none :: BSocksClient_auth_info where
  "BSocksClient_auth_none = \<lparr>auth_type = SOCKS_METHOD_NO_AUTHENTICATION_REQUIRED, auth_username = [], auth_password = []\<rparr>"

definition BSocksClient_auth_password :: "bytes \<Rightarrow> bytes \<Rightarrow> BSocksClient_auth_info" where
  "BSocksClient_auth_password username password =
     \<lparr>auth_type = SOCKS_METHOD_USERNAME_PASSWORD, auth_username = username, auth_password = password\<rparr>"

text \<open>
  The receiving interface used for the negotiation is that of the connection, the sending one is the input of
  \<open>sc_sender\<close>, whose output is the sending interface of the connection.
\<close>

record BSocksClient =
  sc_auth_info :: "BSocksClient_auth_info list"
  sc_dest_addr :: BAddr
  sc_state :: socks_state
  sc_buffer :: "bytes option"
  sc_connector :: BConnector
  sc_con :: "BConnection option"
  sc_sender :: "PacketStreamSender option"
  sc_recv_dest :: nat
  sc_recv_len :: int
  sc_recv_total :: int
  sc_error :: bool  \<comment> \<open>the job of \<open>d_err\<close>\<close>

type_synonym socks_result = "(socks_report list \<times> BSocksClient) option"

type_synonym reallocator = "bytes option \<Rightarrow> u64 \<Rightarrow> bytes option"

section \<open>Operations\<close>

definition report_error :: "BSocksClient \<Rightarrow> socks_report \<Rightarrow> socks_result" where
  "report_error s error = do { cassert (\<not> sc_error s); Some ([error], s\<lparr>sc_error := True\<rparr>) }"

definition init_control_io :: "BSocksClient \<Rightarrow> BSocksClient option" where
  "init_control_io s =
     do { con \<leftarrow> sc_con s;
          con \<leftarrow> BConnection_RecvAsync_Init con;
          recv_if \<leftarrow> BConnection_RecvAsync_GetIf con;
          recv_if \<leftarrow> StreamRecvInterface_Receiver_Init recv_if;
          con \<leftarrow> BConnection_SendAsync_Init (con\<lparr>con_recv_iface := recv_if\<rparr>);
          output \<leftarrow> BConnection_SendAsync_GetIf con;
          sender \<leftarrow> PacketStreamSender_Init output INT_MAX;
          send_if \<leftarrow> PacketPassInterface_Sender_Init (pss_input sender);
          Some (s\<lparr>sc_con := Some con, sc_sender := Some (sender\<lparr>pss_input := send_if\<rparr>)\<rparr>) }"

definition free_control_io :: "BSocksClient \<Rightarrow> BSocksClient option" where
  "free_control_io s =
     do { sender \<leftarrow> sc_sender s;
          con \<leftarrow> sc_con s;
          con \<leftarrow> BConnection_SendAsync_Free con;
          con \<leftarrow> BConnection_RecvAsync_Free con;
          Some (s\<lparr>sc_con := Some con, sc_sender := None\<rparr>) }"

definition init_up_io :: "BSocksClient \<Rightarrow> BSocksClient option" where
  "init_up_io s =
     do { con \<leftarrow> sc_con s;
          con \<leftarrow> BConnection_RecvAsync_Init con;
          con \<leftarrow> BConnection_SendAsync_Init con;
          Some (s\<lparr>sc_con := Some con\<rparr>) }"

definition free_up_io :: "BSocksClient \<Rightarrow> BSocksClient option" where
  "free_up_io s =
     do { con \<leftarrow> sc_con s;
          con \<leftarrow> BConnection_SendAsync_Free con;
          con \<leftarrow> BConnection_RecvAsync_Free con;
          Some (s\<lparr>sc_con := Some con\<rparr>) }"

definition reserve_buffer :: "reallocator \<Rightarrow> BSocksClient \<Rightarrow> bsize_t \<Rightarrow> BSocksClient option" where
  \<comment> \<open>\<^term>\<open>None\<close> is the result 0\<close>
  "reserve_buffer realloc s sz =
     (if is_overflow sz then None
      else do { n \<leftarrow> BRealloc (bsize_value sz); buffer \<leftarrow> realloc (sc_buffer s) n; Some (s\<lparr>sc_buffer := Some buffer\<rparr>) })"

definition do_receive :: "BSocksClient \<Rightarrow> BSocksClient option" where
  "do_receive s =
     do { cassert (sc_recv_len s < sc_recv_total s);
          con \<leftarrow> sc_con s;
          recv_if \<leftarrow> StreamRecvInterface_Receiver_Recv (con_recv_iface con) (Some (sc_recv_dest s + nat (sc_recv_len s)))
            (sc_recv_total s - sc_recv_len s);
          Some (s\<lparr>sc_con := Some (con\<lparr>con_recv_iface := recv_if\<rparr>)\<rparr>) }"

definition start_receive :: "BSocksClient \<Rightarrow> nat \<Rightarrow> int \<Rightarrow> BSocksClient option" where
  "start_receive s dest recv_total =
     do { cassert (recv_total > 0); do_receive (s\<lparr>sc_recv_dest := dest, sc_recv_len := 0, sc_recv_total := recv_total\<rparr>) }"

definition send_buffer :: "BSocksClient \<Rightarrow> bsize_t \<Rightarrow> BSocksClient option" where
  \<comment> \<open>the call of \<open>PacketPassInterface_Sender_Send\<close> with the buffer\<close>
  "send_buffer s sz =
     do { sender \<leftarrow> sc_sender s;
          send_if \<leftarrow> PacketPassInterface_Sender_Send (pss_input sender) (map_option (\<lambda>_. 0) (sc_buffer s)) (int32 (uint (bsize_value sz)));
          Some (s\<lparr>sc_sender := Some (sender\<lparr>pss_input := send_if\<rparr>)\<rparr>) }"

definition put :: "BSocksClient \<Rightarrow> nat \<Rightarrow> bytes \<Rightarrow> BSocksClient option" where
  \<comment> \<open>\<open>memcpy\<close> into the buffer\<close>
  "put s i d = do { buffer \<leftarrow> sc_buffer s; buffer \<leftarrow> overwrite buffer i d; Some (s\<lparr>sc_buffer := Some buffer\<rparr>) }"

fun put_methods :: "BSocksClient \<Rightarrow> nat \<Rightarrow> BSocksClient_auth_info list \<Rightarrow> BSocksClient option" where
  "put_methods s i [] = Some s"
| "put_methods s i (a # as) = do { s \<leftarrow> put s (2 + i) [hton8 (auth_type a)]; put_methods s (i + 1) as }"

definition connector_handler :: "reallocator \<Rightarrow> bool \<Rightarrow> BSocksClient \<Rightarrow> bool \<Rightarrow> socks_result" where
  \<comment> \<open>\<open>added\<close> is the result of registering the descriptor in \<open>BConnection_Init\<close>\<close>
  "connector_handler realloc added s is_error =
     do { cassert (sc_state s = STATE_CONNECTING);
          if is_error then report_error s BSOCKSCLIENT_EVENT_ERROR
          else do {
            (connector, con) \<leftarrow> BConnection_Init_connector (sc_connector s) added;
            s \<leftarrow> Some (s\<lparr>sc_connector := connector, sc_con := con\<rparr>);
            if con = None then report_error s BSOCKSCLIENT_EVENT_ERROR
            else do {
              s \<leftarrow> init_control_io s;
              num_auth_info \<leftarrow> Some (length (sc_auth_info s));
              sz \<leftarrow> Some (bsize_add (bsize_fromsize 2) (bsize_mul (bsize_fromsize (of_nat num_auth_info)) (bsize_fromsize 1)));
              case if num_auth_info = 0 \<or> num_auth_info > 255 then None else reserve_buffer realloc s sz of
                None \<Rightarrow>
                  do { s \<leftarrow> free_control_io s;
                       con \<leftarrow> sc_con s;
                       BConnection_Free con;
                       report_error (s\<lparr>sc_con := None\<rparr>) BSOCKSCLIENT_EVENT_ERROR }
              | Some s \<Rightarrow>
                  do { s \<leftarrow> put s 0 [hton8 SOCKS_VERSION, hton8 (of_nat num_auth_info)];
                       s \<leftarrow> put_methods s 0 (sc_auth_info s);
                       s \<leftarrow> send_buffer s sz;
                       Some ([], s\<lparr>sc_state := STATE_SENDING_HELLO\<rparr>) } } } }"

definition connection_handler :: "BSocksClient \<Rightarrow> con_out \<Rightarrow> socks_result" where
  "connection_handler s event =
     do { cassert (sc_state s \<noteq> STATE_CONNECTING);
          if sc_state s = STATE_UP \<and> event = Event_recvclosed then report_error s BSOCKSCLIENT_EVENT_ERROR_CLOSED
          else report_error s BSOCKSCLIENT_EVENT_ERROR }"

definition auth_finished :: "endian \<Rightarrow> reallocator \<Rightarrow> BSocksClient \<Rightarrow> socks_result" where
  "auth_finished e realloc s =
     do { sz \<leftarrow> Some (case sc_dest_addr s of
               BAddr_IPv4 _ _ \<Rightarrow> bsize_add (bsize_fromsize 4) (bsize_fromsize 6)
             | BAddr_IPv6 _ _ \<Rightarrow> bsize_add (bsize_fromsize 4) (bsize_fromsize 18)
             | _ \<Rightarrow> bsize_fromsize 4);
          case reserve_buffer realloc s sz of
            None \<Rightarrow> report_error s BSOCKSCLIENT_EVENT_ERROR
          | Some s \<Rightarrow>
              do { (s, atyp) \<leftarrow> (case sc_dest_addr s of
                     BAddr_IPv4 ip port \<Rightarrow> do { s \<leftarrow> put s 4 (mem32 e ip @ mem16 e port); Some (s, SOCKS_ATYP_IPV4) }
                   | BAddr_IPv6 ip port \<Rightarrow> do { s \<leftarrow> put s 4 (ip @ mem16 e port); Some (s, SOCKS_ATYP_IPV6) }
                   | _ \<Rightarrow> None);
                   s \<leftarrow> put s 0 [hton8 SOCKS_VERSION, hton8 SOCKS_CMD_CONNECT, hton8 0, hton8 atyp];
                   s \<leftarrow> send_buffer s sz;
                   Some ([], s\<lparr>sc_state := STATE_SENDING_REQUEST\<rparr>) } }"

definition send_password :: "reallocator \<Rightarrow> BSocksClient \<Rightarrow> BSocksClient_auth_info \<Rightarrow> socks_result" where
  \<comment> \<open>the case of password authentication in \<open>recv_handler_done\<close>\<close>
  "send_password realloc s ai =
     (let username_len = length (auth_username ai); password_len = length (auth_password ai);
          sz = bsize_fromsize (1 + 1 + of_nat username_len + 1 + of_nat password_len) in
      case if username_len = 0 \<or> username_len > 255 \<or> password_len = 0 \<or> password_len > 255 then None
           else reserve_buffer realloc s sz of
        None \<Rightarrow> report_error s BSOCKSCLIENT_EVENT_ERROR
      | Some s \<Rightarrow>
          do { s \<leftarrow> put s 0 [1];
               s \<leftarrow> put s 1 [of_nat username_len];
               s \<leftarrow> put s 2 (auth_username ai);
               s \<leftarrow> put s (2 + username_len) [of_nat password_len];
               s \<leftarrow> put s (3 + username_len) (auth_password ai);
               s \<leftarrow> send_buffer s sz;
               Some ([], s\<lparr>sc_state := STATE_SENDING_PASSWORD\<rparr>) })"

definition received_hello :: "endian \<Rightarrow> reallocator \<Rightarrow> BSocksClient \<Rightarrow> socks_result" where
  "received_hello e realloc s =
     do { buffer \<leftarrow> sc_buffer s;
          imsg \<leftarrow> subbytes buffer 0 2;
          if ntoh8 (imsg ! 0) \<noteq> SOCKS_VERSION then report_error s BSOCKSCLIENT_EVENT_ERROR
          else case find (\<lambda>a. auth_type a = ntoh8 (imsg ! 1)) (sc_auth_info s) of
                 None \<Rightarrow> report_error s BSOCKSCLIENT_EVENT_ERROR
               | Some ai \<Rightarrow>
                   if auth_type ai = SOCKS_METHOD_NO_AUTHENTICATION_REQUIRED then auth_finished e realloc s
                   else if auth_type ai = SOCKS_METHOD_USERNAME_PASSWORD then send_password realloc s ai
                   else None }"

definition received_reply_header :: "BSocksClient \<Rightarrow> socks_result" where
  "received_reply_header s =
     do { buffer \<leftarrow> sc_buffer s;
          imsg \<leftarrow> subbytes buffer 0 4;
          if ntoh8 (imsg ! 0) \<noteq> SOCKS_VERSION then report_error s BSOCKSCLIENT_EVENT_ERROR
          else if ntoh8 (imsg ! 1) \<noteq> SOCKS_REP_SUCCEEDED then report_error s BSOCKSCLIENT_EVENT_ERROR
          else case if ntoh8 (imsg ! 3) = SOCKS_ATYP_IPV4 then Some 6
                    else if ntoh8 (imsg ! 3) = SOCKS_ATYP_IPV6 then Some 18 else None of
                 None \<Rightarrow> report_error s BSOCKSCLIENT_EVENT_ERROR
               | Some addr_len \<Rightarrow>
                   do { s \<leftarrow> start_receive s 4 addr_len; Some ([], s\<lparr>sc_state := STATE_RECEIVED_REPLY_HEADER\<rparr>) } }"

definition received_password_reply :: "endian \<Rightarrow> reallocator \<Rightarrow> BSocksClient \<Rightarrow> socks_result" where
  "received_password_reply e realloc s =
     do { buffer \<leftarrow> sc_buffer s;
          b0 \<leftarrow> byte_at buffer 0;
          if b0 \<noteq> 1 then report_error s BSOCKSCLIENT_EVENT_ERROR
          else do { b1 \<leftarrow> byte_at buffer 1;
                    if b1 \<noteq> 0 then report_error s BSOCKSCLIENT_EVENT_ERROR else auth_finished e realloc s } }"

definition received_reply_rest :: "BSocksClient \<Rightarrow> socks_result" where
  "received_reply_rest s =
     do { s \<leftarrow> Some (s\<lparr>sc_buffer := None\<rparr>);
          s \<leftarrow> free_control_io s;
          s \<leftarrow> init_up_io s;
          Some ([BSOCKSCLIENT_EVENT_UP], s\<lparr>sc_state := STATE_UP\<rparr>) }"

definition recv_handler_done :: "endian \<Rightarrow> reallocator \<Rightarrow> BSocksClient \<Rightarrow> int \<Rightarrow> socks_result" where
  "recv_handler_done e realloc s data_len =
     do { cassert (data_len \<ge> 0);
          cassert (data_len \<le> sc_recv_total s - sc_recv_len s);
          s \<leftarrow> Some (s\<lparr>sc_recv_len := sc_recv_len s + data_len\<rparr>);
          if sc_recv_len s < sc_recv_total s then do { s \<leftarrow> do_receive s; Some ([], s) }
          else case sc_state s of
                 STATE_SENT_HELLO \<Rightarrow> received_hello e realloc s
               | STATE_SENT_REQUEST \<Rightarrow> received_reply_header s
               | STATE_SENT_PASSWORD \<Rightarrow> received_password_reply e realloc s
               | STATE_RECEIVED_REPLY_HEADER \<Rightarrow> received_reply_rest s
               | _ \<Rightarrow> None }"

definition receive_into :: "reallocator \<Rightarrow> BSocksClient \<Rightarrow> bsize_t \<Rightarrow> int \<Rightarrow> socks_state \<Rightarrow> socks_result" where
  \<comment> \<open>what the three cases of \<open>send_handler_done\<close> do with their sizes\<close>
  "receive_into realloc s sz recv_total state =
     (case reserve_buffer realloc s sz of
        None \<Rightarrow> report_error s BSOCKSCLIENT_EVENT_ERROR
      | Some s \<Rightarrow> do { s \<leftarrow> start_receive s 0 recv_total; Some ([], s\<lparr>sc_state := state\<rparr>) })"

definition send_handler_done :: "reallocator \<Rightarrow> BSocksClient \<Rightarrow> socks_result" where
  "send_handler_done realloc s =
     do { cassert (sc_buffer s \<noteq> None);
          case sc_state s of
            STATE_SENDING_HELLO \<Rightarrow> receive_into realloc s (bsize_fromsize 2) 2 STATE_SENT_HELLO
          | STATE_SENDING_REQUEST \<Rightarrow>
              receive_into realloc s (bsize_add (bsize_fromsize 4) (bsize_max (bsize_fromsize 6) (bsize_fromsize 18))) 4 STATE_SENT_REQUEST
          | STATE_SENDING_PASSWORD \<Rightarrow> receive_into realloc s (bsize_fromsize 2) 2 STATE_SENT_PASSWORD
          | _ \<Rightarrow> None }"

definition BSocksClient_Init :: "BAddr \<Rightarrow> BSocksClient_auth_info list \<Rightarrow> BAddr \<Rightarrow> int \<Rightarrow> bool \<Rightarrow> connect_result \<Rightarrow> bool \<Rightarrow> BSocksClient option option" where
  \<comment> \<open>the last four arguments are the results of the system calls of \<open>BConnector_Init\<close>\<close>
  "BSocksClient_Init server_addr auth_info dest_addr sock nonblocking connect added =
     do { cassert (\<not> BAddr_IsInvalid server_addr);
          cassert (case dest_addr of BAddr_IPv4 _ _ \<Rightarrow> True | BAddr_IPv6 _ _ \<Rightarrow> True | _ \<Rightarrow> False);
          cassert (list_all (\<lambda>a. auth_type a = SOCKS_METHOD_NO_AUTHENTICATION_REQUIRED \<or> auth_type a = SOCKS_METHOD_USERNAME_PASSWORD) auth_info);
          connector \<leftarrow> BConnector_InitFrom (BLISCON_FROM_ADDR server_addr) sock nonblocking connect added;
          Some (case connector of
                  None \<Rightarrow> None
                | Some connector \<Rightarrow>
                    Some \<lparr>sc_auth_info = auth_info, sc_dest_addr = dest_addr, sc_state = STATE_CONNECTING, sc_buffer = None,
                          sc_connector = connector, sc_con = None, sc_sender = None, sc_recv_dest = 0, sc_recv_len = 0,
                          sc_recv_total = 0, sc_error = False\<rparr>) }"

definition BSocksClient_Free :: "BSocksClient \<Rightarrow> BSocksClient option" where
  \<comment> \<open>the result shows what is still allocated\<close>
  "BSocksClient_Free s =
     do { s \<leftarrow> (if sc_state s \<noteq> STATE_CONNECTING
               then do { s \<leftarrow> (if sc_state s = STATE_UP then free_up_io s else free_control_io s);
                         con \<leftarrow> sc_con s;
                         BConnection_Free con;
                         Some (s\<lparr>sc_con := None\<rparr>) }
               else Some s);
          BConnector_Free (sc_connector s);
          Some (s\<lparr>sc_buffer := None\<rparr>) }"

definition BSocksClient_GetSendInterface :: "BSocksClient \<Rightarrow> StreamInterface option" where
  "BSocksClient_GetSendInterface s = do { cassert (sc_state s = STATE_UP); con \<leftarrow> sc_con s; BConnection_SendAsync_GetIf con }"

definition BSocksClient_GetRecvInterface :: "BSocksClient \<Rightarrow> StreamInterface option" where
  "BSocksClient_GetRecvInterface s = do { cassert (sc_state s = STATE_UP); con \<leftarrow> sc_con s; BConnection_RecvAsync_GetIf con }"

section \<open>The client between its server and its user\<close>

text \<open>
  The events a client meets: its connector finishes, the sender and the stream make progress, the connection delivers
  bytes, and the connection reports that it is closed or broken. The outputs are the bytes written to the server and the events
  reported to the user.
\<close>

datatype socks_event =
    Connector_fd "int option" bool | Connector_job bool | Sender pss_event
  | Recv_start | Recv_data bytes | Recv_finished | Connection con_out

datatype socks_out = Wire bytes | Report socks_report

definition BSocksClient_event :: "endian \<Rightarrow> reallocator \<Rightarrow> socks_event \<Rightarrow> BSocksClient \<Rightarrow> (socks_out list \<times> BSocksClient) option" where
  "BSocksClient_event e realloc ev s =
     (case ev of
        Connector_fd result added \<Rightarrow>
          do { (is_error, connector) \<leftarrow> connector_fd_handler result (sc_connector s);
               (rs, s) \<leftarrow> connector_handler realloc added (s\<lparr>sc_connector := connector\<rparr>) is_error;
               Some (map Report rs, s) }
      | Connector_job added \<Rightarrow>
          do { (is_error, connector) \<leftarrow> connector_job_handler (sc_connector s);
               (rs, s) \<leftarrow> connector_handler realloc added (s\<lparr>sc_connector := connector\<rparr>) is_error;
               Some (map Report rs, s) }
      | Sender sev \<Rightarrow>
          do { sender \<leftarrow> sc_sender s;
               buffer \<leftarrow> sc_buffer s;
               (w, sender, buffer) \<leftarrow> PacketStreamSender_event sev (sender, buffer);
               (rs, s) \<leftarrow> (if sev = Give_job_done then send_handler_done realloc (s\<lparr>sc_sender := Some sender\<rparr>)
                          else Some ([], s\<lparr>sc_sender := Some sender\<rparr>));
               Some (Wire w # map Report rs, s) }
      | Recv_start \<Rightarrow>
          do { con \<leftarrow> sc_con s;
               i \<leftarrow> StreamRecvInterface_job_operation (con_recv_iface con);
               Some ([], s\<lparr>sc_con := Some (con\<lparr>con_recv_iface := i\<rparr>)\<rparr>) }
      | Recv_data d \<Rightarrow>
          do { con \<leftarrow> sc_con s;
               buffer \<leftarrow> sc_buffer s;
               p \<leftarrow> si_data (con_recv_iface con);
               buffer \<leftarrow> overwrite buffer p d;
               i \<leftarrow> StreamRecvInterface_Done (con_recv_iface con) (int (length d));
               Some ([], s\<lparr>sc_buffer := Some buffer, sc_con := Some (con\<lparr>con_recv_iface := i\<rparr>)\<rparr>) }
      | Recv_finished \<Rightarrow>
          do { con \<leftarrow> sc_con s;
               i \<leftarrow> StreamRecvInterface_job_done (con_recv_iface con);
               (rs, s) \<leftarrow> recv_handler_done e realloc (s\<lparr>sc_con := Some (con\<lparr>con_recv_iface := i\<rparr>)\<rparr>) (si_done_len i);
               Some (map Report rs, s) }
      | Connection event \<Rightarrow> do { (rs, s) \<leftarrow> connection_handler s event; Some (map Report rs, s) })"

definition socks_enabled :: "BSocksClient \<Rightarrow> socks_event \<Rightarrow> bool" where
  \<comment> \<open>after an error was reported the user must free the client\<close>
  "socks_enabled s ev \<longleftrightarrow> \<not> sc_error s \<and>
     (case ev of
        Connector_fd result added \<Rightarrow> sc_state s = STATE_CONNECTING \<and> cr_have_bfd (sc_connector s)
      | Connector_job added \<Rightarrow> sc_state s = STATE_CONNECTING \<and> cr_job (sc_connector s)
      | Sender sev \<Rightarrow> (case (sc_sender s, sc_buffer s) of
            (Some sender, Some buffer) \<Rightarrow> given [sev] = [] \<and> pss_enabled (sender, buffer) sev | _ \<Rightarrow> False)
      | Recv_start \<Rightarrow> (case (sc_sender s, sc_con s) of (Some _, Some con) \<Rightarrow> si_job_operation (con_recv_iface con) | _ \<Rightarrow> False)
      | Recv_data d \<Rightarrow> (case (sc_sender s, sc_con s) of
            (Some _, Some con) \<Rightarrow> si_state (con_recv_iface con) = State_busy \<and> d \<noteq> [] \<and> int (length d) \<le> si_len (con_recv_iface con)
          | _ \<Rightarrow> False)
      | Recv_finished \<Rightarrow> (case (sc_sender s, sc_con s) of (Some _, Some con) \<Rightarrow> si_job_done (con_recv_iface con) | _ \<Rightarrow> False)
      | Connection event \<Rightarrow> sc_con s \<noteq> None \<and> (event = Event_error \<or> event = Event_recvclosed))"

section \<open>The SOCKS 5 conversation\<close>

text \<open>
  What the protocol says the client has to send when it has received a sequence of bytes, and where the conversation
  stands: more bytes are needed, the server refused (or violated the protocol), or the connection is established
  and the bytes that follow belong to it.
\<close>

datatype verdict = More | Refused | Established bytes

type_synonym talk = "bytes list \<times> verdict"

definition say :: "bytes \<Rightarrow> talk \<Rightarrow> talk" where
  "say m t = (m # fst t, snd t)"

definition talk_address :: "nat \<Rightarrow> bytes \<Rightarrow> talk" where
  "talk_address n x = ([], if length x < n then More else Established (drop n x))"

definition talk_reply :: "bytes \<Rightarrow> talk" where
  "talk_reply x =
     (if length x < 4 then ([], More)
      else if x ! 0 \<noteq> SOCKS_VERSION \<or> x ! 1 \<noteq> SOCKS_REP_SUCCEEDED then ([], Refused)
      else if x ! 3 = SOCKS_ATYP_IPV4 then talk_address 6 (drop 4 x)
      else if x ! 3 = SOCKS_ATYP_IPV6 then talk_address 18 (drop 4 x)
      else ([], Refused))"

definition talk_password :: "bytes \<Rightarrow> bytes \<Rightarrow> talk" where
  "talk_password request x =
     (if length x < 2 then ([], More)
      else if x ! 0 = 1 \<and> x ! 1 = 0 then say request (talk_reply (drop 2 x)) else ([], Refused))"

definition password_message :: "BSocksClient_auth_info \<Rightarrow> bytes" where
  "password_message a =
     [1, of_nat (length (auth_username a))] @ auth_username a @ [of_nat (length (auth_password a))] @ auth_password a"

definition password_fits :: "BSocksClient_auth_info \<Rightarrow> bool" where
  "password_fits a \<longleftrightarrow> 0 < length (auth_username a) \<and> length (auth_username a) \<le> 255 \<and> 0 < length (auth_password a) \<and> length (auth_password a) \<le> 255"

definition talk_hello :: "BSocksClient_auth_info list \<Rightarrow> bytes \<Rightarrow> bytes \<Rightarrow> talk" where
  "talk_hello auth request x =
     (if length x < 2 then ([], More)
      else if x ! 0 \<noteq> SOCKS_VERSION then ([], Refused)
      else case find (\<lambda>a. auth_type a = x ! 1) auth of
             None \<Rightarrow> ([], Refused)
           | Some a \<Rightarrow>
               if auth_type a = SOCKS_METHOD_NO_AUTHENTICATION_REQUIRED then say request (talk_reply (drop 2 x))
               else if password_fits a then say (password_message a) (talk_password request (drop 2 x))
               else ([], Refused))"

definition hello_message :: "BSocksClient_auth_info list \<Rightarrow> bytes" where
  "hello_message auth = [SOCKS_VERSION, of_nat (length auth)] @ map auth_type auth"

definition request_message :: "endian \<Rightarrow> BAddr \<Rightarrow> bytes" where
  "request_message e dest =
     (case dest of
        BAddr_IPv4 ip port \<Rightarrow> [SOCKS_VERSION, SOCKS_CMD_CONNECT, 0, SOCKS_ATYP_IPV4] @ mem32 e ip @ mem16 e port
      | BAddr_IPv6 ip port \<Rightarrow> [SOCKS_VERSION, SOCKS_CMD_CONNECT, 0, SOCKS_ATYP_IPV6] @ ip @ mem16 e port
      | _ \<Rightarrow> [])"

definition socks_talk :: "endian \<Rightarrow> BSocksClient_auth_info list \<Rightarrow> BAddr \<Rightarrow> bytes \<Rightarrow> talk" where
  "socks_talk e auth dest x = say (hello_message auth) (talk_hello auth (request_message e dest) x)"

section \<open>The buffer and the sender\<close>

definition realloc_ok :: "reallocator \<Rightarrow> bool" where
  \<comment> \<open>\<open>realloc\<close> returns memory of the size asked for, or \<open>NULL\<close>\<close>
  "realloc_ok realloc \<longleftrightarrow> (\<forall>b n m. realloc b n = Some m \<longrightarrow> length m = unat n)"

lemma reserve_cases:
  assumes "realloc_ok realloc" "\<not> is_overflow sz" "0 < unat (bsize_value sz)"
  obtains "reserve_buffer realloc s sz = None" "realloc (sc_buffer s) (bsize_value sz) = None"
  | b where "reserve_buffer realloc s sz = Some (s\<lparr>sc_buffer := Some b\<rparr>)" "length b = unat (bsize_value sz)"
proof -
  have "bsize_value sz \<noteq> 0" using assms(3) by auto
  then have eq: "reserve_buffer realloc s sz = map_option (\<lambda>b. s\<lparr>sc_buffer := Some b\<rparr>) (realloc (sc_buffer s) (bsize_value sz))"
    using assms(2) by (cases "realloc (sc_buffer s) (bsize_value sz)") (simp_all add: reserve_buffer_def BRealloc_def)
  show thesis
  proof (cases "realloc (sc_buffer s) (bsize_value sz)")
    case None
    then show thesis using eq by (intro that(1)) simp_all
  next
    case (Some b)
    then show thesis using eq assms(1) by (intro that(2) [of b]) (simp_all add: realloc_ok_def)
  qed
qed

lemma put_at:
  assumes "sc_buffer s = Some (pre @ drop i b)" "length pre = i" "i + length d \<le> length b"
  shows "put s i d = Some (s\<lparr>sc_buffer := Some ((pre @ d) @ drop (i + length d) b)\<rparr>)"
  using assms by (simp add: put_def overwrite_def add.commute)

lemma put_methods_at:
  assumes "sc_buffer s = Some (pre @ drop (2 + i) b)" "length pre = 2 + i" "2 + i + length as \<le> length b"
  shows "put_methods s i as = Some (s\<lparr>sc_buffer := Some (pre @ map auth_type as @ drop (2 + i + length as) b)\<rparr>)"
  using assms
proof (induction "as" arbitrary: s pre i)
  case (Cons a "as")
  let ?s = "s\<lparr>sc_buffer := Some ((pre @ [auth_type a]) @ drop (2 + (i + 1)) b)\<rparr>"
  have "put s (2 + i) [hton8 (auth_type a)] = Some ?s" using put_at [OF Cons.prems(1,2), of "[auth_type a]"] Cons.prems(3) by (simp add: hton8_def)
  moreover have "put_methods ?s (i + 1) as = Some (?s\<lparr>sc_buffer := Some ((pre @ [auth_type a]) @ map auth_type as @ drop (2 + (i + 1) + length as) b)\<rparr>)"
    by (rule Cons.IH) (use Cons.prems in simp_all)
  ultimately show ?case by simp
qed simp

lemma pss_mtu: "PacketStreamSender_event ev (s, m) = Some (w, s', m') \<Longrightarrow> ppi_mtu (pss_input s') = ppi_mtu (pss_input s)"
  by (cases ev)
    (auto simp: PacketStreamSender_event_def PacketStreamSender_input_handler_send_def PacketStreamSender_output_handler_done_def
      PacketStreamSender_send_data_def pass_defs bind_Some_iff split: if_splits)

lemma send_buffer_ok:
  assumes "sc_sender s = Some t" "sc_buffer s = Some b" "pss_inv (t, m) h w" "ppi_state (pss_input t) = State_none"
    and "ppi_mtu (pss_input t) = INT_MAX" "unat (bsize_value sz) = length b" "length b \<le> 600"
  shows "\<exists>t'. send_buffer s sz = Some (s\<lparr>sc_sender := Some t'\<rparr>) \<and> pss_inv (t', b) (h @ [Give b]) w \<and>
    ppi_state (pss_input t') \<noteq> State_none \<and> ppi_mtu (pss_input t') = INT_MAX"
proof -
  have "pss_enabled (t, m) (Give b)" using assms(4,5,7) by (simp add: pss_enabled_def)
  then obtain o' sm where g: "PacketStreamSender_event (Give b) (t, m) = Some (o', sm)" "pss_inv sm (h @ [Give b]) (w @ o')"
    using pss_event [OF assms(3)] by blast
  then obtain i where i: "PacketPassInterface_Sender_Send (pss_input t) (Some 0) (int (length b)) = Some i"
      "o' = []" "sm = (t\<lparr>pss_input := i\<rparr>, b)"
    by (auto simp: PacketStreamSender_event_def bind_Some_iff)
  have "uint (bsize_value sz) = int (length b)" using assms(6) by (metis uint_nat)
  then have "int32 (uint (bsize_value sz)) = int (length b)" using assms(7) int32_id [of "int (length b)"] by simp
  then have "send_buffer s sz = Some (s\<lparr>sc_sender := Some (t\<lparr>pss_input := i\<rparr>)\<rparr>)" using i(1) assms(1,2) by (simp add: send_buffer_def)
  moreover have "ppi_state i \<noteq> State_none" "ppi_mtu i = INT_MAX"
    using i(1) assms(5) by (auto simp: PacketPassInterface_Sender_Send_def bind_Some_iff)
  ultimately show ?thesis using g(2) i(2,3) by (intro exI [of _ "t\<lparr>pss_input := i\<rparr>"]) simp
qed

section \<open>Invariant\<close>

fun rcvd :: "socks_event list \<Rightarrow> bytes" where
  "rcvd [] = []"
| "rcvd (Recv_data d # evs) = d @ rcvd evs"
| "rcvd (_ # evs) = rcvd evs"

fun wire :: "socks_out list \<Rightarrow> bytes" where
  "wire [] = []"
| "wire (Wire d # os) = d @ wire os"
| "wire (_ # os) = wire os"

fun reports :: "socks_out list \<Rightarrow> socks_report list" where
  "reports [] = []"
| "reports (Report r # os) = r # reports os"
| "reports (_ # os) = reports os"

lemma rcvd_append [simp]: "rcvd (evs @ evs') = rcvd evs @ rcvd evs'"
  by (induction evs rule: rcvd.induct) simp_all

lemma out_append [simp]: "wire (xs @ ys) = wire xs @ wire ys" "reports (xs @ ys) = reports xs @ reports ys"
  by (induction xs rule: wire.induct) simp_all

lemma out_reports [simp]: "wire (map Report rs) = []" "reports (map Report rs) = rs"
  by (induction rs) simp_all

definition rest_talk :: "endian \<Rightarrow> BSocksClient \<Rightarrow> bytes \<Rightarrow> talk" where
  \<comment> \<open>what is to come, given the bytes received in the current step of the conversation\<close>
  "rest_talk e s x =
     (let request = request_message e (sc_dest_addr s) in
      case sc_state s of
        STATE_SENDING_HELLO \<Rightarrow> talk_hello (sc_auth_info s) request x
      | STATE_SENT_HELLO \<Rightarrow> talk_hello (sc_auth_info s) request x
      | STATE_SENDING_PASSWORD \<Rightarrow> talk_password request x
      | STATE_SENT_PASSWORD \<Rightarrow> talk_password request x
      | STATE_SENDING_REQUEST \<Rightarrow> talk_reply x
      | STATE_SENT_REQUEST \<Rightarrow> talk_reply x
      | STATE_RECEIVED_REPLY_HEADER \<Rightarrow> talk_address (nat (sc_recv_total s)) x
      | STATE_UP \<Rightarrow> ([], Established x)
      | _ \<Rightarrow> ([], More))"

definition is_sending :: "socks_state \<Rightarrow> bool" where
  "is_sending st \<longleftrightarrow> st = STATE_SENDING_HELLO \<or> st = STATE_SENDING_PASSWORD \<or> st = STATE_SENDING_REQUEST"

definition con_ctrl :: "BConnection \<Rightarrow> bool" where
  "con_ctrl c \<longleftrightarrow> con_send_state c = SEND_STATE_READY \<and> con_recv_state c = RECV_STATE_READY \<and> can_wait c \<and> \<not> con_error c \<and>
     si_inv (con_recv_iface c) \<and> si_done_handler (con_recv_iface c)"

definition window :: "BSocksClient \<Rightarrow> bytes \<Rightarrow> bool" where
  \<comment> \<open>the part of the buffer that is received into\<close>
  "window s b \<longleftrightarrow>
     (case sc_state s of
        STATE_SENT_HELLO \<Rightarrow> sc_recv_dest s = 0 \<and> sc_recv_total s = 2 \<and> length b = 2
      | STATE_SENT_PASSWORD \<Rightarrow> sc_recv_dest s = 0 \<and> sc_recv_total s = 2 \<and> length b = 2
      | STATE_SENT_REQUEST \<Rightarrow> sc_recv_dest s = 0 \<and> sc_recv_total s = 4 \<and> length b = 22
      | STATE_RECEIVED_REPLY_HEADER \<Rightarrow> sc_recv_dest s = 4 \<and> (sc_recv_total s = 6 \<or> sc_recv_total s = 18) \<and> length b = 22
      | _ \<Rightarrow> False)"

definition receiving :: "BSocksClient \<Rightarrow> StreamInterface \<Rightarrow> bytes \<Rightarrow> bytes \<Rightarrow> bytes \<Rightarrow> bool" where
  \<comment> \<open>\<open>cur\<close> was received and handled, \<open>pend\<close> received and not yet handled\<close>
  "receiving s i b cur pend \<longleftrightarrow> window s b \<and> sc_recv_len s = int (length cur) \<and> int (length cur) < sc_recv_total s \<and>
     si_state i \<noteq> State_none \<and> si_data i = Some (sc_recv_dest s + length cur) \<and> si_len i = sc_recv_total s - int (length cur) \<and>
     subbytes b (sc_recv_dest s) (length (cur @ pend)) = Some (cur @ pend) \<and>
     (if si_state i = State_done_pending then si_done_len i = int (length pend) else pend = [])"

definition in_control :: "endian \<Rightarrow> BSocksClient \<Rightarrow> bytes \<Rightarrow> bytes \<Rightarrow> bytes \<Rightarrow> bool" where
  "in_control e s handled pend w \<longleftrightarrow>
     (\<exists>c t b h cur. sc_con s = Some c \<and> sc_sender s = Some t \<and> sc_buffer s = Some b \<and> con_ctrl c \<and>
        ppi_mtu (pss_input t) = INT_MAX \<and> pss_inv (t, b) h w \<and>
        (\<forall>x. socks_talk e (sc_auth_info s) (sc_dest_addr s) (handled @ x) =
           (given h @ fst (rest_talk e s (cur @ x)), snd (rest_talk e s (cur @ x)))) \<and>
        (if is_sending (sc_state s)
         then ppi_state (pss_input t) \<noteq> State_none \<and> si_state (con_recv_iface c) = State_none \<and> cur = [] \<and> pend = []
         else ppi_state (pss_input t) = State_none \<and> receiving s (con_recv_iface c) b cur pend))"

definition connector_ok :: "BConnector \<Rightarrow> bool" where
  "connector_ok k \<longleftrightarrow> cr_fd k \<ge> 0 \<and>
     (if cr_have_bfd k then cr_bfd k \<noteq> None \<and> \<not> cr_connected k \<and> \<not> cr_job k else cr_connected k \<and> cr_job k)"

definition resources_ok :: "BSocksClient \<Rightarrow> bool" where
  \<comment> \<open>what is allocated, by state\<close>
  "resources_ok s \<longleftrightarrow> (cr_have_bfd (sc_connector s) \<longrightarrow> cr_bfd (sc_connector s) \<noteq> None) \<and>
     (case sc_state s of
        STATE_CONNECTING \<Rightarrow> sc_con s = None \<and> sc_sender s = None \<and> sc_buffer s = None
      | STATE_UP \<Rightarrow> (\<exists>c. sc_con s = Some c \<and> teardown_ok c) \<and> sc_sender s = None \<and> sc_buffer s = None
      | _ \<Rightarrow> (\<exists>c. sc_con s = Some c \<and> teardown_ok c) \<and> sc_sender s \<noteq> None \<and> sc_buffer s \<noteq> None)"

definition idle :: "BSocksClient \<Rightarrow> pss_event list \<Rightarrow> bytes \<Rightarrow> bool" where
  \<comment> \<open>in the middle of a handler: nothing is being sent or received\<close>
  "idle s h w \<longleftrightarrow> \<not> sc_error s \<and> sc_state s \<noteq> STATE_CONNECTING \<and> sc_state s \<noteq> STATE_UP \<and>
     (cr_have_bfd (sc_connector s) \<longrightarrow> cr_bfd (sc_connector s) \<noteq> None) \<and>
     (\<exists>c t b. sc_con s = Some c \<and> con_ctrl c \<and> si_state (con_recv_iface c) = State_none \<and>
        sc_sender s = Some t \<and> ppi_state (pss_input t) = State_none \<and> ppi_mtu (pss_input t) = INT_MAX \<and>
        sc_buffer s = Some b \<and> pss_inv (t, b) h w)"

definition handled_ok :: "endian \<Rightarrow> reallocator \<Rightarrow> BSocksClient \<Rightarrow> bytes \<Rightarrow> bytes \<Rightarrow> socks_result \<Rightarrow> bool" where
  \<comment> \<open>a handler succeeded when \<open>handled\<close> was received and \<open>w\<close> sent: it went on, failed or finished\<close>
  "handled_ok e realloc s handled w result \<longleftrightarrow>
     (\<exists>rs s'. result = Some (rs, s') \<and> sc_auth_info s' = sc_auth_info s \<and> sc_dest_addr s' = sc_dest_addr s \<and> sc_connector s' = sc_connector s \<and>
        (let talk = socks_talk e (sc_auth_info s) (sc_dest_addr s) handled in
         rs = [] \<and> \<not> sc_error s' \<and> in_control e s' handled [] w \<and> sc_state s' \<noteq> STATE_CONNECTING \<and> sc_state s' \<noteq> STATE_UP
         \<or> rs = [BSOCKSCLIENT_EVENT_ERROR] \<and> sc_error s' \<and> resources_ok s' \<and> sc_state s' \<noteq> STATE_CONNECTING \<and> sc_state s' \<noteq> STATE_UP \<and>
           ((\<exists>b n. realloc b n = None) \<or> snd talk = Refused)
         \<or> rs = [BSOCKSCLIENT_EVENT_UP] \<and> \<not> sc_error s' \<and> resources_ok s' \<and> sc_state s' = STATE_UP \<and>
           snd talk = Established [] \<and> w = concat (fst talk)))"

lemma handled_goes_on:
  assumes "result = Some ([], s')" "in_control e s' handled [] w" "\<not> sc_error s'" "sc_state s' \<noteq> STATE_CONNECTING" "sc_state s' \<noteq> STATE_UP"
    and "sc_auth_info s' = sc_auth_info s" "sc_dest_addr s' = sc_dest_addr s" "sc_connector s' = sc_connector s"
  shows "handled_ok e realloc s handled w result"
  using assms by (auto simp: handled_ok_def)

lemma con_ctrl_teardown: "con_ctrl c \<Longrightarrow> teardown_ok c"
  by (auto simp: con_ctrl_def teardown_ok_def)

lemma idle_resources: "idle s h w \<Longrightarrow> resources_ok s"
  by (cases "sc_state s") (auto simp: idle_def resources_ok_def intro: con_ctrl_teardown)

lemma fail_ok:
  assumes "idle s h w" "(\<exists>b n. realloc b n = None) \<or> snd (socks_talk e (sc_auth_info s) (sc_dest_addr s) handled) = Refused"
  shows "handled_ok e realloc s handled w (report_error s BSOCKSCLIENT_EVENT_ERROR)"
proof -
  have "resources_ok (s\<lparr>sc_error := True\<rparr>)" using idle_resources [OF assms(1)] by (simp add: resources_ok_def cong: socks_state.case_cong)
  then show ?thesis using assms by (simp add: handled_ok_def report_error_def idle_def)
qed

lemma pss_idle_mem: "ppi_state (pss_input t) = State_none \<Longrightarrow> pss_inv (t, m) h w \<Longrightarrow> pss_inv (t, m') h w"
  by (simp add: pss_inv_def)

lemma send_message_ok:
  assumes idle: "idle s h w" and len: "length b \<le> 600" "unat (bsize_value sz) = length b" and st: "is_sending st"
    and talk: "\<And>x. socks_talk e (sc_auth_info s) (sc_dest_addr s) (handled @ x) =
      (given h @ fst (say b (rest_talk e (s\<lparr>sc_state := st\<rparr>) x)), snd (rest_talk e (s\<lparr>sc_state := st\<rparr>) x))"
  shows "handled_ok e realloc s handled w (do { s \<leftarrow> send_buffer (s\<lparr>sc_buffer := Some b\<rparr>) sz; Some ([], s\<lparr>sc_state := st\<rparr>) })"
proof -
  obtain c t m where i: "sc_con s = Some c" "con_ctrl c" "si_state (con_recv_iface c) = State_none" "sc_sender s = Some t"
      "ppi_state (pss_input t) = State_none" "ppi_mtu (pss_input t) = INT_MAX" "pss_inv (t, m) h w"
    using idle by (auto simp: idle_def)
  let ?s = "s\<lparr>sc_buffer := Some b\<rparr>"
  obtain t' where t': "send_buffer ?s sz = Some (?s\<lparr>sc_sender := Some t'\<rparr>)" "pss_inv (t', b) (h @ [Give b]) w"
      "ppi_state (pss_input t') \<noteq> State_none" "ppi_mtu (pss_input t') = INT_MAX"
    using send_buffer_ok [of ?s t b m h w sz] i len by auto
  let ?s' = "?s\<lparr>sc_sender := Some t', sc_state := st\<rparr>"
  have "rest_talk e ?s' = rest_talk e (s\<lparr>sc_state := st\<rparr>)" by (intro ext) (simp add: rest_talk_def cong: socks_state.case_cong)
  then have "in_control e ?s' handled [] w"
    unfolding in_control_def using i t' st talk
    by (intro exI [of _ c] exI [of _ t'] exI [of _ b] exI [of _ "h @ [Give b]"] exI [of _ "[]"]) (simp add: say_def)
  then show ?thesis using t'(1) st idle by (auto simp: handled_ok_def is_sending_def idle_def)
qed

definition dest_ok :: "BAddr \<Rightarrow> bool" where
  "dest_ok dest \<longleftrightarrow> (case dest of BAddr_IPv4 _ _ \<Rightarrow> True | BAddr_IPv6 ip _ \<Rightarrow> length ip = 16 | _ \<Rightarrow> False)"

lemma unat_of_nat_u64: "n < 1000 \<Longrightarrow> unat (of_nat n :: u64) = n"
  by (simp add: unsigned_of_nat take_bit_nat_eq_self)

lemma write_request:
  assumes "length b = 4 + length addr"
  shows "do { s \<leftarrow> put (s\<lparr>sc_buffer := Some b\<rparr>) 4 addr; s \<leftarrow> put s 0 [x, y, z, v]; send_buffer s sz } =
     send_buffer (s\<lparr>sc_buffer := Some ([x, y, z, v] @ addr)\<rparr>) sz"
  using assms by (simp add: put_def overwrite_def)

lemma auth_finished_ok:
  assumes idle: "idle s h w" and ra: "realloc_ok realloc" and dest: "dest_ok (sc_dest_addr s)"
    and talk: "\<And>x. socks_talk e (sc_auth_info s) (sc_dest_addr s) (handled @ x) =
      (given h @ fst (say (request_message e (sc_dest_addr s)) (talk_reply x)), snd (talk_reply x))"
  shows "handled_ok e realloc s handled w (auth_finished e realloc s)"
proof -
  obtain sz addr v where d: "(case sc_dest_addr s of
               BAddr_IPv4 _ _ \<Rightarrow> bsize_add (bsize_fromsize 4) (bsize_fromsize 6)
             | BAddr_IPv6 _ _ \<Rightarrow> bsize_add (bsize_fromsize 4) (bsize_fromsize 18)
             | _ \<Rightarrow> bsize_fromsize 4) = sz"
      "\<not> is_overflow sz" "unat (bsize_value sz) = 4 + length addr" "length addr \<le> 18"
      "request_message e (sc_dest_addr s) = [SOCKS_VERSION, SOCKS_CMD_CONNECT, 0, v] @ addr"
      "\<And>s'. sc_dest_addr s' = sc_dest_addr s \<Longrightarrow> (case sc_dest_addr s' of
          BAddr_IPv4 ip port \<Rightarrow> do { s \<leftarrow> put s' 4 (mem32 e ip @ mem16 e port); Some (s, SOCKS_ATYP_IPV4) }
        | BAddr_IPv6 ip port \<Rightarrow> do { s \<leftarrow> put s' 4 (ip @ mem16 e port); Some (s, SOCKS_ATYP_IPV6) }
        | _ \<Rightarrow> None) = do { s \<leftarrow> put s' 4 addr; Some (s, v) }"
  proof (cases "sc_dest_addr s")
    case (BAddr_IPv4 ip port)
    then show thesis by (intro that [of _ "mem32 e ip @ mem16 e port" SOCKS_ATYP_IPV4]) (auto simp: bsize_add_def bsize_fromsize_def request_message_def mem_length)
  next
    case (BAddr_IPv6 ip port)
    then show thesis using dest
      by (intro that [of _ "ip @ mem16 e port" SOCKS_ATYP_IPV6]) (auto simp: bsize_add_def bsize_fromsize_def request_message_def mem_length dest_ok_def)
  qed (use dest in \<open>simp_all add: dest_ok_def\<close>)
  have pos: "0 < unat (bsize_value sz)" using d(3) by simp
  show ?thesis
  proof (rule reserve_cases [OF ra d(2) pos, of s])
    assume n: "reserve_buffer realloc s sz = None" "realloc (sc_buffer s) (bsize_value sz) = None"
    have "handled_ok e realloc s handled w (report_error s BSOCKSCLIENT_EVENT_ERROR)" by (rule fail_ok [OF idle]) (use n(2) in blast)
    then show ?thesis using n(1) d(1) by (simp add: auth_finished_def)
  next
    fix b
    assume b: "reserve_buffer realloc s sz = Some (s\<lparr>sc_buffer := Some b\<rparr>)" "length b = unat (bsize_value sz)"
    let ?req = "request_message e (sc_dest_addr s)"
    have "auth_finished e realloc s =
        do { s \<leftarrow> do { s \<leftarrow> put (s\<lparr>sc_buffer := Some b\<rparr>) 4 addr; s \<leftarrow> put s 0 [SOCKS_VERSION, SOCKS_CMD_CONNECT, 0, v]; send_buffer s sz };
             Some ([], s\<lparr>sc_state := STATE_SENDING_REQUEST\<rparr>) }"
      using b(1) d(1,6) by (simp add: auth_finished_def hton8_def)
    then have eq: "auth_finished e realloc s =
        do { s \<leftarrow> send_buffer (s\<lparr>sc_buffer := Some ?req\<rparr>) sz; Some ([], s\<lparr>sc_state := STATE_SENDING_REQUEST\<rparr>) }"
      using write_request [of b addr s SOCKS_VERSION SOCKS_CMD_CONNECT 0 v sz] b(2) d(3,5) by simp
    show ?thesis unfolding eq
      by (rule send_message_ok [OF idle]) (use d talk in \<open>simp_all add: is_sending_def rest_talk_def\<close>)
  qed
qed

lemma send_password_ok:
  assumes idle: "idle s h w" and ra: "realloc_ok realloc"
    and talk: "\<And>x. socks_talk e (sc_auth_info s) (sc_dest_addr s) (handled @ x) =
      (if password_fits a then (given h @ fst (say (password_message a) (talk_password (request_message e (sc_dest_addr s)) x)),
         snd (talk_password (request_message e (sc_dest_addr s)) x)) else (given h, Refused))"
  shows "handled_ok e realloc s handled w (send_password realloc s a)"
proof (cases "password_fits a")
  case False
  then have "snd (socks_talk e (sc_auth_info s) (sc_dest_addr s) handled) = Refused" using talk [of "[]"] by simp
  moreover have "send_password realloc s a = report_error s BSOCKSCLIENT_EVENT_ERROR"
    using False by (auto simp: send_password_def password_fits_def Let_def)
  ultimately show ?thesis using fail_ok [OF idle] by simp
next
  case True
  let ?u = "auth_username a" and ?p = "auth_password a"
  let ?sz = "bsize_fromsize (1 + 1 + of_nat (length ?u) + 1 + of_nat (length ?p))"
  have fits: "0 < length ?u" "length ?u \<le> 255" "0 < length ?p" "length ?p \<le> 255" using True by (simp_all add: password_fits_def)
  have "(1 + 1 + of_nat (length ?u) + 1 + of_nat (length ?p) :: u64) = of_nat (3 + length ?u + length ?p)" by simp
  then have v: "unat (bsize_value ?sz) = 3 + length ?u + length ?p" "\<not> is_overflow ?sz"
    using fits by (simp_all add: bsize_fromsize_def unat_of_nat_u64 del: of_nat_add)
  have pos: "0 < unat (bsize_value ?sz)" using v(1) by simp
  show ?thesis
  proof (rule reserve_cases [OF ra v(2) pos, of s])
    assume n: "reserve_buffer realloc s ?sz = None" "realloc (sc_buffer s) (bsize_value ?sz) = None"
    have "handled_ok e realloc s handled w (report_error s BSOCKSCLIENT_EVENT_ERROR)" by (rule fail_ok [OF idle]) (use n(2) in blast)
    then show ?thesis using n(1) fits by (auto simp: send_password_def Let_def)
  next
    fix b
    assume b: "reserve_buffer realloc s ?sz = Some (s\<lparr>sc_buffer := Some b\<rparr>)" "length b = unat (bsize_value ?sz)"
    have len: "length b = 3 + length ?u + length ?p" using b(2) v(1) by simp
    have eq: "send_password realloc s a =
        do { s \<leftarrow> send_buffer (s\<lparr>sc_buffer := Some (password_message a)\<rparr>) ?sz; Some ([], s\<lparr>sc_state := STATE_SENDING_PASSWORD\<rparr>) }"
      using b(1) fits len
      by (simp add: send_password_def Let_def put_def overwrite_def password_message_def numeral_3_eq_3)
    show ?thesis unfolding eq
      by (rule send_message_ok [OF idle]) (use fits v talk True in \<open>simp_all add: is_sending_def rest_talk_def password_message_def\<close>)
  qed
qed

lemma receive_ok:
  assumes idle: "idle s h w" and st: "\<not> is_sending (sc_state s)"
    and b: "sc_buffer s = Some b" "window s b" "subbytes b (sc_recv_dest s) (length cur) = Some cur"
    and len: "sc_recv_len s = int (length cur)" "int (length cur) < sc_recv_total s"
    and talk: "\<And>x. socks_talk e (sc_auth_info s) (sc_dest_addr s) (handled @ x) =
      (given h @ fst (rest_talk e s (cur @ x)), snd (rest_talk e s (cur @ x)))"
  shows "\<exists>c. do_receive s = Some (s\<lparr>sc_con := Some c\<rparr>) \<and> in_control e (s\<lparr>sc_con := Some c\<rparr>) handled [] w"
proof -
  obtain c t where i: "sc_con s = Some c" "con_ctrl c" "si_state (con_recv_iface c) = State_none" "sc_sender s = Some t"
      "ppi_state (pss_input t) = State_none" "ppi_mtu (pss_input t) = INT_MAX" "pss_inv (t, b) h w"
    using idle b(1) by (auto simp: idle_def)
  let ?i = "(con_recv_iface c)\<lparr>si_data := Some (sc_recv_dest s + length cur), si_len := sc_recv_total s - int (length cur),
    si_job_operation := True, si_state := State_operation_pending\<rparr>"
  let ?c = "c\<lparr>con_recv_iface := ?i\<rparr>"
  have eq: "do_receive s = Some (s\<lparr>sc_con := Some ?c\<rparr>)"
    using i(1-3) len by (simp add: do_receive_def StreamRecvInterface_Receiver_Recv_def con_ctrl_def)
  have "con_ctrl ?c" using i(2,3) len(2) by (auto simp: con_ctrl_def can_wait_def si_inv_def)
  moreover have "receiving (s\<lparr>sc_con := Some ?c\<rparr>) ?i b cur []" using b len by (simp add: receiving_def window_def cong: socks_state.case_cong)
  moreover have "rest_talk e (s\<lparr>sc_con := Some ?c\<rparr>) = rest_talk e s" by (intro ext) (simp add: rest_talk_def cong: socks_state.case_cong)
  ultimately have "in_control e (s\<lparr>sc_con := Some ?c\<rparr>) handled [] w"
    unfolding in_control_def using i b(1) st talk
    by (intro exI [of _ ?c] exI [of _ t] exI [of _ b] exI [of _ h] exI [of _ cur]) simp
  then show ?thesis using eq by blast
qed

lemma start_receive_ok:
  assumes idle: "idle s h w" and b: "sc_buffer s = Some b"
    and win: "window (s\<lparr>sc_recv_dest := dest, sc_recv_len := 0, sc_recv_total := tot, sc_state := st\<rparr>) b"
    and talk: "\<And>x. socks_talk e (sc_auth_info s) (sc_dest_addr s) (handled @ x) =
      (given h @ fst (rest_talk e (s\<lparr>sc_recv_total := tot, sc_state := st\<rparr>) x), snd (rest_talk e (s\<lparr>sc_recv_total := tot, sc_state := st\<rparr>) x))"
  shows "handled_ok e realloc s handled w (do { s \<leftarrow> start_receive s dest tot; Some ([], s\<lparr>sc_state := st\<rparr>) })"
proof -
  let ?s = "s\<lparr>sc_recv_dest := dest, sc_recv_len := 0, sc_recv_total := tot\<rparr>" and ?t = "s\<lparr>sc_recv_dest := dest, sc_recv_len := 0, sc_recv_total := tot, sc_state := st\<rparr>"
  have st: "\<not> is_sending st" "st \<noteq> STATE_CONNECTING" "st \<noteq> STATE_UP" "0 < tot" "dest \<le> length b"
    using win by (auto simp: window_def is_sending_def split: socks_state.splits)
  have "rest_talk e ?t = rest_talk e (s\<lparr>sc_recv_total := tot, sc_state := st\<rparr>)" by (intro ext) (simp add: rest_talk_def cong: socks_state.case_cong)
  moreover have "idle ?t h w" using idle st by (simp add: idle_def)
  ultimately obtain c where c: "do_receive ?t = Some (?t\<lparr>sc_con := Some c\<rparr>)" "in_control e (?t\<lparr>sc_con := Some c\<rparr>) handled [] w"
    using receive_ok [of ?t h w b "[]" e handled] st b win talk by (auto simp: subbytes_def)
  have "do_receive ?s = Some (?s\<lparr>sc_con := Some c\<rparr>)" using c(1) by (auto simp: do_receive_def bind_Some_iff dest: arg_cong [where f = sc_con])
  then have "do { s \<leftarrow> start_receive s dest tot; Some ([], s\<lparr>sc_state := st\<rparr>) } = Some ([], ?t\<lparr>sc_con := Some c\<rparr>)"
    using st(4) by (simp add: start_receive_def)
  then show ?thesis using c(2) by (rule handled_goes_on) (use st idle in \<open>simp_all add: idle_def\<close>)
qed

lemma receive_into_ok:
  assumes idle: "idle s h w" and ra: "realloc_ok realloc" and sz: "\<not> is_overflow sz" "0 < unat (bsize_value sz)"
    and win: "\<And>b. length b = unat (bsize_value sz) \<Longrightarrow> window (s\<lparr>sc_recv_dest := 0, sc_recv_len := 0, sc_recv_total := tot, sc_state := st\<rparr>) b"
    and talk: "\<And>x. socks_talk e (sc_auth_info s) (sc_dest_addr s) (handled @ x) =
      (given h @ fst (rest_talk e (s\<lparr>sc_recv_total := tot, sc_state := st\<rparr>) x), snd (rest_talk e (s\<lparr>sc_recv_total := tot, sc_state := st\<rparr>) x))"
  shows "handled_ok e realloc s handled w (receive_into realloc s sz tot st)"
proof (rule reserve_cases [OF ra sz, of s])
  assume n: "reserve_buffer realloc s sz = None" "realloc (sc_buffer s) (bsize_value sz) = None"
  have "handled_ok e realloc s handled w (report_error s BSOCKSCLIENT_EVENT_ERROR)" by (rule fail_ok [OF idle]) (use n(2) in blast)
  then show ?thesis using n(1) by (simp add: receive_into_def)
next
  fix b
  assume b: "reserve_buffer realloc s sz = Some (s\<lparr>sc_buffer := Some b\<rparr>)" "length b = unat (bsize_value sz)"
  let ?s = "s\<lparr>sc_buffer := Some b\<rparr>"
  have "idle ?s h w" using idle pss_idle_mem by (auto simp: idle_def)
  moreover have "rest_talk e (?s\<lparr>sc_recv_total := tot, sc_state := st\<rparr>) = rest_talk e (s\<lparr>sc_recv_total := tot, sc_state := st\<rparr>)"
    by (intro ext) (simp add: rest_talk_def cong: socks_state.case_cong)
  moreover have "window (?s\<lparr>sc_recv_dest := 0, sc_recv_len := 0, sc_recv_total := tot, sc_state := st\<rparr>) b"
    using win [OF b(2)] by (simp add: window_def cong: socks_state.case_cong)
  ultimately have "handled_ok e realloc ?s handled w (do { s \<leftarrow> start_receive ?s 0 tot; Some ([], s\<lparr>sc_state := st\<rparr>) })"
    using talk by (intro start_receive_ok [of _ h _ b]) simp_all
  then show ?thesis using b(1) by (simp add: receive_into_def handled_ok_def)
qed

lemma send_handler_done_ok:
  assumes idle: "idle s h w" and ra: "realloc_ok realloc" and st: "is_sending (sc_state s)"
    and talk: "\<And>x. socks_talk e (sc_auth_info s) (sc_dest_addr s) (handled @ x) = (given h @ fst (rest_talk e s x), snd (rest_talk e s x))"
  shows "handled_ok e realloc s handled w (send_handler_done realloc s)"
proof -
  have buf: "sc_buffer s \<noteq> None" using idle by (auto simp: idle_def)
  from st consider "sc_state s = STATE_SENDING_HELLO" | "sc_state s = STATE_SENDING_PASSWORD" | "sc_state s = STATE_SENDING_REQUEST"
    by (auto simp: is_sending_def)
  then show ?thesis
  proof cases
    case 1
    have "handled_ok e realloc s handled w (receive_into realloc s (bsize_fromsize 2) 2 STATE_SENT_HELLO)"
      by (rule receive_into_ok [OF idle ra]) (use talk 1 in \<open>simp_all add: bsize_fromsize_def window_def rest_talk_def\<close>)
    then show ?thesis using 1 buf by (simp add: send_handler_done_def)
  next
    case 2
    have "handled_ok e realloc s handled w (receive_into realloc s (bsize_fromsize 2) 2 STATE_SENT_PASSWORD)"
      by (rule receive_into_ok [OF idle ra]) (use talk 2 in \<open>simp_all add: bsize_fromsize_def window_def rest_talk_def\<close>)
    then show ?thesis using 2 buf by (simp add: send_handler_done_def)
  next
    case 3
    have "handled_ok e realloc s handled w
        (receive_into realloc s (bsize_add (bsize_fromsize 4) (bsize_max (bsize_fromsize 6) (bsize_fromsize 18))) 4 STATE_SENT_REQUEST)"
      by (rule receive_into_ok [OF idle ra]) (use talk 3 in \<open>simp_all add: bsize_fromsize_def bsize_add_def bsize_max_def window_def rest_talk_def\<close>)
    then show ?thesis using 3 buf by (simp add: send_handler_done_def)
  qed
qed

definition types_ok :: "BSocksClient_auth_info list \<Rightarrow> bool" where
  "types_ok auth \<longleftrightarrow>
     list_all (\<lambda>a. auth_type a = SOCKS_METHOD_NO_AUTHENTICATION_REQUIRED \<or> auth_type a = SOCKS_METHOD_USERNAME_PASSWORD) auth"

lemma received_hello_ok:
  assumes idle: "idle s h w" and ra: "realloc_ok realloc" and dest: "dest_ok (sc_dest_addr s)" and types: "types_ok (sc_auth_info s)"
    and b: "sc_buffer s = Some cur" "length cur = 2"
    and talk: "\<And>x. socks_talk e (sc_auth_info s) (sc_dest_addr s) (handled @ x) =
      (given h @ fst (talk_hello (sc_auth_info s) (request_message e (sc_dest_addr s)) (cur @ x)),
       snd (talk_hello (sc_auth_info s) (request_message e (sc_dest_addr s)) (cur @ x)))"
  shows "handled_ok e realloc s handled w (received_hello e realloc s)"
proof -
  have msg: "subbytes cur 0 2 = Some cur" using b(2) by (simp add: subbytes_def)
  have nth: "(cur @ x) ! 0 = cur ! 0" "(cur @ x) ! 1 = cur ! 1" "drop 2 (cur @ x) = x" for x using b(2) by (simp_all add: nth_append)
  note hello = talk [unfolded talk_hello_def nth, simplified b(2) length_append]
  have bad: "handled_ok e realloc s handled w (report_error s BSOCKSCLIENT_EVENT_ERROR)"
    if "cur ! 0 \<noteq> SOCKS_VERSION \<or> find (\<lambda>a. auth_type a = cur ! 1) (sc_auth_info s) = None"
    by (rule fail_ok [OF idle]) (use hello [of "[]"] that in auto)
  show ?thesis
  proof (cases "cur ! 0 = SOCKS_VERSION")
    case False
    then show ?thesis using bad b(1) msg by (simp add: received_hello_def ntoh8_def hton8_def)
  next
    case version: True
    show ?thesis
    proof (cases "find (\<lambda>a. auth_type a = cur ! 1) (sc_auth_info s)")
      case None
      then show ?thesis using bad b(1) msg by (auto simp: received_hello_def ntoh8_def hton8_def)
    next
      case (Some a)
      then have "auth_type a = SOCKS_METHOD_NO_AUTHENTICATION_REQUIRED \<or> auth_type a = SOCKS_METHOD_USERNAME_PASSWORD"
        using types by (auto simp: types_ok_def list_all_length find_Some_iff)
      then show ?thesis
      proof
        assume none: "auth_type a = SOCKS_METHOD_NO_AUTHENTICATION_REQUIRED"
        have "handled_ok e realloc s handled w (auth_finished e realloc s)"
          by (rule auth_finished_ok [OF idle ra dest]) (use hello version Some none in \<open>simp add: say_def\<close>)
        then show ?thesis using b(1) msg version Some none by (simp add: received_hello_def ntoh8_def hton8_def)
      next
        assume pw: "auth_type a = SOCKS_METHOD_USERNAME_PASSWORD"
        have "handled_ok e realloc s handled w (send_password realloc s a)"
          by (rule send_password_ok [OF idle ra]) (use hello version Some pw in \<open>simp add: say_def\<close>)
        then show ?thesis using b(1) msg version Some pw by (simp add: received_hello_def ntoh8_def hton8_def)
      qed
    qed
  qed
qed

lemma received_password_reply_ok:
  assumes idle: "idle s h w" and ra: "realloc_ok realloc" and dest: "dest_ok (sc_dest_addr s)" and b: "sc_buffer s = Some cur" "length cur = 2"
    and talk: "\<And>x. socks_talk e (sc_auth_info s) (sc_dest_addr s) (handled @ x) =
      (given h @ fst (talk_password (request_message e (sc_dest_addr s)) (cur @ x)),
       snd (talk_password (request_message e (sc_dest_addr s)) (cur @ x)))"
  shows "handled_ok e realloc s handled w (received_password_reply e realloc s)"
proof -
  have nth: "(cur @ x) ! 0 = cur ! 0" "(cur @ x) ! 1 = cur ! 1" "drop 2 (cur @ x) = x" for x using b(2) by (simp_all add: nth_append)
  note reply = talk [unfolded talk_password_def nth, simplified b(2) length_append]
  show ?thesis
  proof (cases "cur ! 0 = 1 \<and> cur ! 1 = 0")
    case True
    have "handled_ok e realloc s handled w (auth_finished e realloc s)"
      by (rule auth_finished_ok [OF idle ra dest]) (use reply True in \<open>simp add: say_def\<close>)
    then show ?thesis using True b by (auto simp: received_password_reply_def byte_at_def)
  next
    case False
    have "handled_ok e realloc s handled w (report_error s BSOCKSCLIENT_EVENT_ERROR)" by (rule fail_ok [OF idle]) (use reply [of "[]"] False in auto)
    then show ?thesis using False b by (auto simp: received_password_reply_def byte_at_def)
  qed
qed

lemma received_reply_header_ok:
  assumes idle: "idle s h w" and b: "sc_buffer s = Some b" "length b = 22" "subbytes b 0 4 = Some cur"
    and talk: "\<And>x. socks_talk e (sc_auth_info s) (sc_dest_addr s) (handled @ x) = (given h @ fst (talk_reply (cur @ x)), snd (talk_reply (cur @ x)))"
  shows "handled_ok e realloc s handled w (received_reply_header s)"
proof -
  have len: "length cur = 4" using b(3) by (rule subbytes_length)
  have nth: "(cur @ x) ! 0 = cur ! 0" "(cur @ x) ! 1 = cur ! 1" "(cur @ x) ! 3 = cur ! 3" "drop 4 (cur @ x) = x" for x
    using len by (simp_all add: nth_append)
  note reply = talk [unfolded talk_reply_def nth, simplified len length_append]
  have go: "handled_ok e realloc s handled w (do { s \<leftarrow> start_receive s 4 tot; Some ([], s\<lparr>sc_state := STATE_RECEIVED_REPLY_HEADER\<rparr>) })"
    if "tot = 6 \<or> tot = 18" "\<And>x. socks_talk e (sc_auth_info s) (sc_dest_addr s) (handled @ x) = (given h @ fst (talk_address (nat tot) x), snd (talk_address (nat tot) x))" for tot
    by (rule start_receive_ok [OF idle b(1)]) (use that b(2) in \<open>simp_all add: window_def rest_talk_def\<close>)
  show ?thesis
  proof (cases "cur ! 0 = SOCKS_VERSION \<and> cur ! 1 = SOCKS_REP_SUCCEEDED \<and> (cur ! 3 = SOCKS_ATYP_IPV4 \<or> cur ! 3 = SOCKS_ATYP_IPV6)")
    case True
    then show ?thesis using go [of 6] go [of 18] reply b by (auto simp: received_reply_header_def ntoh8_def hton8_def)
  next
    case False
    have "handled_ok e realloc s handled w (report_error s BSOCKSCLIENT_EVENT_ERROR)" by (rule fail_ok [OF idle]) (use reply [of "[]"] False in auto)
    then show ?thesis using False b by (auto simp: received_reply_header_def ntoh8_def hton8_def)
  qed
qed

lemma async_free:
  assumes "can_wait c"
  shows "con_send_state c = SEND_STATE_READY \<Longrightarrow> \<exists>c'. BConnection_SendAsync_Free c = Some c' \<and> can_wait c' \<and>
      con_send_state c' = SEND_STATE_NOT_INITED \<and> con_recv_state c' = con_recv_state c \<and> con_error c' = con_error c"
    "con_recv_state c = RECV_STATE_READY \<Longrightarrow> \<exists>c'. BConnection_RecvAsync_Free c = Some c' \<and> can_wait c' \<and>
      con_recv_state c' = RECV_STATE_NOT_INITED \<and> con_send_state c' = con_send_state c \<and> con_error c' = con_error c"
  using assms
  by (cases "con_is_hupd c"; auto simp: can_wait_def BConnection_SendAsync_Free_def BConnection_RecvAsync_Free_def wait_for_fd_def
      BReactor_SetFileDescriptorEvents_def)+

lemma restart_io:
  assumes "con_ctrl c"
  obtains c1 c2 c3 c4 where "BConnection_SendAsync_Free c = Some c1" "BConnection_RecvAsync_Free c1 = Some c2" "BConnection_RecvAsync_Init c2 = Some c3"
    "BConnection_SendAsync_Init c3 = Some c4" "teardown_ok c4"
proof -
  have c: "can_wait c" "con_send_state c = SEND_STATE_READY" "con_recv_state c = RECV_STATE_READY" "\<not> con_error c" using assms by (simp_all add: con_ctrl_def)
  obtain c1 where c1: "BConnection_SendAsync_Free c = Some c1" "can_wait c1" "con_send_state c1 = SEND_STATE_NOT_INITED"
      "con_recv_state c1 = RECV_STATE_READY" "\<not> con_error c1" using async_free(1) [OF c(1,2)] c by auto
  obtain c2 where c2: "BConnection_RecvAsync_Free c1 = Some c2" "can_wait c2" "con_send_state c2 = SEND_STATE_NOT_INITED"
      "con_recv_state c2 = RECV_STATE_NOT_INITED" "\<not> con_error c2" using async_free(2) [OF c1(2,4)] c1 by auto
  show thesis
    using that [OF c1(1) c2(1)] c2 by (simp add: BConnection_RecvAsync_Init_def BConnection_SendAsync_Init_def teardown_ok_def can_wait_def)
qed

lemma received_reply_rest_ok:
  assumes idle: "idle s h w" and len: "length cur = n"
    and talk: "\<And>x. socks_talk e (sc_auth_info s) (sc_dest_addr s) (handled @ x) = (given h @ fst (talk_address n (cur @ x)), snd (talk_address n (cur @ x)))"
  shows "handled_ok e realloc s handled w (received_reply_rest s)"
proof -
  obtain c t b where i: "sc_con s = Some c" "con_ctrl c" "sc_sender s = Some t" "ppi_state (pss_input t) = State_none" "pss_inv (t, b) h w"
    using idle by (auto simp: idle_def)
  let ?talk = "socks_talk e (sc_auth_info s) (sc_dest_addr s) handled"
  have "w = concat (given h)" using i(4,5) by (auto simp: pss_inv_def)
  then have fin: "snd ?talk = Established []" "w = concat (fst ?talk)" using talk [of "[]"] len by (simp_all add: talk_address_def)
  obtain c1 c2 c3 c4 where c: "BConnection_SendAsync_Free c = Some c1" "BConnection_RecvAsync_Free c1 = Some c2" "BConnection_RecvAsync_Init c2 = Some c3"
      "BConnection_SendAsync_Init c3 = Some c4" "teardown_ok c4"
    by (rule restart_io [OF i(2)])
  let ?s = "s\<lparr>sc_buffer := None, sc_con := Some c4, sc_sender := None, sc_state := STATE_UP\<rparr>"
  have "received_reply_rest s = Some ([BSOCKSCLIENT_EVENT_UP], ?s)" using i c by (simp add: received_reply_rest_def free_control_io_def init_up_io_def)
  moreover have "resources_ok ?s" using c(5) idle by (simp add: resources_ok_def idle_def)
  ultimately show ?thesis using fin idle by (simp add: handled_ok_def idle_def)
qed

lemma complete_ok:
  assumes idle: "idle s h w" and ra: "realloc_ok realloc" and dest: "dest_ok (sc_dest_addr s)" and types: "types_ok (sc_auth_info s)"
    and b: "sc_buffer s = Some b" "window s b" "subbytes b (sc_recv_dest s) (length cur) = Some cur" "sc_recv_total s = int (length cur)"
    and talk: "\<And>x. socks_talk e (sc_auth_info s) (sc_dest_addr s) (handled @ x) =
      (given h @ fst (rest_talk e s (cur @ x)), snd (rest_talk e s (cur @ x)))"
  shows "handled_ok e realloc s handled w (case sc_state s of
      STATE_SENT_HELLO \<Rightarrow> received_hello e realloc s
    | STATE_SENT_REQUEST \<Rightarrow> received_reply_header s
    | STATE_SENT_PASSWORD \<Rightarrow> received_password_reply e realloc s
    | STATE_RECEIVED_REPLY_HEADER \<Rightarrow> received_reply_rest s
    | _ \<Rightarrow> None)"
proof (cases "sc_state s")
  case STATE_SENT_HELLO
  then have "b = cur" "length cur = 2" using b by (auto simp: window_def subbytes_def)
  then show ?thesis using STATE_SENT_HELLO b(1) talk by (simp add: rest_talk_def received_hello_ok [OF idle ra dest types])
next
  case STATE_SENT_PASSWORD
  then have "b = cur" "length cur = 2" using b by (auto simp: window_def subbytes_def)
  then show ?thesis using STATE_SENT_PASSWORD b(1) talk by (simp add: rest_talk_def received_password_reply_ok [OF idle ra dest])
next
  case STATE_SENT_REQUEST
  then have "length b = 22" "subbytes b 0 4 = Some cur" using b by (auto simp: window_def)
  then show ?thesis using STATE_SENT_REQUEST b(1) talk by (simp add: rest_talk_def received_reply_header_ok [OF idle])
next
  case STATE_RECEIVED_REPLY_HEADER
  then show ?thesis using b(4) talk by (simp add: rest_talk_def received_reply_rest_ok [OF idle, of cur "length cur"])
qed (use b(2) in \<open>simp_all add: window_def\<close>)

lemma recv_finished_ok:
  assumes ctrl: "in_control e s handled pend w" and st: "\<not> sc_error s" "\<not> is_sending (sc_state s)" "sc_state s \<noteq> STATE_CONNECTING" "sc_state s \<noteq> STATE_UP"
    and k: "cr_have_bfd (sc_connector s) \<longrightarrow> cr_bfd (sc_connector s) \<noteq> None"
    and ra: "realloc_ok realloc" and dest: "dest_ok (sc_dest_addr s)" and types: "types_ok (sc_auth_info s)"
    and c: "sc_con s = Some c" "si_state (con_recv_iface c) = State_done_pending"
  shows "\<exists>i. StreamRecvInterface_job_done (con_recv_iface c) = Some i \<and>
    handled_ok e realloc s (handled @ pend) w (recv_handler_done e realloc (s\<lparr>sc_con := Some (c\<lparr>con_recv_iface := i\<rparr>)\<rparr>) (si_done_len i))"
proof -
  obtain t b h cur where t: "sc_sender s = Some t" "sc_buffer s = Some b" "con_ctrl c" "ppi_mtu (pss_input t) = INT_MAX" "pss_inv (t, b) h w"
      "ppi_state (pss_input t) = State_none"
    and talk: "\<And>x. socks_talk e (sc_auth_info s) (sc_dest_addr s) (handled @ x) = (given h @ fst (rest_talk e s (cur @ x)), snd (rest_talk e s (cur @ x)))"
    and r: "receiving s (con_recv_iface c) b cur pend"
    using ctrl st(2) c(1) by (auto simp: in_control_def)
  let ?i = "(con_recv_iface c)\<lparr>si_job_done := False, si_state := State_none\<rparr>"
  let ?c = "c\<lparr>con_recv_iface := ?i\<rparr>" and ?cur = "cur @ pend"
  let ?s = "s\<lparr>sc_con := Some ?c, sc_recv_len := int (length ?cur)\<rparr>"
  have len: "si_done_len (con_recv_iface c) = int (length pend)" "int (length ?cur) \<le> sc_recv_total s" "sc_recv_len s = int (length cur)"
    using r c(2) t(3) by (auto simp: receiving_def con_ctrl_def si_inv_def)
  have job: "StreamRecvInterface_job_done (con_recv_iface c) = Some ?i" using c(2) by (simp add: StreamRecvInterface_job_done_def)
  have "con_ctrl ?c" using t(3) c(2) by (auto simp: con_ctrl_def can_wait_def si_inv_def)
  then have idle: "idle ?s h w" using st t k by (simp add: idle_def)
  have rest: "rest_talk e ?s = rest_talk e s" by (intro ext) (simp add: rest_talk_def cong: socks_state.case_cong)
  have win: "window ?s b" "subbytes b (sc_recv_dest ?s) (length ?cur) = Some ?cur"
    using r by (simp_all add: receiving_def window_def cong: socks_state.case_cong)
  have talk': "socks_talk e (sc_auth_info ?s) (sc_dest_addr ?s) ((handled @ pend) @ x) =
      (given h @ fst (rest_talk e ?s (?cur @ x)), snd (rest_talk e ?s (?cur @ x)))" for x
    using talk [of "pend @ x"] unfolding rest by simp
  have "handled_ok e realloc ?s (handled @ pend) w (recv_handler_done e realloc (s\<lparr>sc_con := Some ?c\<rparr>) (si_done_len ?i))"
  proof (cases "int (length ?cur) < sc_recv_total s")
    case True
    obtain c' where d: "do_receive ?s = Some (?s\<lparr>sc_con := Some c'\<rparr>)" "in_control e (?s\<lparr>sc_con := Some c'\<rparr>) (handled @ pend) [] w"
      using receive_ok [OF idle _ _ win, of e "handled @ pend"] st(2) t(2) True talk' by auto
    have "recv_handler_done e realloc (s\<lparr>sc_con := Some ?c\<rparr>) (si_done_len ?i) = Some ([], ?s\<lparr>sc_con := Some c'\<rparr>)"
      using d(1) True len by (simp add: recv_handler_done_def)
    then show ?thesis using d(2) by (rule handled_goes_on) (use st in simp_all)
  next
    case False
    have "handled_ok e realloc ?s (handled @ pend) w (case sc_state ?s of
        STATE_SENT_HELLO \<Rightarrow> received_hello e realloc ?s
      | STATE_SENT_REQUEST \<Rightarrow> received_reply_header ?s
      | STATE_SENT_PASSWORD \<Rightarrow> received_password_reply e realloc ?s
      | STATE_RECEIVED_REPLY_HEADER \<Rightarrow> received_reply_rest ?s
      | _ \<Rightarrow> None)"
      by (rule complete_ok [OF idle ra _ _ _ win]) (use dest types t(2) False len talk' in auto)
    moreover have "recv_handler_done e realloc (s\<lparr>sc_con := Some ?c\<rparr>) (si_done_len ?i) = (case sc_state ?s of
        STATE_SENT_HELLO \<Rightarrow> received_hello e realloc ?s
      | STATE_SENT_REQUEST \<Rightarrow> received_reply_header ?s
      | STATE_SENT_PASSWORD \<Rightarrow> received_password_reply e realloc ?s
      | STATE_RECEIVED_REPLY_HEADER \<Rightarrow> received_reply_rest ?s
      | _ \<Rightarrow> None)"
      using False len by (simp add: recv_handler_done_def cong: socks_state.case_cong)
    ultimately show ?thesis by simp
  qed
  then show ?thesis using job by (auto simp: handled_ok_def)
qed

section \<open>Connecting\<close>

lemma hello_size:
  assumes "0 < n" "n \<le> 255"
  shows "\<not> is_overflow (bsize_add (bsize_fromsize 2) (bsize_mul (bsize_fromsize (of_nat n)) (bsize_fromsize 1)))"
    "unat (bsize_value (bsize_add (bsize_fromsize 2) (bsize_mul (bsize_fromsize (of_nat n)) (bsize_fromsize 1)))) = 2 + n"
proof -
  have "bsize_nat (bsize_fromsize (of_nat n)) = Some n" "bsize_nat (bsize_fromsize 1) = Some 1" "bsize_nat (bsize_fromsize 2) = Some 2"
    using assms by (simp_all add: bsize_nat_def bsize_fromsize_def unat_of_nat_u64)
  then have "bsize_nat (bsize_add (bsize_fromsize 2) (bsize_mul (bsize_fromsize (of_nat n)) (bsize_fromsize 1))) = Some (2 + n)"
    using assms by (simp add: bsize_nat_add bsize_nat_mul)
  then show "\<not> is_overflow (bsize_add (bsize_fromsize 2) (bsize_mul (bsize_fromsize (of_nat n)) (bsize_fromsize 1)))"
    "unat (bsize_value (bsize_add (bsize_fromsize 2) (bsize_mul (bsize_fromsize (of_nat n)) (bsize_fromsize 1)))) = 2 + n"
    by (simp_all add: bsize_nat_def split: if_splits)
qed

lemma init_control_io_ok:
  assumes "sc_con s = Some c" "new_connection True (Some no_events) = Some c"
  obtains c' t where "init_control_io s = Some (s\<lparr>sc_con := Some c', sc_sender := Some t\<rparr>)" "con_ctrl c'" "si_state (con_recv_iface c') = State_none"
    "pss_inv (t, m) [] []" "ppi_state (pss_input t) = State_none" "ppi_mtu (pss_input t) = INT_MAX"
  using assms
  by (auto simp: init_control_io_def new_connection_def BReactorLimit_Init_def BConnection_RecvAsync_Init_def BConnection_RecvAsync_GetIf_def
      BConnection_SendAsync_Init_def BConnection_SendAsync_GetIf_def StreamRecvInterface_Receiver_Init_def StreamRecvInterface_Init_def
      StreamPassInterface_Init_def PacketStreamSender_Init_def PacketPassInterface_Init_def StreamPassInterface_Sender_Init_def
      PacketPassInterface_Sender_Init_def con_ctrl_def can_wait_def si_inv_def no_events_def pss_inv_def ppi_inv_def)

lemma free_control_io_ok:
  assumes "sc_con s = Some c" "sc_sender s = Some t" "con_ctrl c"
  obtains c' r where "free_control_io s = Some (s\<lparr>sc_con := Some c', sc_sender := None\<rparr>)" "BConnection_Free c' = Some r"
proof -
  have c: "can_wait c" "con_send_state c = SEND_STATE_READY" "con_recv_state c = RECV_STATE_READY" using assms(3) by (simp_all add: con_ctrl_def)
  obtain c1 where c1: "BConnection_SendAsync_Free c = Some c1" "can_wait c1" "con_send_state c1 = SEND_STATE_NOT_INITED"
      "con_recv_state c1 = RECV_STATE_READY" using async_free(1) [OF c(1,2)] c by auto
  obtain c2 where c2: "BConnection_RecvAsync_Free c1 = Some c2" "can_wait c2" "con_send_state c2 = SEND_STATE_NOT_INITED"
      "con_recv_state c2 = RECV_STATE_NOT_INITED" using async_free(2) [OF c1(2,4)] c1 by auto
  show thesis
    using that [of c2 "con_close_fd c2"] assms(1,2) c1(1) c2
    by (auto simp: free_control_io_def BConnection_Free_def BReactor_RemoveFileDescriptor_def can_wait_def)
qed

definition connecting :: "BSocksClient \<Rightarrow> bool" where
  "connecting s \<longleftrightarrow> sc_state s = STATE_CONNECTING \<and> sc_con s = None \<and> sc_sender s = None \<and> sc_buffer s = None"

lemma connector_handler_ok:
  assumes s: "connecting s" "\<not> sc_error s" and k: "cr_fd (sc_connector s) \<ge> 0" "cr_connected (sc_connector s) \<longleftrightarrow> \<not> is_error"
      "\<not> cr_have_bfd (sc_connector s)" "\<not> cr_job (sc_connector s)"
    and ra: "realloc_ok realloc"
  shows "\<exists>rs s'. connector_handler realloc added s is_error = Some (rs, s') \<and> sc_auth_info s' = sc_auth_info s \<and> sc_dest_addr s' = sc_dest_addr s \<and>
    \<not> cr_have_bfd (sc_connector s') \<and>
    (rs = [BSOCKSCLIENT_EVENT_ERROR] \<and> sc_error s' \<and> connecting s' \<and>
       (is_error \<or> \<not> added \<or> (\<exists>b n. realloc b n = None) \<or> length (sc_auth_info s) = 0 \<or> length (sc_auth_info s) > 255)
     \<or> rs = [] \<and> \<not> sc_error s' \<and> sc_state s' = STATE_SENDING_HELLO \<and> in_control e s' [] [] [])"
proof (cases "is_error \<or> \<not> added")
  case True
  then show ?thesis using s k
    by (auto simp: connector_handler_def report_error_def connecting_def BConnection_Init_connector_def BReactor_AddFileDescriptor_def)
next
  case False
  obtain c where c: "new_connection True (Some no_events) = Some c" by (auto simp: new_connection_def BReactorLimit_Init_def)
  let ?k = "(sc_connector s)\<lparr>cr_fd := -1\<rparr>" and ?n = "length (sc_auth_info s)"
  let ?sz = "bsize_add (bsize_fromsize 2) (bsize_mul (bsize_fromsize (of_nat ?n)) (bsize_fromsize 1))"
  let ?s = "s\<lparr>sc_connector := ?k, sc_con := Some c\<rparr>"
  have init: "BConnection_Init_connector (sc_connector s) added = Some (?k, Some c)"
    using k False c by (simp add: BConnection_Init_connector_def BReactor_AddFileDescriptor_def)
  obtain c' t where io: "init_control_io ?s = Some (?s\<lparr>sc_con := Some c', sc_sender := Some t\<rparr>)" "con_ctrl c'" "si_state (con_recv_iface c') = State_none"
      "pss_inv (t, []) [] []" "ppi_state (pss_input t) = State_none" "ppi_mtu (pss_input t) = INT_MAX"
    by (rule init_control_io_ok [of ?s c "[]"]) (use c in auto)
  let ?s1 = "?s\<lparr>sc_con := Some c', sc_sender := Some t\<rparr>"
  let ?res = "if ?n = 0 \<or> ?n > 255 then None else reserve_buffer realloc ?s1 ?sz"
  have eq: "connector_handler realloc added s is_error =
     (case ?res of
        None \<Rightarrow> do { s \<leftarrow> free_control_io ?s1; con \<leftarrow> sc_con s; BConnection_Free con; report_error (s\<lparr>sc_con := None\<rparr>) BSOCKSCLIENT_EVENT_ERROR }
      | Some s \<Rightarrow> do { s \<leftarrow> put s 0 [5, of_nat ?n]; s \<leftarrow> put_methods s 0 (sc_auth_info s); s \<leftarrow> send_buffer s ?sz; Some ([], s\<lparr>sc_state := STATE_SENDING_HELLO\<rparr>) })"
    using s False init io(1) by (simp add: connector_handler_def connecting_def hton8_def cong: option.case_cong)
  obtain c2 r where free: "free_control_io ?s1 = Some (?s1\<lparr>sc_con := Some c2, sc_sender := None\<rparr>)" "BConnection_Free c2 = Some r"
    by (rule free_control_io_ok [of ?s1 c' t]) (use io in auto)
  have fail: ?thesis if none: "?res = None" and cause: "(\<exists>b n. realloc b n = None) \<or> ?n = 0 \<or> ?n > 255"
  proof -
    have "connector_handler realloc added s is_error = Some ([BSOCKSCLIENT_EVENT_ERROR], ?s1\<lparr>sc_con := None, sc_sender := None, sc_error := True\<rparr>)"
      unfolding eq none using free s by (simp add: report_error_def)
    then show ?thesis using s k cause by (auto simp: connecting_def)
  qed
  show ?thesis
  proof (cases "?n = 0 \<or> ?n > 255")
    case True
    then show ?thesis by (intro fail) auto
  next
    case n: False
    then have size: "\<not> is_overflow ?sz" "unat (bsize_value ?sz) = 2 + ?n" by (intro hello_size; simp)+
    then have pos: "0 < unat (bsize_value ?sz)" by simp
    show ?thesis
    proof (rule reserve_cases [OF ra size(1) pos, of ?s1])
      assume "reserve_buffer realloc ?s1 ?sz = None" "realloc (sc_buffer ?s1) (bsize_value ?sz) = None"
      then show ?thesis by (intro fail) auto
    next
      fix b
      assume b: "reserve_buffer realloc ?s1 ?sz = Some (?s1\<lparr>sc_buffer := Some b\<rparr>)" "length b = unat (bsize_value ?sz)"
      let ?b = "hello_message (sc_auth_info s)"
      have "put (?s1\<lparr>sc_buffer := Some b\<rparr>) 0 [5, of_nat ?n] = Some (?s1\<lparr>sc_buffer := Some ([5, of_nat ?n] @ drop (2 + 0) b)\<rparr>)"
        using b(2) size(2) by (simp add: put_def overwrite_def numeral_2_eq_2)
      moreover have "put_methods (?s1\<lparr>sc_buffer := Some ([5, of_nat ?n] @ drop (2 + 0) b)\<rparr>) 0 (sc_auth_info s) = Some (?s1\<lparr>sc_buffer := Some ?b\<rparr>)"
        using put_methods_at [of "?s1\<lparr>sc_buffer := Some ([5, of_nat ?n] @ drop (2 + 0) b)\<rparr>" "[5, of_nat ?n]" 0 b "sc_auth_info s"] b(2) size(2)
        by (simp add: hello_message_def)
      moreover obtain t' where t': "send_buffer (?s1\<lparr>sc_buffer := Some ?b\<rparr>) ?sz = Some (?s1\<lparr>sc_buffer := Some ?b, sc_sender := Some t'\<rparr>)"
          "pss_inv (t', ?b) [Give ?b] []" "ppi_state (pss_input t') \<noteq> State_none" "ppi_mtu (pss_input t') = INT_MAX"
        using send_buffer_ok [of "?s1\<lparr>sc_buffer := Some ?b\<rparr>" t ?b "[]" "[]" "[]" ?sz] io size(2) n by (auto simp: hello_message_def)
      ultimately have res: "connector_handler realloc added s is_error = Some ([], ?s1\<lparr>sc_buffer := Some ?b, sc_sender := Some t', sc_state := STATE_SENDING_HELLO\<rparr>)"
        unfolding eq using n b(1) by simp
      have "in_control e (?s1\<lparr>sc_buffer := Some ?b, sc_sender := Some t', sc_state := STATE_SENDING_HELLO\<rparr>) [] [] []"
        unfolding in_control_def using io t'
        by (intro exI [of _ c'] exI [of _ t'] exI [of _ ?b] exI [of _ "[Give ?b]"] exI [of _ "[]"])
          (simp add: is_sending_def rest_talk_def socks_talk_def say_def)
      then show ?thesis using res s k by (auto simp: connecting_def)
    qed
  qed
qed

section \<open>Runs\<close>

fun external_failure :: "socks_event \<Rightarrow> bool" where
  "external_failure (Connector_fd result added) \<longleftrightarrow> result \<noteq> Some 0 \<or> \<not> added"
| "external_failure (Connector_job added) \<longleftrightarrow> \<not> added"
| "external_failure (Connection event) = True"
| "external_failure _ = False"

definition may_fail :: "reallocator \<Rightarrow> BSocksClient_auth_info list \<Rightarrow> verdict \<Rightarrow> socks_event list \<Rightarrow> bool" where
  \<comment> \<open>the reasons for reporting an error\<close>
  "may_fail realloc auth v evs \<longleftrightarrow>
     list_ex external_failure evs \<or> (\<exists>b n. realloc b n = None) \<or> auth = [] \<or> length auth > 255 \<or> v = Refused"

definition socks_progress :: "endian \<Rightarrow> BSocksClient \<Rightarrow> bytes \<Rightarrow> bytes \<Rightarrow> bool" where
  "socks_progress e s received w \<longleftrightarrow>
     (case sc_state s of
        STATE_CONNECTING \<Rightarrow> connector_ok (sc_connector s) \<and> received = [] \<and> w = []
      | STATE_UP \<Rightarrow> True
      | _ \<Rightarrow> \<exists>handled pend. received = handled @ pend \<and> in_control e s handled pend w)"

definition sc_inv :: "endian \<Rightarrow> reallocator \<Rightarrow> BSocksClient_auth_info list \<Rightarrow> BAddr \<Rightarrow> BSocksClient \<Rightarrow> socks_event list \<Rightarrow> socks_out list \<Rightarrow> bool" where
  "sc_inv e realloc auth dest s evs out \<longleftrightarrow>
     sc_auth_info s = auth \<and> sc_dest_addr s = dest \<and> resources_ok s \<and>
     (\<exists>rest. concat (fst (socks_talk e auth dest (rcvd evs))) = wire out @ rest) \<and>
     (sc_state s = STATE_UP \<longrightarrow> snd (socks_talk e auth dest (rcvd evs)) = Established [] \<and>
        wire out = concat (fst (socks_talk e auth dest (rcvd evs)))) \<and>
     (if sc_error s
      then (\<exists>r. r \<noteq> BSOCKSCLIENT_EVENT_UP \<and> reports out = (if sc_state s = STATE_UP then [BSOCKSCLIENT_EVENT_UP, r] else [r])) \<and>
        may_fail realloc auth (snd (socks_talk e auth dest (rcvd evs))) evs
      else reports out = (if sc_state s = STATE_UP then [BSOCKSCLIENT_EVENT_UP] else []) \<and> socks_progress e s (rcvd evs) (wire out))"

lemma control_progress: "sc_state s \<noteq> STATE_CONNECTING \<Longrightarrow> sc_state s \<noteq> STATE_UP \<Longrightarrow>
    socks_progress e s x w \<longleftrightarrow> (\<exists>handled pend. x = handled @ pend \<and> in_control e s handled pend w)"
  by (cases "sc_state s") (simp_all add: socks_progress_def)

lemma control_wire: "in_control e s handled pend w \<Longrightarrow>
    \<exists>rest. concat (fst (socks_talk e (sc_auth_info s) (sc_dest_addr s) (handled @ pend))) = w @ rest"
  by (fastforce simp: in_control_def pss_inv_def)

lemma control_resources:
  assumes "in_control e s handled pend w" "cr_have_bfd (sc_connector s) \<longrightarrow> cr_bfd (sc_connector s) \<noteq> None"
      "sc_state s \<noteq> STATE_CONNECTING" "sc_state s \<noteq> STATE_UP"
  shows "resources_ok s"
  using assms by (cases "sc_state s") (auto simp: in_control_def resources_ok_def intro: con_ctrl_teardown)

lemma resources_bfd: "resources_ok s \<Longrightarrow> cr_have_bfd (sc_connector s) \<longrightarrow> cr_bfd (sc_connector s) \<noteq> None"
  by (simp add: resources_ok_def)

lemma control_inv:
  assumes "in_control e s handled pend (wire out)" "rcvd evs = handled @ pend" "sc_auth_info s = auth" "sc_dest_addr s = dest"
    and "cr_have_bfd (sc_connector s) \<longrightarrow> cr_bfd (sc_connector s) \<noteq> None" "\<not> sc_error s" "sc_state s \<noteq> STATE_CONNECTING" "sc_state s \<noteq> STATE_UP"
    and "reports out = []"
  shows "sc_inv e realloc auth dest s evs out"
proof -
  have "resources_ok s" using assms by (intro control_resources)
  moreover have "socks_progress e s (rcvd evs) (wire out)" using assms by (auto simp: control_progress)
  ultimately show ?thesis using assms control_wire [OF assms(1)] by (simp add: sc_inv_def)
qed

lemma in_receive:
  assumes "sc_inv e realloc auth dest s evs out" "\<not> sc_error s" "sc_sender s = Some t" "sc_con s = Some c" "si_state (con_recv_iface c) \<noteq> State_none"
  obtains handled pend cur b where "in_control e s handled pend (wire out)" "rcvd evs = handled @ pend" "sc_buffer s = Some b" "con_ctrl c"
    "receiving s (con_recv_iface c) b cur pend" "\<not> is_sending (sc_state s)" "sc_state s \<noteq> STATE_CONNECTING" "sc_state s \<noteq> STATE_UP"
    "sc_auth_info s = auth" "sc_dest_addr s = dest" "reports out = []"
    "\<And>c' b' pend'. con_ctrl c' \<Longrightarrow> receiving s (con_recv_iface c') b' cur pend' \<Longrightarrow>
      in_control e (s\<lparr>sc_buffer := Some b', sc_con := Some c'\<rparr>) handled pend' (wire out)"
proof -
  have st: "sc_state s \<noteq> STATE_CONNECTING" "sc_state s \<noteq> STATE_UP" using assms by (auto simp: sc_inv_def resources_ok_def)
  then obtain handled pend where ctrl: "rcvd evs = handled @ pend" "in_control e s handled pend (wire out)" "reports out = []"
    using assms by (auto simp: sc_inv_def control_progress)
  then obtain b h cur where b: "sc_buffer s = Some b" "con_ctrl c" "ppi_mtu (pss_input t) = INT_MAX" "pss_inv (t, b) h (wire out)"
    and talk: "\<And>x. socks_talk e (sc_auth_info s) (sc_dest_addr s) (handled @ x) = (given h @ fst (rest_talk e s (cur @ x)), snd (rest_talk e s (cur @ x)))"
    and r: "\<not> is_sending (sc_state s)" "ppi_state (pss_input t) = State_none" "receiving s (con_recv_iface c) b cur pend"
    using assms by (auto simp: in_control_def split: if_splits)
  have upd: "in_control e (s\<lparr>sc_buffer := Some b', sc_con := Some c'\<rparr>) handled pend' (wire out)"
    if "con_ctrl c'" "receiving s (con_recv_iface c') b' cur pend'" for c' b' pend'
  proof -
    let ?s = "s\<lparr>sc_buffer := Some b', sc_con := Some c'\<rparr>"
    have rest: "rest_talk e ?s = rest_talk e s" by (intro ext) (simp add: rest_talk_def cong: socks_state.case_cong)
    have "receiving ?s (con_recv_iface c') b' cur pend'" using that(2) by (simp add: receiving_def window_def cong: socks_state.case_cong)
    then show ?thesis
      unfolding in_control_def rest using that(1) b talk r(1,2) assms(3) pss_idle_mem [OF r(2) b(4)]
      by (intro exI [of _ c'] exI [of _ t] exI [of _ b'] exI [of _ h] exI [of _ cur]) simp
  qed
  show thesis using that [OF ctrl(2,1) b(1,2) r(3,1) st _ _ ctrl(3) upd] assms(1) by (simp add: sc_inv_def)
qed

lemma handled_inv:
  assumes inv: "sc_inv e realloc auth dest s evs out" and st: "\<not> sc_error s" "sc_state s \<noteq> STATE_CONNECTING" "sc_state s \<noteq> STATE_UP"
    and ok: "handled_ok e realloc s (rcvd evs) (wire out) (Some (rs, s'))" and quiet: "rcvd [ev] = []" "wire out' = []" "reports out' = rs"
  shows "sc_inv e realloc auth dest s' (evs @ [ev]) (out @ out')"
proof -
  let ?talk = "socks_talk e auth dest (rcvd evs)"
  have s: "sc_auth_info s' = auth" "sc_dest_addr s' = dest" "sc_connector s' = sc_connector s"
    and cases: "rs = [] \<and> \<not> sc_error s' \<and> in_control e s' (rcvd evs) [] (wire out) \<and> sc_state s' \<noteq> STATE_CONNECTING \<and> sc_state s' \<noteq> STATE_UP
      \<or> rs = [BSOCKSCLIENT_EVENT_ERROR] \<and> sc_error s' \<and> resources_ok s' \<and> sc_state s' \<noteq> STATE_CONNECTING \<and> sc_state s' \<noteq> STATE_UP \<and>
        ((\<exists>b n. realloc b n = None) \<or> snd ?talk = Refused)
      \<or> rs = [BSOCKSCLIENT_EVENT_UP] \<and> \<not> sc_error s' \<and> resources_ok s' \<and> sc_state s' = STATE_UP \<and>
        snd ?talk = Established [] \<and> wire out = concat (fst ?talk)"
    using ok inv by (auto simp: handled_ok_def sc_inv_def Let_def)
  have "resources_ok s'" using cases s(3) resources_bfd inv control_resources [of e s' "rcvd evs" "[]" "wire out"] by (auto simp: sc_inv_def)
  moreover have "socks_progress e s' (rcvd evs) (wire out)" if "\<not> sc_error s'"
    using cases that s by (auto simp: control_progress) (rule exI [of _ "rcvd evs"], simp, simp add: socks_progress_def)
  ultimately show ?thesis using inv st cases quiet s by (auto simp: sc_inv_def may_fail_def)
qed

lemma pss_busy:
  assumes "pss_inv (t, b) h w" "pss_enabled (t, b) sev" "given [sev] = []"
  shows "ppi_state (pss_input t) \<noteq> State_none"
  using assms by (cases sev) (auto simp: pss_inv_def pss_enabled_def ppi_inv_def si_inv_def split: if_splits)

lemma send_data_busy:
  "PacketStreamSender_send_data s = Some s' \<Longrightarrow> ppi_state (pss_input s) \<noteq> State_none \<Longrightarrow> ppi_state (pss_input s') \<noteq> State_none"
  by (auto simp: PacketStreamSender_send_data_def PacketPassInterface_Done_def bind_Some_iff split: if_splits)

lemma pss_keeps:
  assumes "PacketStreamSender_event sev (t, b) = Some (d, t', b')" "given [sev] = []" "ppi_state (pss_input t) \<noteq> State_none"
  shows "b' = b" and "if sev = Give_job_done then d = [] \<and> ppi_state (pss_input t') = State_none else ppi_state (pss_input t') \<noteq> State_none"
proof -
  show "b' = b" using assms(1,2) by (cases sev) (auto simp: PacketStreamSender_event_def bind_Some_iff)
  show "if sev = Give_job_done then d = [] \<and> ppi_state (pss_input t') = State_none else ppi_state (pss_input t') \<noteq> State_none"
  proof (cases sev)
    case (Give p)
    then show ?thesis using assms(2) by simp
  next
    case Give_job
    then show ?thesis using assms
      by (auto simp: PacketStreamSender_event_def PacketPassInterface_job_operation_def PacketStreamSender_input_handler_send_def bind_Some_iff
          dest!: send_data_busy)
  next
    case Stream_job_done
    then show ?thesis using assms
      by (auto simp: PacketStreamSender_event_def PacketStreamSender_output_handler_done_def bind_Some_iff dest!: send_data_busy)
  qed (use assms in \<open>auto simp: PacketStreamSender_event_def PacketPassInterface_job_done_def bind_Some_iff\<close>)
qed

lemma sender_event:
  assumes inv: "sc_inv e realloc auth dest s evs out" and en: "socks_enabled s (Sender sev)" and ra: "realloc_ok realloc"
  shows "\<exists>o' s'. BSocksClient_event e realloc (Sender sev) s = Some (o', s') \<and> sc_inv e realloc auth dest s' (evs @ [Sender sev]) (out @ o')"
proof -
  have st: "\<not> sc_error s" "sc_state s \<noteq> STATE_CONNECTING" "sc_state s \<noteq> STATE_UP"
    using inv en by (auto simp: socks_enabled_def sc_inv_def resources_ok_def split: option.splits)
  then obtain handled pend where ctrl: "rcvd evs = handled @ pend" "in_control e s handled pend (wire out)"
    using inv by (auto simp: sc_inv_def control_progress)
  then obtain c t b h cur where t: "sc_con s = Some c" "sc_sender s = Some t" "sc_buffer s = Some b" "con_ctrl c" "ppi_mtu (pss_input t) = INT_MAX"
      "pss_inv (t, b) h (wire out)"
    and talk: "\<And>x. socks_talk e (sc_auth_info s) (sc_dest_addr s) (handled @ x) = (given h @ fst (rest_talk e s (cur @ x)), snd (rest_talk e s (cur @ x)))"
    and mode: "if is_sending (sc_state s) then ppi_state (pss_input t) \<noteq> State_none \<and> si_state (con_recv_iface c) = State_none \<and> cur = [] \<and> pend = []
         else ppi_state (pss_input t) = State_none \<and> receiving s (con_recv_iface c) b cur pend"
    unfolding in_control_def by blast
  have sev: "given [sev] = []" "pss_enabled (t, b) sev" using en t by (simp_all add: socks_enabled_def)
  then have busy: "ppi_state (pss_input t) \<noteq> State_none" using pss_busy t(6) by blast
  then have snd: "is_sending (sc_state s)" "si_state (con_recv_iface c) = State_none" "cur = []" "pend = []" using mode by (auto split: if_splits)
  obtain d t' b' where ev: "PacketStreamSender_event sev (t, b) = Some (d, t', b')" "pss_inv (t', b') (h @ [sev]) (wire out @ d)"
    using pss_event [OF t(6) sev(2)] by auto
  have b': "b' = b" "ppi_mtu (pss_input t') = INT_MAX" using pss_keeps(1) [OF ev(1) sev(1) busy] pss_mtu [OF ev(1)] t(5) by simp_all
  let ?s = "s\<lparr>sc_sender := Some t'\<rparr>"
  have rest: "rest_talk e ?s = rest_talk e s" by (intro ext) (simp add: rest_talk_def cong: socks_state.case_cong)
  have talk': "socks_talk e (sc_auth_info ?s) (sc_dest_addr ?s) (handled @ x) = (given (h @ [sev]) @ fst (rest_talk e ?s x), snd (rest_talk e ?s x))" for x
    unfolding rest using talk [of x] snd(3) sev(1) by simp
  show ?thesis
  proof (cases "sev = Give_job_done")
    case True
    have d: "d = []" "ppi_state (pss_input t') = State_none" using pss_keeps(2) [OF ev(1) sev(1) busy] True by simp_all
    have "idle ?s (h @ [sev]) (wire out)" using st t snd b' d ev(2) resources_bfd inv by (simp add: idle_def sc_inv_def)
    then have "handled_ok e realloc ?s handled (wire out) (send_handler_done realloc ?s)"
      by (rule send_handler_done_ok) (use snd(1) ra talk' in simp_all)
    then have ok: "handled_ok e realloc s (rcvd evs) (wire out) (send_handler_done realloc ?s)" using ctrl(1) snd(4) by (simp add: handled_ok_def)
    then obtain rs s' where res: "send_handler_done realloc ?s = Some (rs, s')" by (auto simp: handled_ok_def)
    have "BSocksClient_event e realloc (Sender sev) s = Some (Wire [] # map Report rs, s')"
      using True t ev(1) b' d res by (simp add: BSocksClient_event_def)
    moreover have "sc_inv e realloc auth dest s' (evs @ [Sender sev]) (out @ Wire [] # map Report rs)"
      by (rule handled_inv [OF inv st]) (use ok res in simp_all)
    ultimately show ?thesis by blast
  next
    case False
    have "in_control e ?s handled [] (wire out @ d)"
      unfolding in_control_def using snd t b' ev(2) talk' pss_keeps(2) [OF ev(1) sev(1) busy] False
      by (intro exI [of _ c] exI [of _ t'] exI [of _ b] exI [of _ "h @ [sev]"] exI [of _ "[]"]) simp
    then have "sc_inv e realloc auth dest ?s (evs @ [Sender sev]) (out @ [Wire d])"
      by (intro control_inv [of e _ handled "[]"]) (use inv st ctrl(1) snd(4) in \<open>auto simp: sc_inv_def resources_ok_def\<close>)
    moreover have "BSocksClient_event e realloc (Sender sev) s = Some ([Wire d], ?s)" using False t ev(1) b' by (simp add: BSocksClient_event_def)
    ultimately show ?thesis by blast
  qed
qed

lemma recv_start_event:
  assumes inv: "sc_inv e realloc auth dest s evs out" and en: "socks_enabled s Recv_start"
  shows "\<exists>o' s'. BSocksClient_event e realloc Recv_start s = Some (o', s') \<and> sc_inv e realloc auth dest s' (evs @ [Recv_start]) (out @ o')"
proof -
  obtain t c where c: "\<not> sc_error s" "sc_sender s = Some t" "sc_con s = Some c" "si_job_operation (con_recv_iface c)"
    using en by (auto simp: socks_enabled_def split: option.splits)
  have "con_ctrl c" if "sc_state s \<noteq> STATE_CONNECTING" "sc_state s \<noteq> STATE_UP"
    using inv c that by (auto simp: sc_inv_def control_progress in_control_def)
  moreover have "sc_state s \<noteq> STATE_CONNECTING" "sc_state s \<noteq> STATE_UP" using inv c by (auto simp: sc_inv_def resources_ok_def)
  ultimately have pending: "si_state (con_recv_iface c) = State_operation_pending" using c(4) by (simp add: con_ctrl_def si_inv_def)
  then have "si_state (con_recv_iface c) \<noteq> State_none" by simp
  then obtain handled pend cur b where r: "rcvd evs = handled @ pend" "sc_buffer s = Some b" "con_ctrl c"
    "receiving s (con_recv_iface c) b cur pend" "sc_state s \<noteq> STATE_CONNECTING" "sc_state s \<noteq> STATE_UP"
    "sc_auth_info s = auth" "sc_dest_addr s = dest" "reports out = []"
    and upd: "\<And>c' b' pend'. con_ctrl c' \<Longrightarrow> receiving s (con_recv_iface c') b' cur pend' \<Longrightarrow>
      in_control e (s\<lparr>sc_buffer := Some b', sc_con := Some c'\<rparr>) handled pend' (wire out)"
    using in_receive [OF inv c(1,2,3)] by metis
  let ?c = "c\<lparr>con_recv_iface := (con_recv_iface c)\<lparr>si_job_operation := False, si_state := State_busy\<rparr>\<rparr>"
  have "con_ctrl ?c" using r(3) pending by (auto simp: con_ctrl_def can_wait_def si_inv_def)
  moreover have "receiving s (con_recv_iface ?c) b cur pend" using r(4) pending by (auto simp: receiving_def)
  ultimately have "in_control e (s\<lparr>sc_buffer := Some b, sc_con := Some ?c\<rparr>) handled pend (wire out)" by (rule upd)
  moreover have "s\<lparr>sc_buffer := Some b, sc_con := Some ?c\<rparr> = s\<lparr>sc_con := Some ?c\<rparr>" using r(2) by simp
  ultimately have "sc_inv e realloc auth dest (s\<lparr>sc_con := Some ?c\<rparr>) (evs @ [Recv_start]) (out @ [])"
    using r c(1) resources_bfd inv by (intro control_inv [of e _ handled pend]) (auto simp: sc_inv_def)
  moreover have "BSocksClient_event e realloc Recv_start s = Some ([], s\<lparr>sc_con := Some ?c\<rparr>)"
    using c(3) pending by (simp add: BSocksClient_event_def StreamRecvInterface_job_operation_def)
  ultimately show ?thesis by blast
qed

lemma subbytes_extend: "subbytes b i n = Some xs \<Longrightarrow> overwrite b (i + n) ys = Some b' \<Longrightarrow> subbytes b' i (n + length ys) = Some (xs @ ys)"
proof -
  assume a: "subbytes b i n = Some xs" and o': "overwrite b (i + n) ys = Some b'"
  then have b': "b' = take (i + n) b @ ys @ drop (i + n + length ys) b" "i + n + length ys \<le> length b" and xs: "xs = take n (drop i b)" "length xs = n"
    by (auto simp: subbytes_def overwrite_def split: if_splits)
  then have "drop i b' = xs @ ys @ drop (i + n + length ys) b" by (simp add: drop_take)
  then show ?thesis using b' xs(2) by (simp add: subbytes_def)
qed

lemma window_fits: "window s b \<Longrightarrow> sc_recv_dest s + nat (sc_recv_total s) \<le> length b"
  by (auto simp: window_def split: socks_state.splits)

lemma recv_data_event:
  assumes inv: "sc_inv e realloc auth dest s evs out" and en: "socks_enabled s (Recv_data d)"
  shows "\<exists>o' s'. BSocksClient_event e realloc (Recv_data d) s = Some (o', s') \<and> sc_inv e realloc auth dest s' (evs @ [Recv_data d]) (out @ o')"
proof -
  obtain t c where c: "\<not> sc_error s" "sc_sender s = Some t" "sc_con s = Some c" "si_state (con_recv_iface c) = State_busy"
      "d \<noteq> []" "int (length d) \<le> si_len (con_recv_iface c)"
    using en by (auto simp: socks_enabled_def split: option.splits)
  then have "si_state (con_recv_iface c) \<noteq> State_none" by simp
  then obtain handled pend cur b where r: "rcvd evs = handled @ pend" "sc_buffer s = Some b" "con_ctrl c"
    "receiving s (con_recv_iface c) b cur pend" "sc_state s \<noteq> STATE_CONNECTING" "sc_state s \<noteq> STATE_UP"
    "sc_auth_info s = auth" "sc_dest_addr s = dest" "reports out = []"
    and upd: "\<And>c' b' pend'. con_ctrl c' \<Longrightarrow> receiving s (con_recv_iface c') b' cur pend' \<Longrightarrow>
      in_control e (s\<lparr>sc_buffer := Some b', sc_con := Some c'\<rparr>) handled pend' (wire out)"
    using in_receive [OF inv c(1,2,3)] by metis
  let ?p = "sc_recv_dest s + length cur"
  let ?i = "(con_recv_iface c)\<lparr>si_done_len := int (length d), si_job_done := True, si_state := State_done_pending\<rparr>"
  let ?c = "c\<lparr>con_recv_iface := ?i\<rparr>"
  have w: "window s b" "pend = []" "si_data (con_recv_iface c) = Some ?p" "si_len (con_recv_iface c) = sc_recv_total s - int (length cur)"
      "subbytes b (sc_recv_dest s) (length cur) = Some cur"
    using r(4) c(4) by (auto simp: receiving_def)
  then have "?p + length d \<le> length b" using window_fits [OF w(1)] c(6) by simp
  then obtain b' where b': "overwrite b ?p d = Some b'" by (simp add: overwrite_total)
  then have "length b' = length b" "subbytes b' (sc_recv_dest s) (length cur + length d) = Some (cur @ d)"
    using overwrite_length subbytes_extend [OF w(5)] by blast+
  moreover have "window s b'" using w(1) \<open>length b' = length b\<close> by (simp add: window_def cong: socks_state.case_cong)
  ultimately have "receiving s (con_recv_iface ?c) b' cur d" using r(4) w c(4) by (auto simp: receiving_def)
  moreover have "con_ctrl ?c" using r(3) c by (auto simp: con_ctrl_def can_wait_def si_inv_def)
  ultimately have "in_control e (s\<lparr>sc_buffer := Some b', sc_con := Some ?c\<rparr>) handled d (wire out)" by (intro upd)
  then have "sc_inv e realloc auth dest (s\<lparr>sc_buffer := Some b', sc_con := Some ?c\<rparr>) (evs @ [Recv_data d]) (out @ [])"
    using r c(1) w(2) resources_bfd inv by (intro control_inv [of e _ handled d]) (auto simp: sc_inv_def)
  moreover have "BSocksClient_event e realloc (Recv_data d) s = Some ([], s\<lparr>sc_buffer := Some b', sc_con := Some ?c\<rparr>)"
    using c w r(2) b' by (simp add: BSocksClient_event_def StreamRecvInterface_Done_def)
  ultimately show ?thesis by blast
qed

lemma recv_finished_event:
  assumes inv: "sc_inv e realloc auth dest s evs out" and en: "socks_enabled s Recv_finished"
    and ra: "realloc_ok realloc" and dest: "dest_ok dest" and types: "types_ok auth"
  shows "\<exists>o' s'. BSocksClient_event e realloc Recv_finished s = Some (o', s') \<and> sc_inv e realloc auth dest s' (evs @ [Recv_finished]) (out @ o')"
proof -
  obtain t c where c: "\<not> sc_error s" "sc_sender s = Some t" "sc_con s = Some c" "si_job_done (con_recv_iface c)"
    using en by (auto simp: socks_enabled_def split: option.splits)
  have "con_ctrl c" if "sc_state s \<noteq> STATE_CONNECTING" "sc_state s \<noteq> STATE_UP"
    using inv c that by (auto simp: sc_inv_def control_progress in_control_def)
  moreover have "sc_state s \<noteq> STATE_CONNECTING" "sc_state s \<noteq> STATE_UP" using inv c by (auto simp: sc_inv_def resources_ok_def)
  ultimately have pending: "si_state (con_recv_iface c) = State_done_pending" using c(4) by (simp add: con_ctrl_def si_inv_def)
  then have "si_state (con_recv_iface c) \<noteq> State_none" by simp
  then obtain handled pend where r: "in_control e s handled pend (wire out)" "rcvd evs = handled @ pend" "\<not> is_sending (sc_state s)"
    "sc_state s \<noteq> STATE_CONNECTING" "sc_state s \<noteq> STATE_UP" "sc_auth_info s = auth" "sc_dest_addr s = dest"
    using in_receive [OF inv c(1,2,3)] by metis
  have k: "cr_have_bfd (sc_connector s) \<longrightarrow> cr_bfd (sc_connector s) \<noteq> None" using inv resources_bfd by (auto simp: sc_inv_def)
  obtain i where i: "StreamRecvInterface_job_done (con_recv_iface c) = Some i"
      "handled_ok e realloc s (rcvd evs) (wire out) (recv_handler_done e realloc (s\<lparr>sc_con := Some (c\<lparr>con_recv_iface := i\<rparr>)\<rparr>) (si_done_len i))"
    using recv_finished_ok [OF r(1) c(1) r(3,4,5) k ra _ _ c(3) pending] dest types r by auto
  then obtain rs s' where res: "recv_handler_done e realloc (s\<lparr>sc_con := Some (c\<lparr>con_recv_iface := i\<rparr>)\<rparr>) (si_done_len i) = Some (rs, s')"
    by (auto simp: handled_ok_def)
  have "BSocksClient_event e realloc Recv_finished s = Some (map Report rs, s')" using c(3) i(1) res by (simp add: BSocksClient_event_def)
  moreover have "sc_inv e realloc auth dest s' (evs @ [Recv_finished]) (out @ map Report rs)"
    by (rule handled_inv [OF inv c(1) r(4,5)]) (use i(2) res in simp_all)
  ultimately show ?thesis by blast
qed

lemma connection_event:
  assumes inv: "sc_inv e realloc auth dest s evs out" and en: "socks_enabled s (Connection event)"
  shows "\<exists>o' s'. BSocksClient_event e realloc (Connection event) s = Some (o', s') \<and> sc_inv e realloc auth dest s' (evs @ [Connection event]) (out @ o')"
proof -
  have st: "\<not> sc_error s" "sc_state s \<noteq> STATE_CONNECTING" using inv en by (auto simp: socks_enabled_def sc_inv_def resources_ok_def)
  define r where "r = (if sc_state s = STATE_UP \<and> event = Event_recvclosed then BSOCKSCLIENT_EVENT_ERROR_CLOSED else BSOCKSCLIENT_EVENT_ERROR)"
  have "BSocksClient_event e realloc (Connection event) s = Some ([Report r], s\<lparr>sc_error := True\<rparr>)"
    using st by (simp add: r_def BSocksClient_event_def connection_handler_def report_error_def)
  moreover have "resources_ok (s\<lparr>sc_error := True\<rparr>)" using inv by (simp add: sc_inv_def resources_ok_def cong: socks_state.case_cong)
  then have "sc_inv e realloc auth dest (s\<lparr>sc_error := True\<rparr>) (evs @ [Connection event]) (out @ [Report r])"
    using inv st by (auto simp: sc_inv_def may_fail_def r_def)
  ultimately show ?thesis by blast
qed

lemma connector_event:
  assumes inv: "sc_inv e realloc auth dest s evs out" and en: "socks_enabled s ev" and ra: "realloc_ok realloc"
    and ev: "ev = Connector_fd result added \<or> ev = Connector_job added"
  shows "\<exists>o' s'. BSocksClient_event e realloc ev s = Some (o', s') \<and> sc_inv e realloc auth dest s' (evs @ [ev]) (out @ o')"
proof -
  have st: "\<not> sc_error s" "sc_state s = STATE_CONNECTING" using en ev by (auto simp: socks_enabled_def)
  then have s: "connecting s" "connector_ok (sc_connector s)" "rcvd evs = []" "wire out = []" "reports out = []" "sc_auth_info s = auth" "sc_dest_addr s = dest"
    using inv by (auto simp: sc_inv_def socks_progress_def resources_ok_def connecting_def)
  obtain is_error k where k: "BSocksClient_event e realloc ev s =
        do { (rs, s) \<leftarrow> connector_handler realloc added (s\<lparr>sc_connector := k\<rparr>) is_error; Some (map Report rs, s) }"
      "cr_fd k \<ge> 0" "cr_connected k \<longleftrightarrow> \<not> is_error" "\<not> cr_have_bfd k" "\<not> cr_job k" "is_error \<or> \<not> added \<longrightarrow> external_failure ev"
    using ev en s(2)
    by (auto simp: BSocksClient_event_def connector_fd_handler_def connector_job_handler_def BReactor_RemoveFileDescriptor_def
        socks_enabled_def connector_ok_def split: if_splits)
  let ?s = "s\<lparr>sc_connector := k\<rparr>"
  have "connecting ?s" using s(1) by (simp add: connecting_def)
  then obtain rs s' where res: "connector_handler realloc added ?s is_error = Some (rs, s')" and
      s': "sc_auth_info s' = auth" "sc_dest_addr s' = dest" "\<not> cr_have_bfd (sc_connector s')"
    and cases: "rs = [BSOCKSCLIENT_EVENT_ERROR] \<and> sc_error s' \<and> connecting s' \<and>
       (is_error \<or> \<not> added \<or> (\<exists>b n. realloc b n = None) \<or> length auth = 0 \<or> length auth > 255)
     \<or> rs = [] \<and> \<not> sc_error s' \<and> sc_state s' = STATE_SENDING_HELLO \<and> in_control e s' [] [] []"
    using connector_handler_ok [of ?s is_error realloc added e] st s k ra by auto
  have "BSocksClient_event e realloc ev s = Some (map Report rs, s')" using k(1) res by simp
  moreover have "sc_inv e realloc auth dest s' (evs @ [ev]) (out @ map Report rs)" using cases
  proof
    assume "rs = [BSOCKSCLIENT_EVENT_ERROR] \<and> sc_error s' \<and> connecting s' \<and>
       (is_error \<or> \<not> added \<or> (\<exists>b n. realloc b n = None) \<or> length auth = 0 \<or> length auth > 255)"
    then show ?thesis using s s' k(6) by (auto simp: sc_inv_def may_fail_def resources_ok_def connecting_def)
  next
    assume "rs = [] \<and> \<not> sc_error s' \<and> sc_state s' = STATE_SENDING_HELLO \<and> in_control e s' [] [] []"
    then show ?thesis using s s' ev by (intro control_inv [of e s' "[]" "[]"]) auto
  qed
  ultimately show ?thesis by blast
qed

interpretation sc: event_system socks_enabled "BSocksClient_event e realloc"
    "\<lambda>s evs out. realloc_ok realloc \<and> dest_ok dest \<and> types_ok auth \<and> sc_inv e realloc auth dest s evs out" for e realloc auth dest
proof
  fix s evs out ev
  assume inv: "realloc_ok realloc \<and> dest_ok dest \<and> types_ok auth \<and> sc_inv e realloc auth dest s evs out" and en: "socks_enabled s ev"
  then have "\<exists>o' s'. BSocksClient_event e realloc ev s = Some (o', s') \<and> sc_inv e realloc auth dest s' (evs @ [ev]) (out @ o')"
    by (cases ev) (blast intro: connector_event sender_event recv_start_event recv_data_event recv_finished_event connection_event)+
  then show "\<exists>o' s'. BSocksClient_event e realloc ev s = Some (o', s') \<and> realloc_ok realloc \<and> dest_ok dest \<and> types_ok auth \<and>
      sc_inv e realloc auth dest s' (evs @ [ev]) (out @ o')" using inv by blast
qed

lemma socks_init:
  assumes "BSocksClient_Init server_addr auth dest sock nonblocking connect added = Some (Some s)"
  shows "types_ok auth" "sc_inv e realloc auth dest s [] []"
proof -
  show "types_ok auth" using assms by (auto simp: BSocksClient_Init_def bind_Some_iff types_ok_def)
  obtain k where "BConnector_InitFrom (BLISCON_FROM_ADDR server_addr) sock nonblocking connect added = Some (Some k)"
    and s: "s = \<lparr>sc_auth_info = auth, sc_dest_addr = dest, sc_state = STATE_CONNECTING, sc_buffer = None,
      sc_connector = k, sc_con = None, sc_sender = None, sc_recv_dest = 0, sc_recv_len = 0, sc_recv_total = 0, sc_error = False\<rparr>"
    using assms by (auto simp: BSocksClient_Init_def bind_Some_iff split: option.splits)
  then have "connector_ok k"
    by (auto simp: BConnector_InitFrom_def connector_ok_def bind_Some_iff BReactor_AddFileDescriptor_def BReactor_SetFileDescriptorEvents_def
        split: if_splits connect_result.splits option.splits)
  then show "sc_inv e realloc auth dest s [] []" by (auto simp: s sc_inv_def resources_ok_def socks_progress_def connector_ok_def)
qed

lemma socks_run:
  assumes "BSocksClient_Init server_addr auth dest sock nonblocking connect added = Some (Some s)" "dest_ok dest" "realloc_ok realloc"
    and "legal_events socks_enabled (BSocksClient_event e realloc) evs s"
  shows "\<exists>out s'. run_events (BSocksClient_event e realloc) evs s = Some (out, s') \<and> sc_inv e realloc auth dest s' evs out"
  using sc.run_inv [where realloc = realloc and auth = auth and dest = dest] socks_init [OF assms(1)] assms(2-) by blast

lemma rest_short:
  assumes "window s b" "int (length x) < sc_recv_total s"
  shows "rest_talk e s x = ([], More)"
  using assms by (auto simp: window_def rest_talk_def talk_hello_def talk_password_def talk_reply_def talk_address_def split: socks_state.splits)

lemma waits_for_server:
  assumes "sc_inv e realloc auth dest s evs out" "\<not> sc_error s" "sc_sender s = Some t" "sc_con s = Some c" "si_state (con_recv_iface c) = State_busy"
  shows "socks_talk e auth dest (rcvd evs) = (fst (socks_talk e auth dest (rcvd evs)), More)" "wire out = concat (fst (socks_talk e auth dest (rcvd evs)))"
proof -
  have "si_state (con_recv_iface c) \<noteq> State_none" using assms(5) by simp
  then obtain handled pend cur b where r: "in_control e s handled pend (wire out)" "rcvd evs = handled @ pend" "\<not> is_sending (sc_state s)"
      "sc_auth_info s = auth" "sc_dest_addr s = dest"
    using in_receive [OF assms(1-4)] by metis
  then obtain b h cur where b: "pss_inv (t, b) h (wire out)" "ppi_state (pss_input t) = State_none" "receiving s (con_recv_iface c) b cur pend"
    and talk: "\<And>x. socks_talk e auth dest (handled @ x) = (given h @ fst (rest_talk e s (cur @ x)), snd (rest_talk e s (cur @ x)))"
    using assms by (auto simp: in_control_def)
  then have "window s b" "int (length cur) < sc_recv_total s" "pend = []" using assms(5) by (auto simp: receiving_def)
  then have "socks_talk e auth dest (rcvd evs) = (given h, More)" using talk [of "[]"] rest_short [of s b cur] r(2) by simp
  moreover have "concat (given h) = wire out" using b(1,2) by (auto simp: pss_inv_def)
  ultimately show "socks_talk e auth dest (rcvd evs) = (fst (socks_talk e auth dest (rcvd evs)), More)"
    "wire out = concat (fst (socks_talk e auth dest (rcvd evs)))" by simp_all
qed

lemma sender_moves:
  assumes "pss_inv (t, b) h w" "ppi_state (pss_input t) \<noteq> State_none"
  shows "\<exists>sev. given [sev] = [] \<and> pss_enabled (t, b) sev"
proof (cases "ppi_state (pss_input t)")
  case State_operation_pending
  then have "pss_enabled (t, b) Give_job" using assms by (simp add: pss_inv_def pss_enabled_def ppi_inv_def)
  then show ?thesis by (metis given.simps(1,3))
next
  case State_done_pending
  then have "pss_enabled (t, b) Give_job_done" using assms by (simp add: pss_inv_def pss_enabled_def ppi_inv_def)
  then show ?thesis by (metis given.simps(1,7))
next
  case State_busy
  then obtain rest where p: "si_inv (pss_output t)" "pss_sending t b rest" using assms by (auto simp: pss_inv_def)
  let ?sev = "case si_state (pss_output t) of State_operation_pending \<Rightarrow> Stream_job | State_busy \<Rightarrow> Stream_taken 1 | _ \<Rightarrow> Stream_job_done"
  have "pss_enabled (t, b) ?sev" using p by (auto simp: pss_enabled_def pss_sending_def si_inv_def split: op_state.splits)
  moreover have "given [?sev] = []" by (simp split: op_state.split)
  ultimately show ?thesis by blast
qed (use assms in simp)

lemma not_stuck:
  assumes inv: "sc_inv e realloc auth dest s evs out" and st: "\<not> sc_error s" "sc_state s \<noteq> STATE_UP"
  shows "\<exists>ev. socks_enabled s ev \<and> \<not> external_failure ev"
proof (cases "sc_state s = STATE_CONNECTING")
  case True
  then have "connector_ok (sc_connector s)" using inv st by (simp add: sc_inv_def socks_progress_def)
  then have "socks_enabled s (if cr_have_bfd (sc_connector s) then Connector_fd (Some 0) True else Connector_job True)"
    using st True by (simp add: socks_enabled_def connector_ok_def split: if_splits)
  then show ?thesis by (metis external_failure.simps(1,2))
next
  case False
  then obtain handled pend where "in_control e s handled pend (wire out)" using inv st by (auto simp: sc_inv_def control_progress)
  then obtain c t b h cur where c: "sc_con s = Some c" "sc_sender s = Some t" "sc_buffer s = Some b" "con_ctrl c" "pss_inv (t, b) h (wire out)"
    and mode: "is_sending (sc_state s) \<longrightarrow> ppi_state (pss_input t) \<noteq> State_none" "\<not> is_sending (sc_state s) \<longrightarrow> receiving s (con_recv_iface c) b cur pend"
    unfolding in_control_def by (cases "is_sending (sc_state s)") auto
  show ?thesis
  proof (cases "is_sending (sc_state s)")
    case True
    then obtain sev where "given [sev] = []" "pss_enabled (t, b) sev" using sender_moves [OF c(5)] mode by auto
    then have "socks_enabled s (Sender sev)" using st c by (simp add: socks_enabled_def)
    then show ?thesis by (metis external_failure.simps(4))
  next
    case False
    then have recv: "si_state (con_recv_iface c) \<noteq> State_none" "0 < si_len (con_recv_iface c)" using mode by (simp_all add: receiving_def)
    let ?ev = "case si_state (con_recv_iface c) of State_operation_pending \<Rightarrow> Recv_start | State_busy \<Rightarrow> Recv_data [0] | _ \<Rightarrow> Recv_finished"
    have "socks_enabled s ?ev" using st c recv by (auto simp: socks_enabled_def con_ctrl_def si_inv_def split: op_state.splits)
    moreover have "\<not> external_failure ?ev" by (simp split: op_state.split)
    ultimately show ?thesis by blast
  qed
qed

lemma socks_free:
  assumes "resources_ok s"
  shows "\<exists>s'. BSocksClient_Free s = Some s' \<and> sc_con s' = None \<and> sc_sender s' = None \<and> sc_buffer s' = None"
proof -
  have k: "\<exists>x. BConnector_Free (sc_connector s) = Some x" using resources_bfd [OF assms]
    by (auto simp: BConnector_Free_def BReactor_RemoveFileDescriptor_def)
  show ?thesis
  proof (cases "sc_state s = STATE_CONNECTING")
    case True
    then show ?thesis using assms k by (auto simp: BSocksClient_Free_def resources_ok_def)
  next
    case False
    then obtain c where c: "sc_con s = Some c" "teardown_ok c" "sc_state s = STATE_UP \<or> sc_sender s \<noteq> None" "sc_state s = STATE_UP \<longrightarrow> sc_sender s = None"
      using assms by (cases "sc_state s") (auto simp: resources_ok_def)
    obtain c1 c2 where f: "BConnection_SendAsync_Free c = Some c1" "BConnection_RecvAsync_Free c1 = Some c2" "BConnection_Free c2 = Some (con_close_fd c)"
      using teardown [OF c(2)] by (auto simp: bind_Some_iff)
    then show ?thesis using False c k by (cases "sc_state s = STATE_UP") (auto simp: BSocksClient_Free_def free_up_io_def free_control_io_def)
  qed
qed

section \<open>Properties\<close>

definition example_realloc :: reallocator where
  "example_realloc b n = Some (replicate (unat n) 0)"

lemma example_realloc_ok: "realloc_ok example_realloc"
  by (simp add: realloc_ok_def example_realloc_def)

definition example_written :: "nat \<Rightarrow> socks_event list" where
  "example_written n = map Sender [Give_job, Stream_job, Stream_taken n, Stream_job_done, Give_job_done]"

definition example_greeted :: "socks_event list" where
  "example_greeted = [Connector_job True] @ example_written 3 @ [Recv_start, Recv_data [5], Recv_finished]"

definition example_up :: "socks_event list" where
  "example_up = example_greeted @ [Recv_start, Recv_data [0], Recv_finished] @ example_written 10 @
     [Recv_start, Recv_data [5, 0, 0, 1], Recv_finished, Recv_start, Recv_data [9, 9, 9, 9, 8, 8], Recv_finished]"

definition example_client :: "BSocksClient option option" where
  "example_client = BSocksClient_Init (BAddr_IPv4 1 2) [BSocksClient_auth_none] (BAddr_IPv4 3 4) 7 True Connect_done True"

lemma example_run:
  obtains s out s' where "example_client = Some (Some s)"
    "legal_events socks_enabled (BSocksClient_event LittleEndian example_realloc) example_up s"
    "run_events (BSocksClient_event LittleEndian example_realloc) example_up s = Some (out, s')" "sc_state s' = STATE_UP"
proof -
  have "case example_client of Some (Some s) \<Rightarrow>
      legal_events socks_enabled (BSocksClient_event LittleEndian example_realloc) example_up s \<and>
      (case run_events (BSocksClient_event LittleEndian example_realloc) example_up s of
         Some (out, s') \<Rightarrow> sc_state s' = STATE_UP | None \<Rightarrow> False) | _ \<Rightarrow> False"
    by code_simp
  then show thesis using that by (auto split: option.splits)
qed

text \<open>
  C3. The SOCKS client speaks the protocol: whatever the order of the events after a successful \<^term>\<open>BSocksClient_Init\<close>, no
  assertion fails and no access leaves the buffer, the bytes written to the server are a prefix of what the protocol demands as answer
  to the bytes received. The client reports UP, once, exactly when the server accepted the connection; then the whole conversation was
  written and not one byte after the reply of the server was consumed. It reports at most one error, after which it does nothing, and only if
  the connection failed, memory was short, the number of authentication methods does not fit a byte or the server refused.
\<close>

theorem socks_conversation:
  assumes "BSocksClient_Init server_addr auth dest sock nonblocking connect added = Some (Some s)" "dest_ok dest" "realloc_ok realloc"
    and "legal_events socks_enabled (BSocksClient_event e realloc) evs s"
  shows "\<exists>out s' errors. run_events (BSocksClient_event e realloc) evs s = Some (out, s') \<and>
    prefix (wire out) (concat (fst (socks_talk e auth dest (rcvd evs)))) \<and>
    reports out = (if sc_state s' = STATE_UP then [BSOCKSCLIENT_EVENT_UP] else []) @ errors \<and>
    (sc_state s' = STATE_UP \<longrightarrow> snd (socks_talk e auth dest (rcvd evs)) = Established [] \<and> wire out = concat (fst (socks_talk e auth dest (rcvd evs)))) \<and>
    length errors \<le> 1 \<and> BSOCKSCLIENT_EVENT_UP \<notin> set errors \<and>
    (errors \<noteq> [] \<longrightarrow> may_fail realloc auth (snd (socks_talk e auth dest (rcvd evs))) evs)"
proof -
  obtain out s' where r: "run_events (BSocksClient_event e realloc) evs s = Some (out, s')" "sc_inv e realloc auth dest s' evs out"
    using socks_run [OF assms] by blast
  have "prefix (wire out) (concat (fst (socks_talk e auth dest (rcvd evs))))" using r(2) by (auto simp: sc_inv_def)
  moreover obtain errors where "reports out = (if sc_state s' = STATE_UP then [BSOCKSCLIENT_EVENT_UP] else []) @ errors"
      "length errors \<le> 1" "BSOCKSCLIENT_EVENT_UP \<notin> set errors" "errors \<noteq> [] \<longrightarrow> sc_error s'"
  proof (cases "sc_error s'")
    case True
    then obtain x where "x \<noteq> BSOCKSCLIENT_EVENT_UP" "reports out = (if sc_state s' = STATE_UP then [BSOCKSCLIENT_EVENT_UP, x] else [x])"
      using r(2) by (auto simp: sc_inv_def)
    then show ?thesis using that [of "[x]"] True by auto
  next
    case False
    then show ?thesis using that [of "[]"] r(2) by (simp add: sc_inv_def)
  qed
  ultimately show ?thesis using r by (auto simp: sc_inv_def)
qed

theorem socks_conversation_witness:
  "\<exists>s out s'. example_client = Some (Some s) \<and> run_events (BSocksClient_event LittleEndian example_realloc) example_up s = Some (out, s') \<and>
     wire out = concat (fst (socks_talk LittleEndian [BSocksClient_auth_none] (BAddr_IPv4 3 4) (rcvd example_up)))"
proof -
  obtain s out s' where s: "example_client = Some (Some s)"
    "legal_events socks_enabled (BSocksClient_event LittleEndian example_realloc) example_up s"
    "run_events (BSocksClient_event LittleEndian example_realloc) example_up s = Some (out, s')" "sc_state s' = STATE_UP"
    by (rule example_run)
  have "dest_ok (BAddr_IPv4 3 4)" by (simp add: dest_ok_def)
  then show ?thesis using socks_conversation [OF s(1) [unfolded example_client_def] _ example_realloc_ok s(2)] s by auto
qed

text \<open>
  C10. The SOCKS client is never stuck: while it has neither reported UP nor an error, something other than a failure can happen, and
  if the next thing to happen is that the server sends something, then the protocol calls for more bytes from the server and
  everything the client had to say was written.
\<close>

theorem socks_never_stuck:
  assumes "BSocksClient_Init server_addr auth dest sock nonblocking connect added = Some (Some s)" "dest_ok dest" "realloc_ok realloc"
    and "legal_events socks_enabled (BSocksClient_event e realloc) evs s"
    and "run_events (BSocksClient_event e realloc) evs s = Some (out, s')" "reports out = []"
  shows "(\<exists>ev. socks_enabled s' ev \<and> \<not> external_failure ev) \<and>
    (socks_enabled s' (Recv_data [x]) \<longrightarrow>
       snd (socks_talk e auth dest (rcvd evs)) = More \<and> wire out = concat (fst (socks_talk e auth dest (rcvd evs))))"
proof -
  have inv: "sc_inv e realloc auth dest s' evs out" using socks_run [OF assms(1-4)] assms(5) by auto
  then have st: "\<not> sc_error s'" "sc_state s' \<noteq> STATE_UP" using assms(6) by (auto simp: sc_inv_def split: if_splits)
  show ?thesis
  proof (intro conjI impI)
    show "\<exists>ev. socks_enabled s' ev \<and> \<not> external_failure ev" using not_stuck inv st by blast
    assume "socks_enabled s' (Recv_data [x])"
    then obtain t c where "sc_sender s' = Some t" "sc_con s' = Some c" "si_state (con_recv_iface c) = State_busy"
      by (auto simp: socks_enabled_def split: option.splits)
    note w = waits_for_server [OF inv st(1) this]
    show "snd (socks_talk e auth dest (rcvd evs)) = More" using w(1) by (metis snd_conv)
    show "wire out = concat (fst (socks_talk e auth dest (rcvd evs)))" by (rule w(2))
  qed
qed

theorem socks_never_stuck_witness:
  "\<exists>s out s'. example_client = Some (Some s) \<and>
     run_events (BSocksClient_event LittleEndian example_realloc) (example_greeted @ [Recv_start]) s = Some (out, s') \<and>
     socks_enabled s' (Recv_data [0]) \<and> snd (socks_talk LittleEndian [BSocksClient_auth_none] (BAddr_IPv4 3 4) (rcvd (example_greeted @ [Recv_start]))) = More"
proof -
  let ?evs = "example_greeted @ [Recv_start]"
  have "case example_client of Some (Some s) \<Rightarrow>
      legal_events socks_enabled (BSocksClient_event LittleEndian example_realloc) ?evs s \<and>
      (case run_events (BSocksClient_event LittleEndian example_realloc) ?evs s of
         Some (out, s') \<Rightarrow> reports out = [] \<and> socks_enabled s' (Recv_data [0]) | None \<Rightarrow> False) | _ \<Rightarrow> False"
    by code_simp
  then obtain s out s' where s: "example_client = Some (Some s)"
    "legal_events socks_enabled (BSocksClient_event LittleEndian example_realloc) ?evs s"
    "run_events (BSocksClient_event LittleEndian example_realloc) ?evs s = Some (out, s')" "reports out = []" "socks_enabled s' (Recv_data [0])"
    by (auto split: option.splits)
  have "dest_ok (BAddr_IPv4 3 4)" by (simp add: dest_ok_def)
  then show ?thesis
    using socks_never_stuck [OF s(1) [unfolded example_client_def] _ example_realloc_ok s(2-4)] s by blast
qed

text \<open>
  C13. In every state the SOCKS client can reach, also after an error, \<^term>\<open>BSocksClient_Free\<close> succeeds and leaves neither the
  connection nor the sender nor the buffer behind.
\<close>

theorem socks_freed:
  assumes "BSocksClient_Init server_addr auth dest sock nonblocking connect added = Some (Some s)" "dest_ok dest" "realloc_ok realloc"
    and "legal_events socks_enabled (BSocksClient_event e realloc) evs s"
  shows "\<exists>out s' s''. run_events (BSocksClient_event e realloc) evs s = Some (out, s') \<and>
    BSocksClient_Free s' = Some s'' \<and> sc_con s'' = None \<and> sc_sender s'' = None \<and> sc_buffer s'' = None"
  using socks_run [OF assms] socks_free unfolding sc_inv_def by blast

theorem socks_freed_witness:
  "\<exists>s out s' s''. example_client = Some (Some s) \<and> run_events (BSocksClient_event LittleEndian example_realloc) example_up s = Some (out, s') \<and>
     sc_state s' = STATE_UP \<and> BSocksClient_Free s' = Some s'' \<and> sc_con s'' = None"
proof -
  obtain s out s' where s: "example_client = Some (Some s)"
    "legal_events socks_enabled (BSocksClient_event LittleEndian example_realloc) example_up s"
    "run_events (BSocksClient_event LittleEndian example_realloc) example_up s = Some (out, s')" "sc_state s' = STATE_UP"
    by (rule example_run)
  have "dest_ok (BAddr_IPv4 3 4)" by (simp add: dest_ok_def)
  then show ?thesis using socks_freed [OF s(1) [unfolded example_client_def] _ example_realloc_ok s(2)] s by auto
qed

end
