(* ===== verification/Tcp_Client.thy ===== *)
theory Tcp_Client
  imports Flow_Interface Event_System Socks_Client
begin

text \<open>
  One TCP connection of \<open>tun2socks\<close> (\<open>tun2socks/tun2socks.c\<close>): a TCP control block of the network stack on one side, the
  SOCKS client on the other, a buffer for each direction, and the tear-down of the two sides in either order. The network
  stack is the environment: the results of its functions are arguments of the handlers, its callbacks are events, and
  what the handlers do to it is a list of actions. A client whose memory was freed is marked, and every
  access to it is a failure.

  Some callbacks run the jobs they caused before they return (\<open>SYNC_COMMIT\<close>). Such a callback is split in
  two at this point: the first part says that it is waiting for the jobs, and the second is an event of its own.
\<close>

section \<open>State\<close>

abbreviation TCP_WND :: nat where "TCP_WND \<equiv> 5840"
abbreviation CLIENT_SOCKS_RECV_BUF_SIZE :: nat where "CLIENT_SOCKS_RECV_BUF_SIZE \<equiv> 8192"

datatype err_t = ERR_OK | ERR_MEM | ERR_ABRT | ERR_other

record tcp_client =
  \<comment> \<open>which callbacks are set in the control block\<close>
  tc_err_cb :: bool
  tc_recv_cb :: bool
  tc_sent_cb :: bool
  tc_client_closed :: bool
  tc_buf :: bytes
  tc_buf_used :: int
  tc_socks_up :: bool
  tc_socks_closed :: bool
  tc_send_if :: StreamInterface
  tc_recv_if :: StreamInterface
  tc_recv_buf :: bytes
  tc_recv_buf_used :: int
  tc_recv_buf_sent :: int
  tc_recv_waiting :: bool
  tc_recv_tcp_pending :: int
  \<comment> \<open>\<open>dead_client\<close>: a pointer to a variable of the callback that waits for its jobs, given by the value of the variable\<close>
  tc_dead_client :: "bool option"
  tc_freed :: bool

datatype tc_out =
    Tcp_write bytes | Tcp_recved nat | Tcp_close | Tcp_abort
  | Socks_free | Socks_took bytes | Pbuf_free | Dealloc | Returned err_t | Syncing

type_synonym tc_result = "(tc_out list \<times> tcp_client) option"

section \<open>Tearing down\<close>

definition client_dealloc :: "tcp_client \<Rightarrow> tc_result" where
  "client_dealloc c =
     do { cassert (\<not> tc_freed c); cassert (tc_client_closed c); cassert (tc_socks_closed c);
          Some ([Dealloc], c\<lparr>tc_freed := True\<rparr>) }"

definition open_sides :: "tcp_client \<Rightarrow> nat" where
  "open_sides c = of_bool (\<not> tc_client_closed c) + of_bool (\<not> tc_socks_closed c)"

text \<open>\<open>close_ok\<close> is whether \<open>tcp_close\<close> succeeds. The three functions call each other, each setting the flag it asserts first.\<close>

function client_free_client :: "bool \<Rightarrow> tcp_client \<Rightarrow> tc_result"
  and client_handle_freed_client :: "bool \<Rightarrow> tcp_client \<Rightarrow> tc_result"
  and client_free_socks :: "bool \<Rightarrow> tcp_client \<Rightarrow> tc_result" where
  "client_free_client close_ok c =
     (if tc_freed c \<or> tc_client_closed c then None
      else do { (out, c) \<leftarrow> client_handle_freed_client close_ok (c\<lparr>tc_err_cb := False, tc_recv_cb := False, tc_sent_cb := False\<rparr>);
                Some ((if close_ok then [Tcp_close] else [Tcp_abort]) @ out, c) })"
| "client_handle_freed_client close_ok c =
     (if tc_freed c \<or> tc_client_closed c then None
      else let c' = c\<lparr>tc_dead_client := map_option (\<lambda>_. True) (tc_dead_client c), tc_client_closed := True\<rparr> in
        if tc_buf_used c > 0 \<and> \<not> tc_socks_closed c then Some ([], c')
        else if \<not> tc_socks_closed c then client_free_socks close_ok c'
        else client_dealloc c')"
| "client_free_socks close_ok c =
     (if tc_freed c \<or> tc_socks_closed c then None
      else let c' = c\<lparr>tc_recv_cb := (tc_recv_cb c \<and> \<not> (tc_socks_up c \<and> \<not> tc_client_closed c)), tc_socks_closed := True\<rparr> in
        if tc_socks_up c \<and> (tc_recv_buf_used c \<ge> 0 \<or> tc_recv_tcp_pending c > 0) \<and> \<not> tc_client_closed c then Some ([Socks_free], c')
        else do { (out, c) \<leftarrow> (if \<not> tc_client_closed c then client_free_client close_ok c' else client_dealloc c');
                  Some (Socks_free # out, c) })"
  by pat_completeness auto

termination
  by (relation "measure (\<lambda>x. case x of Inl (_, c) \<Rightarrow> 2 * open_sides c + 1 | Inr (Inl (_, c)) \<Rightarrow> 2 * open_sides c
        | Inr (Inr (_, c)) \<Rightarrow> 2 * open_sides c)")
    (auto simp: open_sides_def)

declare client_free_client.simps [simp del] client_handle_freed_client.simps [simp del] client_free_socks.simps [simp del]

definition client_abort_client :: "tcp_client \<Rightarrow> tc_result" where
  "client_abort_client c =
     do { cassert (\<not> tc_freed c); cassert (\<not> tc_client_closed c);
          (out, c) \<leftarrow> client_handle_freed_client True (c\<lparr>tc_err_cb := False, tc_recv_cb := False, tc_sent_cb := False\<rparr>);
          Some (Tcp_abort # out, c) }"

definition client_murder :: "tcp_client \<Rightarrow> tc_result" where
  "client_murder c =
     do { cassert (\<not> tc_freed c);
          (out, c) \<leftarrow> Some (if \<not> tc_client_closed c
             then ([Tcp_abort], c\<lparr>tc_err_cb := False, tc_recv_cb := False, tc_sent_cb := False,
                     tc_dead_client := map_option (\<lambda>_. True) (tc_dead_client c), tc_client_closed := True\<rparr>)
             else ([], c));
          (out, c) \<leftarrow> Some (if \<not> tc_socks_closed c then (out @ [Socks_free], c\<lparr>tc_socks_closed := True\<rparr>) else (out, c));
          (out', c) \<leftarrow> client_dealloc c;
          Some (out @ out', c) }"

section \<open>From the client to the SOCKS server\<close>

definition client_err_func :: "bool \<Rightarrow> tcp_client \<Rightarrow> tc_result" where
  "client_err_func close_ok c =
     do { cassert (\<not> tc_freed c); cassert (\<not> tc_client_closed c); client_handle_freed_client close_ok c }"

definition client_send_to_socks :: "tcp_client \<Rightarrow> tcp_client option" where
  "client_send_to_socks c =
     do { cassert (\<not> tc_freed c); cassert (\<not> tc_socks_closed c); cassert (tc_socks_up c); cassert (tc_buf_used c > 0);
          i \<leftarrow> StreamPassInterface_Sender_Send (tc_send_if c) (Some 0) (tc_buf_used c);
          Some (c\<lparr>tc_send_if := i\<rparr>) }"

definition client_recv_func :: "bool \<Rightarrow> bytes option \<Rightarrow> tcp_client \<Rightarrow> tc_result" where
  \<comment> \<open>up to the point where the jobs are run, if they are\<close>
  "client_recv_func close_ok p c =
     do { cassert (\<not> tc_freed c);
          cassert (\<not> tc_client_closed c);
          case p of
            None \<Rightarrow> do { (out, c) \<leftarrow> client_free_client close_ok c; Some (out @ [Returned ERR_ABRT], c) }
          | Some d \<Rightarrow>
              do { tot_len \<leftarrow> Some (int (length d));
                   cassert (tot_len > 0);
                   if tot_len > int TCP_WND - tc_buf_used c then Some ([Returned ERR_MEM], c)
                   else do {
                     buf \<leftarrow> overwrite (tc_buf c) (nat (tc_buf_used c)) d;
                     c \<leftarrow> Some (c\<lparr>tc_buf := buf, tc_buf_used := tc_buf_used c + tot_len\<rparr>);
                     if tc_buf_used c = tot_len \<and> tc_socks_up c
                     then do { cassert (\<not> tc_socks_closed c);
                               c \<leftarrow> client_send_to_socks c;
                               Some ([Syncing], c\<lparr>tc_dead_client := Some False\<rparr>) }
                     else Some ([Pbuf_free, Returned ERR_OK], c) } } }"

definition client_recv_func_end :: "tcp_client \<Rightarrow> tc_result" where
  \<comment> \<open>from there on\<close>
  "client_recv_func_end c =
     do { killed \<leftarrow> tc_dead_client c;
          if killed then Some ([Returned ERR_ABRT], c)
          else do { cassert (\<not> tc_freed c); Some ([Pbuf_free, Returned ERR_OK], c\<lparr>tc_dead_client := None\<rparr>) } }"

definition client_socks_send_handler_done :: "bool \<Rightarrow> tcp_client \<Rightarrow> int \<Rightarrow> tc_result" where
  "client_socks_send_handler_done close_ok c data_len =
     do { cassert (\<not> tc_freed c);
          cassert (\<not> tc_socks_closed c);
          cassert (tc_socks_up c);
          cassert (tc_buf_used c > 0);
          cassert (data_len > 0);
          cassert (data_len \<le> tc_buf_used c);
          rest \<leftarrow> subbytes (tc_buf c) (nat data_len) (nat (tc_buf_used c - data_len));
          buf \<leftarrow> overwrite (tc_buf c) 0 rest;
          c \<leftarrow> Some (c\<lparr>tc_buf := buf, tc_buf_used := tc_buf_used c - data_len\<rparr>);
          out \<leftarrow> Some (if \<not> tc_client_closed c then [Tcp_recved (nat data_len)] else []);
          if tc_buf_used c > 0
          then do { i \<leftarrow> StreamPassInterface_Sender_Send (tc_send_if c) (Some 0) (tc_buf_used c); Some (out, c\<lparr>tc_send_if := i\<rparr>) }
          else if tc_client_closed c
          then do { (out', c) \<leftarrow> client_free_socks close_ok c; Some (out @ out', c) }
          else Some (out, c) }"

section \<open>From the SOCKS server to the client\<close>

definition client_socks_recv_initiate :: "tcp_client \<Rightarrow> tcp_client option" where
  "client_socks_recv_initiate c =
     do { cassert (\<not> tc_freed c); cassert (\<not> tc_client_closed c); cassert (\<not> tc_socks_closed c); cassert (tc_socks_up c);
          cassert (tc_recv_buf_used c = -1);
          i \<leftarrow> StreamRecvInterface_Receiver_Recv (tc_recv_if c) (Some 0) (int CLIENT_SOCKS_RECV_BUF_SIZE);
          Some (c\<lparr>tc_recv_if := i\<rparr>) }"

text \<open>
  The loop that queues data for TCP. Its argument says what \<open>tcp_sndbuf\<close> and \<open>tcp_write\<close> return in each round; after the end
  of the list there is no room. The result says whether it failed.
\<close>

fun queue_data :: "(nat \<times> err_t) list \<Rightarrow> tcp_client \<Rightarrow> (tc_out list \<times> tcp_client \<times> bool) option" where
  "queue_data [] c = Some ([], c, False)"
| "queue_data ((sndbuf, err) # ws) c =
     (let to_write = min (tc_recv_buf_used c - tc_recv_buf_sent c) (int sndbuf) in
      if to_write = 0 then Some ([], c, False)
      else if err = ERR_OK then
        do { d \<leftarrow> subbytes (tc_recv_buf c) (nat (tc_recv_buf_sent c)) (nat to_write);
             c \<leftarrow> Some (c\<lparr>tc_recv_buf_sent := tc_recv_buf_sent c + to_write, tc_recv_tcp_pending := tc_recv_tcp_pending c + to_write\<rparr>);
             (out, c, failed) \<leftarrow> (if tc_recv_buf_sent c < tc_recv_buf_used c then queue_data ws c else Some ([], c, False));
             Some (Tcp_write d # out, c, failed) }
      else if err = ERR_MEM then Some ([], c, False)
      else Some ([], c, True))"

definition client_socks_recv_send_out :: "(nat \<times> err_t) list \<Rightarrow> err_t \<Rightarrow> tcp_client \<Rightarrow> (tc_out list \<times> tcp_client \<times> int) option" where
  \<comment> \<open>\<open>output\<close> is the result of \<open>tcp_output\<close>\<close>
  "client_socks_recv_send_out ws output c =
     do { cassert (\<not> tc_freed c);
          cassert (\<not> tc_client_closed c);
          cassert (tc_socks_up c);
          cassert (tc_recv_buf_used c > 0);
          cassert (tc_recv_buf_sent c < tc_recv_buf_used c);
          cassert (\<not> tc_recv_waiting c);
          (out, c, failed) \<leftarrow> queue_data ws c;
          if failed \<or> output \<noteq> ERR_OK \<or> tc_recv_buf_sent c < tc_recv_buf_used c \<and> tc_recv_tcp_pending c = 0
          then do { (out', c) \<leftarrow> client_abort_client c; Some (out @ out', c, -1) }
          else if tc_recv_buf_sent c < tc_recv_buf_used c then Some (out, c\<lparr>tc_recv_waiting := True\<rparr>, 0)
          else Some (out, c\<lparr>tc_recv_buf_used := -1\<rparr>, 0) }"

definition client_socks_recv_handler_done :: "(nat \<times> err_t) list \<Rightarrow> err_t \<Rightarrow> tcp_client \<Rightarrow> int \<Rightarrow> tc_result" where
  "client_socks_recv_handler_done ws output c data_len =
     do { cassert (\<not> tc_freed c);
          cassert (data_len > 0);
          cassert (data_len \<le> int CLIENT_SOCKS_RECV_BUF_SIZE);
          cassert (\<not> tc_socks_closed c);
          cassert (tc_socks_up c);
          cassert (tc_recv_buf_used c = -1);
          if tc_client_closed c then Some ([], c)
          else do {
            (out, c, r) \<leftarrow> client_socks_recv_send_out ws output (c\<lparr>tc_recv_buf_used := data_len, tc_recv_buf_sent := 0, tc_recv_waiting := False\<rparr>);
            if r < 0 then Some (out, c)
            else do { cassert (\<not> tc_freed c);
                      if tc_recv_buf_used c = -1 then do { c \<leftarrow> client_socks_recv_initiate c; Some (out, c) } else Some (out, c) } } }"

definition client_sent_func :: "(nat \<times> err_t) list \<Rightarrow> err_t \<Rightarrow> bool \<Rightarrow> nat \<Rightarrow> tcp_client \<Rightarrow> tc_result" where
  \<comment> \<open>up to the point where the jobs are run, if they are\<close>
  "client_sent_func ws output close_ok len c =
     do { cassert (\<not> tc_freed c);
          cassert (\<not> tc_client_closed c);
          cassert (tc_socks_up c);
          cassert (len > 0);
          cassert (int len \<le> tc_recv_tcp_pending c);
          c \<leftarrow> Some (c\<lparr>tc_recv_tcp_pending := tc_recv_tcp_pending c - int len\<rparr>);
          if tc_recv_buf_used c > 0
          then do {
            cassert (tc_recv_waiting c);
            cassert (tc_recv_buf_sent c < tc_recv_buf_used c);
            (out, c, r) \<leftarrow> client_socks_recv_send_out ws output (c\<lparr>tc_recv_waiting := False\<rparr>);
            if r < 0 then Some (out @ [Returned ERR_ABRT], c)
            else do {
              cassert (\<not> tc_freed c);
              cassert (tc_recv_tcp_pending c > 0);
              if tc_recv_buf_used c = -1 \<and> \<not> tc_socks_closed c
              then do { c \<leftarrow> client_socks_recv_initiate c; Some (out @ [Syncing], c\<lparr>tc_dead_client := Some False\<rparr>) }
              else Some (out @ [Returned ERR_OK], c) } }
          else if tc_socks_closed c \<and> tc_recv_tcp_pending c = 0
          then do { (out, c) \<leftarrow> client_free_client close_ok c; Some (out @ [Returned ERR_ABRT], c) }
          else Some ([Returned ERR_OK], c) }"

definition client_sent_func_end :: "tcp_client \<Rightarrow> tc_result" where
  "client_sent_func_end c =
     do { killed \<leftarrow> tc_dead_client c;
          if killed then Some ([Returned ERR_ABRT], c)
          else do { cassert (\<not> tc_freed c); Some ([Returned ERR_OK], c\<lparr>tc_dead_client := None\<rparr>) } }"

section \<open>Events of the SOCKS client\<close>

definition client_socks_handler :: "bool \<Rightarrow> socks_report \<Rightarrow> StreamInterface \<Rightarrow> StreamInterface \<Rightarrow> tcp_client \<Rightarrow> tc_result" where
  \<comment> \<open>the two interfaces are those the SOCKS client returns when it is up\<close>
  "client_socks_handler close_ok event send_if recv_if c =
     do { cassert (\<not> tc_freed c);
          cassert (\<not> tc_socks_closed c);
          case event of
            BSOCKSCLIENT_EVENT_ERROR \<Rightarrow> client_free_socks close_ok c
          | BSOCKSCLIENT_EVENT_UP \<Rightarrow>
              do { cassert (\<not> tc_socks_up c);
                   send_if \<leftarrow> StreamPassInterface_Sender_Init send_if;
                   recv_if \<leftarrow> StreamRecvInterface_Receiver_Init recv_if;
                   c \<leftarrow> Some (c\<lparr>tc_send_if := send_if, tc_recv_if := recv_if, tc_recv_buf_used := -1, tc_recv_tcp_pending := 0,
                            tc_sent_cb := (tc_sent_cb c \<or> \<not> tc_client_closed c), tc_socks_up := True\<rparr>);
                   c \<leftarrow> (if tc_buf_used c > 0 then client_send_to_socks c else Some c);
                   c \<leftarrow> (if \<not> tc_client_closed c then client_socks_recv_initiate c else Some c);
                   Some ([], c) }
          | BSOCKSCLIENT_EVENT_ERROR_CLOSED \<Rightarrow> do { cassert (tc_socks_up c); client_free_socks close_ok c } }"

section \<open>A client between the network stack and its SOCKS client\<close>

text \<open>
  The events: the callbacks of the network stack, the end of a callback that waited for its jobs, the two stream interfaces of the
  SOCKS connection (the provider starts, takes or delivers bytes, the jobs run), and the reports of the SOCKS client. The state
  counts, for the network stack, the bytes that were written to the connection and are not acknowledged, and the
  bytes that were received and not confirmed by \<open>tcp_recved\<close>.
\<close>

datatype callback = In_accept | In_recv | In_sent

record tc_sys =
  ts_client :: tcp_client
  ts_unacked :: nat
  ts_unread :: nat
  ts_sync :: "callback option"

datatype tc_event =
    Tcp_err bool | Tcp_recv bool "bytes option" | Tcp_sent "(nat \<times> err_t) list" err_t bool nat | Callback_end
  | Socks_send_op | Socks_send_took nat | Socks_send_done bool
  | Socks_recv_op | Socks_recv_data bytes | Socks_recv_done "(nat \<times> err_t) list" err_t
  | Socks_event bool socks_report

fun written :: "tc_out list \<Rightarrow> bytes" where
  "written [] = []"
| "written (Tcp_write d # os) = d @ written os"
| "written (_ # os) = written os"

fun took :: "tc_out list \<Rightarrow> bytes" where
  "took [] = []"
| "took (Socks_took d # os) = d @ took os"
| "took (_ # os) = took os"

fun recved :: "tc_out list \<Rightarrow> nat" where
  "recved [] = 0"
| "recved (Tcp_recved n # os) = n + recved os"
| "recved (_ # os) = recved os"

definition tc_apply :: "tc_sys \<Rightarrow> tc_out list \<times> tcp_client \<Rightarrow> tc_out list \<times> tc_sys" where
  \<comment> \<open>the effect of the actions of a handler on the counts\<close>
  "tc_apply s r =
     (let (out, c) = r in
      (out, s\<lparr>ts_client := c, ts_unacked := ts_unacked s + length (written out), ts_unread := ts_unread s - recved out\<rparr>))"

definition tc_callback :: "callback \<Rightarrow> tc_out list \<times> tc_sys \<Rightarrow> tc_out list \<times> tc_sys" where
  \<comment> \<open>a callback that waits for its jobs\<close>
  "tc_callback cb r = (let (out, s) = r in (out, if Syncing \<in> set out then s\<lparr>ts_sync := Some cb\<rparr> else s))"

definition tcp_client_event :: "tc_event \<Rightarrow> tc_sys \<Rightarrow> (tc_out list \<times> tc_sys) option" where
  "tcp_client_event ev s =
     (let c = ts_client s in
      case ev of
        \<comment> \<open>the control block with its callbacks is gone when the error is reported\<close>
        Tcp_err close_ok \<Rightarrow>
          do { r \<leftarrow> client_err_func close_ok (c\<lparr>tc_err_cb := False, tc_recv_cb := False, tc_sent_cb := False\<rparr>); Some (tc_apply s r) }
      | Tcp_recv close_ok p \<Rightarrow>
          do { r \<leftarrow> client_recv_func close_ok p c;
               Some (tc_callback In_recv (tc_apply (s\<lparr>ts_unread := ts_unread s + (case p of None \<Rightarrow> 0 | Some d \<Rightarrow> length d)\<rparr>) r)) }
      | Tcp_sent ws output close_ok len \<Rightarrow>
          do { r \<leftarrow> client_sent_func ws output close_ok len c;
               Some (tc_callback In_sent (tc_apply (s\<lparr>ts_unacked := ts_unacked s - len\<rparr>) r)) }
      | Callback_end \<Rightarrow>
          do { cb \<leftarrow> ts_sync s;
               r \<leftarrow> (if cb = In_recv then client_recv_func_end c else client_sent_func_end c);
               Some (tc_apply (s\<lparr>ts_sync := None\<rparr>) r) }
      | Socks_send_op \<Rightarrow> do { i \<leftarrow> StreamPassInterface_job_operation (tc_send_if c); Some (tc_apply s ([], c\<lparr>tc_send_if := i\<rparr>)) }
      | Socks_send_took n \<Rightarrow>
          do { cassert (\<not> tc_freed c);
               p \<leftarrow> si_data (tc_send_if c);
               d \<leftarrow> subbytes (tc_buf c) p n;
               i \<leftarrow> StreamPassInterface_Done (tc_send_if c) (int n);
               Some (tc_apply s ([Socks_took d], c\<lparr>tc_send_if := i\<rparr>)) }
      | Socks_send_done close_ok \<Rightarrow>
          do { i \<leftarrow> StreamPassInterface_job_done (tc_send_if c);
               r \<leftarrow> client_socks_send_handler_done close_ok (c\<lparr>tc_send_if := i\<rparr>) (si_done_len i);
               Some (tc_apply s r) }
      | Socks_recv_op \<Rightarrow> do { i \<leftarrow> StreamRecvInterface_job_operation (tc_recv_if c); Some (tc_apply s ([], c\<lparr>tc_recv_if := i\<rparr>)) }
      | Socks_recv_data d \<Rightarrow>
          do { cassert (\<not> tc_freed c);
               p \<leftarrow> si_data (tc_recv_if c);
               buf \<leftarrow> overwrite (tc_recv_buf c) p d;
               i \<leftarrow> StreamRecvInterface_Done (tc_recv_if c) (int (length d));
               Some (tc_apply s ([], c\<lparr>tc_recv_buf := buf, tc_recv_if := i\<rparr>)) }
      | Socks_recv_done ws output \<Rightarrow>
          do { i \<leftarrow> StreamRecvInterface_job_done (tc_recv_if c);
               r \<leftarrow> client_socks_recv_handler_done ws output (c\<lparr>tc_recv_if := i\<rparr>) (si_done_len i);
               Some (tc_apply s r) }
      | Socks_event close_ok event \<Rightarrow>
          do { r \<leftarrow> client_socks_handler close_ok event StreamPassInterface_Init StreamRecvInterface_Init c; Some (tc_apply s r) })"

definition tc_enabled :: "tc_sys \<Rightarrow> tc_event \<Rightarrow> bool" where
  "tc_enabled s ev \<longleftrightarrow>
     (let c = ts_client s; socks_if = tc_socks_up c \<and> \<not> tc_socks_closed c in
      case ev of
        \<comment> \<open>the network stack calls the callbacks that are set, and not while another one is running\<close>
        Tcp_err close_ok \<Rightarrow> ts_sync s = None \<and> tc_err_cb c
      | Tcp_recv close_ok p \<Rightarrow> ts_sync s = None \<and> tc_recv_cb c \<and>
          (case p of None \<Rightarrow> True | Some d \<Rightarrow> d \<noteq> [] \<and> ts_unread s + length d \<le> TCP_WND)
      | Tcp_sent ws output close_ok len \<Rightarrow> ts_sync s = None \<and> tc_sent_cb c \<and> 0 < len \<and> len \<le> ts_unacked s
      | Callback_end \<Rightarrow> ts_sync s \<noteq> None
        \<comment> \<open>the interfaces of the SOCKS connection\<close>
      | Socks_send_op \<Rightarrow> socks_if \<and> si_job_operation (tc_send_if c)
      | Socks_send_took n \<Rightarrow> socks_if \<and> si_state (tc_send_if c) = State_busy \<and> 0 < n \<and> int n \<le> si_len (tc_send_if c)
      | Socks_send_done close_ok \<Rightarrow> socks_if \<and> si_job_done (tc_send_if c)
      | Socks_recv_op \<Rightarrow> socks_if \<and> si_job_operation (tc_recv_if c)
      | Socks_recv_data d \<Rightarrow> socks_if \<and> si_state (tc_recv_if c) = State_busy \<and> d \<noteq> [] \<and> int (length d) \<le> si_len (tc_recv_if c)
      | Socks_recv_done ws output \<Rightarrow> socks_if \<and> si_job_done (tc_recv_if c)
        \<comment> \<open>the SOCKS client reports up once, and the end of the stream when it reads\<close>
      | Socks_event close_ok event \<Rightarrow> \<not> tc_socks_closed c \<and>
          (case event of
             BSOCKSCLIENT_EVENT_ERROR \<Rightarrow> True
           | BSOCKSCLIENT_EVENT_UP \<Rightarrow> \<not> tc_socks_up c
           | BSOCKSCLIENT_EVENT_ERROR_CLOSED \<Rightarrow> tc_socks_up c \<and> si_state (tc_recv_if c) = State_busy))"

definition accepted :: "tcp_client \<Rightarrow> tc_sys" where
  \<comment> \<open>the end of \<open>listener_accept_func\<close>, in memory with any contents, up to the point where the jobs are run\<close>
  "accepted mem =
     \<lparr>ts_client = mem\<lparr>tc_err_cb := True, tc_recv_cb := True, tc_sent_cb := False, tc_client_closed := False, tc_buf_used := 0,
        tc_socks_up := False, tc_socks_closed := False, tc_dead_client := Some False, tc_freed := False\<rparr>,
      ts_unacked = 0, ts_unread = 0, ts_sync = Some In_accept\<rparr>"

section \<open>Invariant\<close>

fun delivered_data :: "tc_event list \<Rightarrow> bytes" where
  "delivered_data [] = []"
| "delivered_data (Tcp_recv close_ok (Some d) # evs) = d @ delivered_data evs"
| "delivered_data (_ # evs) = delivered_data evs"

fun socks_data :: "tc_event list \<Rightarrow> bytes" where
  "socks_data [] = []"
| "socks_data (Socks_recv_data d # evs) = d @ socks_data evs"
| "socks_data (_ # evs) = socks_data evs"

fun is_eof :: "tc_event \<Rightarrow> bool" where
  "is_eof (Tcp_recv close_ok None) = True"
| "is_eof _ = False"

fun is_tcp_err :: "tc_event \<Rightarrow> bool" where
  "is_tcp_err (Tcp_err close_ok) = True"
| "is_tcp_err _ = False"

fun is_socks_error :: "tc_event \<Rightarrow> bool" where
  "is_socks_error (Socks_event close_ok BSOCKSCLIENT_EVENT_ERROR) = True"
| "is_socks_error _ = False"

fun is_socks_end :: "tc_event \<Rightarrow> bool" where
  "is_socks_end (Socks_event close_ok event) \<longleftrightarrow> event \<noteq> BSOCKSCLIENT_EVENT_UP"
| "is_socks_end _ = False"

lemma tc_data_append [simp]:
  "delivered_data (evs @ evs') = delivered_data evs @ delivered_data evs'" "socks_data (evs @ evs') = socks_data evs @ socks_data evs'"
  by (induction evs rule: delivered_data.induct) simp_all

lemma tc_out_append [simp]:
  "written (os @ os') = written os @ written os'" "took (os @ os') = took os @ took os'" "recved (os @ os') = recved os + recved os'"
  by (induction os rule: written.induct) simp_all

definition tc_base :: "tcp_client \<Rightarrow> bool" where
  "tc_base c \<longleftrightarrow> length (tc_buf c) = TCP_WND \<and> length (tc_recv_buf c) = CLIENT_SOCKS_RECV_BUF_SIZE \<and>
     0 \<le> tc_buf_used c \<and> tc_buf_used c \<le> int TCP_WND"

definition tc_shape :: "tcp_client \<Rightarrow> bool" where
  "tc_shape c \<longleftrightarrow> tc_base c \<and> (tc_freed c \<longleftrightarrow> tc_client_closed c \<and> tc_socks_closed c) \<and>
     (if tc_client_closed c then \<not> tc_err_cb c \<and> \<not> tc_recv_cb c \<and> \<not> tc_sent_cb c
      else tc_err_cb c \<and> (tc_recv_cb c \<longleftrightarrow> \<not> tc_socks_closed c) \<and> (tc_sent_cb c \<longleftrightarrow> tc_socks_up c))"

definition tc_send_ok :: "tcp_client \<Rightarrow> bool" where
  \<comment> \<open>buffered data is being sent as long as SOCKS is up, and the client is kept as long as there is such data\<close>
  "tc_send_ok c \<longleftrightarrow>
     (tc_socks_up c \<and> \<not> tc_socks_closed c \<longrightarrow>
        si_inv (tc_send_if c) \<and> si_done_handler (tc_send_if c) \<and> (si_state (tc_send_if c) \<noteq> State_none \<longleftrightarrow> tc_buf_used c > 0) \<and>
        (si_state (tc_send_if c) \<noteq> State_none \<longrightarrow> si_data (tc_send_if c) = Some 0 \<and> si_len (tc_send_if c) \<le> tc_buf_used c)) \<and>
     (tc_client_closed c \<and> \<not> tc_socks_closed c \<longrightarrow> tc_buf_used c > 0)"

definition tc_recv_if_ok :: "tcp_client \<Rightarrow> bool" where
  "tc_recv_if_ok c \<longleftrightarrow>
     (tc_socks_up c \<and> \<not> tc_socks_closed c \<longrightarrow>
        si_inv (tc_recv_if c) \<and> si_done_handler (tc_recv_if c) \<and>
        (si_state (tc_recv_if c) \<noteq> State_none \<longrightarrow> si_data (tc_recv_if c) = Some 0 \<and> si_len (tc_recv_if c) = int CLIENT_SOCKS_RECV_BUF_SIZE \<and>
           tc_recv_buf_used c = -1))"

definition tc_flow_ok :: "tcp_client \<Rightarrow> bool" where
  \<comment> \<open>either data is being received or it waits for an acknowledgement that must come\<close>
  "tc_flow_ok c \<longleftrightarrow>
     (tc_socks_up c \<and> \<not> tc_client_closed c \<longrightarrow>
        0 \<le> tc_recv_tcp_pending c \<and>
        (if tc_recv_buf_used c = -1 then \<not> tc_socks_closed c \<longrightarrow> si_state (tc_recv_if c) \<noteq> State_none
         else tc_recv_waiting c \<and> 0 \<le> tc_recv_buf_sent c \<and> tc_recv_buf_sent c < tc_recv_buf_used c \<and>
           tc_recv_buf_used c \<le> int CLIENT_SOCKS_RECV_BUF_SIZE \<and> tc_recv_tcp_pending c > 0)) \<and>
     (tc_socks_closed c \<and> \<not> tc_client_closed c \<longrightarrow> tc_socks_up c \<and> tc_recv_tcp_pending c > 0)"

definition up_rest :: "tcp_client \<Rightarrow> bytes" where
  \<comment> \<open>bytes from the client that the SOCKS connection has not taken\<close>
  "up_rest c =
     drop (if tc_socks_up c \<and> si_state (tc_send_if c) = State_done_pending then nat (si_done_len (tc_send_if c)) else 0)
       (take (nat (tc_buf_used c)) (tc_buf c))"

definition down_rest :: "tcp_client \<Rightarrow> bytes" where
  \<comment> \<open>bytes from the SOCKS connection that were not written to the client\<close>
  "down_rest c =
     (if \<not> tc_socks_up c then []
      else if tc_recv_buf_used c = -1
      then (if \<not> tc_socks_closed c \<and> si_state (tc_recv_if c) = State_done_pending then take (nat (si_done_len (tc_recv_if c))) (tc_recv_buf c) else [])
      else drop (nat (tc_recv_buf_sent c)) (take (nat (tc_recv_buf_used c)) (tc_recv_buf c)))"

definition tc_counts :: "tc_sys \<Rightarrow> bool" where
  "tc_counts s \<longleftrightarrow>
     (\<not> tc_client_closed (ts_client s) \<longrightarrow> int (ts_unread s) = tc_buf_used (ts_client s) \<and>
        int (ts_unacked s) = (if tc_socks_up (ts_client s) then tc_recv_tcp_pending (ts_client s) else 0))"

definition tc_sync_ok :: "callback option \<Rightarrow> tcp_client \<Rightarrow> bool" where
  "tc_sync_ok cb c \<longleftrightarrow> (if cb = None then tc_dead_client c = None \<or> tc_client_closed c else tc_dead_client c = Some (tc_client_closed c))"

definition tc_up :: "tcp_client \<Rightarrow> bytes \<Rightarrow> bytes \<Rightarrow> bool" where
  "tc_up c d t \<longleftrightarrow> prefix t d \<and> (\<not> tc_socks_closed c \<longrightarrow> d = t @ up_rest c)"

definition tc_down :: "tcp_client \<Rightarrow> bool \<Rightarrow> bytes \<Rightarrow> bytes \<Rightarrow> bool" where
  "tc_down c error r w \<longleftrightarrow> prefix w r \<and> (\<not> tc_client_closed c \<longrightarrow> prefix (w @ down_rest c) r \<and> (\<not> (error \<and> tc_socks_closed c) \<longrightarrow> r = w @ down_rest c))"

definition tc_closed :: "tcp_client \<Rightarrow> tc_event list \<Rightarrow> tc_out list \<Rightarrow> bool" where
  "tc_closed c evs out \<longleftrightarrow>
     count_list out Socks_free = of_bool (tc_socks_closed c) \<and>
     count_list out Dealloc = of_bool (tc_freed c) \<and>
     count_list out Tcp_close + count_list out Tcp_abort + length (filter is_tcp_err evs) = of_bool (tc_client_closed c)"

definition tc_flushed :: "tc_sys \<Rightarrow> tc_event list \<Rightarrow> tc_out list \<Rightarrow> bool" where
  \<comment> \<open>a side is only closed when everything was passed on to it, unless it failed or the other side was cut off\<close>
  "tc_flushed s evs out \<longleftrightarrow>
     (Socks_free \<in> set out \<and> \<not> list_ex is_socks_end evs \<longrightarrow> tc_freed (ts_client s) \<and> took out = delivered_data evs) \<and>
     (Tcp_close \<in> set out \<and> \<not> list_ex is_eof evs \<longrightarrow> tc_freed (ts_client s) \<and>
        (\<not> list_ex is_socks_error evs \<longrightarrow> written out = socks_data evs \<and> ts_unacked s = 0))"

definition tc_inv :: "tc_sys \<Rightarrow> tc_event list \<Rightarrow> tc_out list \<Rightarrow> bool" where
  "tc_inv s evs out \<longleftrightarrow>
     (let c = ts_client s in
      tc_shape c \<and> tc_send_ok c \<and> tc_recv_if_ok c \<and> tc_flow_ok c \<and> tc_counts s \<and> tc_sync_ok (ts_sync s) c \<and>
      tc_up c (delivered_data evs) (took out) \<and> tc_down c (list_ex is_socks_error evs) (socks_data evs) (written out) \<and>
      tc_closed c evs out \<and> tc_flushed s evs out)"

section \<open>Tearing down in closed form\<close>

lemma handle_freed_eq:
  assumes "\<not> tc_freed c" "\<not> tc_client_closed c"
  shows "client_handle_freed_client close_ok c =
    (let c' = c\<lparr>tc_dead_client := map_option (\<lambda>_. True) (tc_dead_client c), tc_client_closed := True\<rparr> in
     if tc_socks_closed c then Some ([Dealloc], c'\<lparr>tc_freed := True\<rparr>)
     else if tc_buf_used c > 0 then Some ([], c')
     else Some ([Socks_free, Dealloc], c'\<lparr>tc_socks_closed := True, tc_freed := True\<rparr>))"
  using assms by (simp add: client_handle_freed_client.simps client_free_socks.simps client_dealloc_def Let_def)

lemma free_client_eq:
  assumes "\<not> tc_freed c" "\<not> tc_client_closed c"
  shows "client_free_client close_ok c =
    (let a = (if close_ok then Tcp_close else Tcp_abort);
         c' = c\<lparr>tc_err_cb := False, tc_recv_cb := False, tc_sent_cb := False,
           tc_dead_client := map_option (\<lambda>_. True) (tc_dead_client c), tc_client_closed := True\<rparr> in
     if tc_socks_closed c then Some ([a, Dealloc], c'\<lparr>tc_freed := True\<rparr>)
     else if tc_buf_used c > 0 then Some ([a], c')
     else Some ([a, Socks_free, Dealloc], c'\<lparr>tc_socks_closed := True, tc_freed := True\<rparr>))"
  using assms by (simp add: client_free_client.simps handle_freed_eq Let_def)

lemma free_socks_eq:
  assumes "\<not> tc_freed c" "\<not> tc_socks_closed c"
  shows "client_free_socks close_ok c =
    (let a = (if close_ok then Tcp_close else Tcp_abort) in
     if tc_client_closed c then Some ([Socks_free, Dealloc], c\<lparr>tc_socks_closed := True, tc_freed := True\<rparr>)
     else if tc_socks_up c \<and> (tc_recv_buf_used c \<ge> 0 \<or> tc_recv_tcp_pending c > 0)
     then Some ([Socks_free], c\<lparr>tc_recv_cb := False, tc_socks_closed := True\<rparr>)
     else Some ([Socks_free, a, Dealloc], c\<lparr>tc_err_cb := False, tc_recv_cb := False, tc_sent_cb := False,
           tc_dead_client := map_option (\<lambda>_. True) (tc_dead_client c), tc_client_closed := True, tc_socks_closed := True, tc_freed := True\<rparr>))"
  using assms by (auto simp: client_free_socks.simps free_client_eq client_dealloc_def Let_def)

lemma tc_sync_frame [simp]:
  "tc_sync_ok cb (c\<lparr>tc_freed := x\<rparr>) = tc_sync_ok cb c" "tc_sync_ok cb (c\<lparr>tc_socks_closed := x\<rparr>) = tc_sync_ok cb c"
  "tc_sync_ok cb (c\<lparr>tc_recv_cb := x\<rparr>) = tc_sync_ok cb c"
  by (simp_all add: tc_sync_ok_def)

lemma freed_inv:
  assumes "tc_base c" "tc_freed c" "tc_client_closed c" "tc_socks_closed c" "\<not> tc_err_cb c" "\<not> tc_recv_cb c" "\<not> tc_sent_cb c" "tc_sync_ok (ts_sync s) c"
    and "prefix (took out) (delivered_data evs)" "prefix (written out) (socks_data evs)" "tc_closed c evs out"
    and "Socks_free \<in> set out \<Longrightarrow> \<not> list_ex is_socks_end evs \<Longrightarrow> took out = delivered_data evs"
    and "Tcp_close \<in> set out \<Longrightarrow> \<not> list_ex is_eof evs \<Longrightarrow> \<not> list_ex is_socks_error evs \<Longrightarrow> written out = socks_data evs \<and> ts_unacked s = 0"
  shows "tc_inv (s\<lparr>ts_client := c\<rparr>) evs out"
  using assms by (simp add: tc_inv_def tc_shape_def tc_send_ok_def tc_recv_if_ok_def tc_flow_ok_def tc_counts_def tc_up_def tc_down_def tc_flushed_def)

text \<open>
  The client side is closed: what must hold of the state \<open>c\<close> and of the history, with the action that released the control
  block, for the invariant to hold afterwards.
\<close>

definition client_gone :: "tc_sys \<Rightarrow> tcp_client \<Rightarrow> tc_event list \<Rightarrow> tc_out list \<Rightarrow> bool" where
  "client_gone s c evs out \<longleftrightarrow>
     tc_base c \<and> \<not> tc_err_cb c \<and> \<not> tc_recv_cb c \<and> \<not> tc_sent_cb c \<and> tc_send_ok c \<and> tc_recv_if_ok c \<and>
     (tc_dead_client c = (if ts_sync s = None then None else Some False)) \<and>
     tc_up c (delivered_data evs) (took out) \<and> prefix (written out) (socks_data evs) \<and>
     count_list out Socks_free = of_bool (tc_socks_closed c) \<and> count_list out Dealloc = 0 \<and>
     count_list out Tcp_close + count_list out Tcp_abort + length (filter is_tcp_err evs) = 1 \<and>
     (Socks_free \<in> set out \<longrightarrow> list_ex is_socks_end evs) \<and>
     (Tcp_close \<in> set out \<and> \<not> list_ex is_eof evs \<longrightarrow> tc_socks_closed c \<and>
        (\<not> list_ex is_socks_error evs \<longrightarrow> written out = socks_data evs \<and> ts_unacked s = 0))"

lemma handle_freed_inv:
  assumes c: "\<not> tc_freed c" "\<not> tc_client_closed c" and g: "client_gone s c evs out"
  shows "\<exists>o' c'. client_handle_freed_client close_ok c = Some (o', c') \<and> tc_inv (s\<lparr>ts_client := c'\<rparr>) evs (out @ o') \<and>
    set o' \<subseteq> {Socks_free, Dealloc} \<and> tc_client_closed c'"
proof -
  let ?c = "c\<lparr>tc_dead_client := map_option (\<lambda>_. True) (tc_dead_client c), tc_client_closed := True\<rparr>"
  have base: "tc_base c" and cb: "\<not> tc_err_cb c" "\<not> tc_recv_cb c" "\<not> tc_sent_cb c" and snd: "tc_send_ok c" and rif: "tc_recv_if_ok c"
    and up: "tc_up c (delivered_data evs) (took out)" and down: "prefix (written out) (socks_data evs)"
    and dead: "tc_dead_client c = (if ts_sync s = None then None else Some False)"
    and cnt: "count_list out Socks_free = of_bool (tc_socks_closed c)" "count_list out Dealloc = 0"
      "count_list out Tcp_close + count_list out Tcp_abort + length (filter is_tcp_err evs) = 1"
    and fl: "Socks_free \<in> set out \<longrightarrow> list_ex is_socks_end evs"
      "Tcp_close \<in> set out \<and> \<not> list_ex is_eof evs \<longrightarrow> tc_socks_closed c \<and>
        (\<not> list_ex is_socks_error evs \<longrightarrow> written out = socks_data evs \<and> ts_unacked s = 0)"
    using g unfolding client_gone_def by blast+
  have base': "tc_base ?c" using base by (simp add: tc_base_def)
  have sync: "tc_sync_ok (ts_sync s) ?c" using dead by (auto simp: tc_sync_ok_def split: if_splits)
  consider "tc_socks_closed c" | "\<not> tc_socks_closed c" "tc_buf_used c > 0" | "\<not> tc_socks_closed c" "\<not> tc_buf_used c > 0" by blast
  then show ?thesis
  proof cases
    case 1
    have "client_handle_freed_client close_ok c = Some ([Dealloc], ?c\<lparr>tc_freed := True\<rparr>)" using c 1 by (simp add: handle_freed_eq Let_def)
    moreover have "tc_inv (s\<lparr>ts_client := ?c\<lparr>tc_freed := True\<rparr>\<rparr>) evs (out @ [Dealloc])"
      by (rule freed_inv) (use 1 base cb up down sync cnt fl in \<open>auto simp: tc_base_def tc_up_def tc_closed_def\<close>)
    ultimately show ?thesis by simp
  next
    case 2
    have "client_handle_freed_client close_ok c = Some ([], ?c)" using c 2 by (simp add: handle_freed_eq Let_def)
    moreover have "tc_up ?c (delivered_data evs) (took out)" using up by (simp add: tc_up_def up_rest_def)
    moreover have "tc_send_ok ?c" "tc_recv_if_ok ?c" using snd rif 2 by (simp_all add: tc_send_ok_def tc_recv_if_ok_def)
    moreover have "Socks_free \<notin> set out" using cnt(1) 2 by (simp add: count_list_0_iff)
    ultimately show ?thesis using 2 c base' cb down sync cnt fl
      by (simp add: tc_inv_def tc_shape_def tc_flow_ok_def tc_counts_def tc_down_def tc_closed_def tc_flushed_def)
  next
    case 3
    have "up_rest c = []" using 3 base by (simp add: up_rest_def tc_base_def)
    then have eq: "took out = delivered_data evs" using up 3 by (simp add: tc_up_def)
    have "client_handle_freed_client close_ok c = Some ([Socks_free, Dealloc], ?c\<lparr>tc_socks_closed := True, tc_freed := True\<rparr>)"
      using c 3 by (simp add: handle_freed_eq Let_def)
    moreover have "tc_inv (s\<lparr>ts_client := ?c\<lparr>tc_socks_closed := True, tc_freed := True\<rparr>\<rparr>) evs (out @ [Socks_free, Dealloc])"
      by (rule freed_inv) (use 3 base cb down sync cnt fl eq in \<open>auto simp: tc_base_def tc_closed_def\<close>)
    ultimately show ?thesis by simp
  qed
qed

lemma socks_end_inv:
  assumes inv: "tc_inv s evs out" and st: "\<not> tc_socks_closed (ts_client s)" and fin: "list_ex is_socks_end evs"
    and lost: "list_ex is_socks_error evs \<or> tc_socks_up (ts_client s) \<and> si_state (tc_recv_if (ts_client s)) \<noteq> State_done_pending"
  shows "\<exists>o' c'. client_free_socks close_ok (ts_client s) = Some (o', c') \<and> tc_inv (s\<lparr>ts_client := c'\<rparr>) evs (out @ o') \<and>
    set o' \<subseteq> {Socks_free, Dealloc, Tcp_close, Tcp_abort}"
proof -
  define c where "c = ts_client s"
  have fr: "\<not> tc_freed c" and base: "tc_base c" and cb: "if tc_client_closed c then \<not> tc_err_cb c \<and> \<not> tc_recv_cb c \<and> \<not> tc_sent_cb c
      else tc_err_cb c \<and> (tc_recv_cb c \<longleftrightarrow> \<not> tc_socks_closed c) \<and> (tc_sent_cb c \<longleftrightarrow> tc_socks_up c)"
    and flow: "tc_flow_ok c" and counts: "tc_counts s" and sync: "tc_sync_ok (ts_sync s) c"
    and up: "prefix (took out) (delivered_data evs)" and down: "tc_down c (list_ex is_socks_error evs) (socks_data evs) (written out)"
    and cnt: "tc_closed c evs out" and fl: "tc_flushed s evs out"
    using inv st by (auto simp: tc_inv_def Let_def c_def tc_shape_def tc_up_def)
  have tc: "Tcp_close \<in> set out \<Longrightarrow> list_ex is_eof evs" using fl fr by (auto simp: tc_flushed_def c_def)
  let ?a = "if close_ok then Tcp_close else Tcp_abort"
  have st': "\<not> tc_socks_closed c" using st by (simp add: c_def)
  consider "tc_client_closed c" | "\<not> tc_client_closed c" "tc_socks_up c" "tc_recv_buf_used c \<ge> 0 \<or> tc_recv_tcp_pending c > 0"
    | "\<not> tc_client_closed c" "\<not> (tc_socks_up c \<and> (tc_recv_buf_used c \<ge> 0 \<or> tc_recv_tcp_pending c > 0))" by blast
  then show ?thesis
  proof cases
    case 1
    let ?c = "c\<lparr>tc_socks_closed := True, tc_freed := True\<rparr>"
    have "client_free_socks close_ok c = Some ([Socks_free, Dealloc], ?c)" using 1 fr st' by (simp add: free_socks_eq Let_def)
    moreover have "tc_inv (s\<lparr>ts_client := ?c\<rparr>) evs (out @ [Socks_free, Dealloc])"
      by (rule freed_inv) (use 1 base cb up down sync cnt fin tc st' fr in \<open>auto simp: tc_base_def tc_closed_def tc_down_def\<close>)
    ultimately show ?thesis by (simp add: c_def)
  next
    case 2
    let ?c = "c\<lparr>tc_recv_cb := False, tc_socks_closed := True\<rparr>"
    have "client_free_socks close_ok c = Some ([Socks_free], ?c)" using 2 fr st' by (auto simp: free_socks_eq Let_def)
    moreover have "tc_shape ?c" using 2 base cb fr by (simp add: tc_shape_def tc_base_def)
    moreover have "tc_flow_ok ?c" using 2 flow by (auto simp: tc_flow_ok_def split: if_splits)
    moreover have "tc_counts (s\<lparr>ts_client := ?c\<rparr>)" using counts by (simp add: tc_counts_def c_def)
    moreover have "tc_down ?c (list_ex is_socks_error evs) (socks_data evs) (written out)"
      using down lost 2(1,2) by (auto simp: tc_down_def down_rest_def c_def)
    ultimately show ?thesis using 2 st' sync up cnt fin tc fl
      by (simp add: tc_inv_def tc_send_ok_def tc_recv_if_ok_def tc_up_def tc_closed_def tc_flushed_def c_def; blast)
  next
    case 3
    let ?c = "c\<lparr>tc_err_cb := False, tc_recv_cb := False, tc_sent_cb := False,
           tc_dead_client := map_option (\<lambda>_. True) (tc_dead_client c), tc_client_closed := True, tc_socks_closed := True, tc_freed := True\<rparr>"
    have "client_free_socks close_ok c = Some ([Socks_free, ?a, Dealloc], ?c)" using 3 fr st' by (auto simp: free_socks_eq Let_def)
    moreover have "tc_inv (s\<lparr>ts_client := ?c\<rparr>) evs (out @ [Socks_free, ?a, Dealloc])"
    proof (rule freed_inv)
      show "tc_sync_ok (ts_sync s) ?c" using sync 3 by (auto simp: tc_sync_ok_def split: if_splits)
      show "tc_closed ?c evs (out @ [Socks_free, ?a, Dealloc])" using cnt 3 st' fr by (auto simp: tc_closed_def)
      show "written (out @ [Socks_free, ?a, Dealloc]) = socks_data evs \<and> ts_unacked s = 0" if "\<not> list_ex is_socks_error evs"
        using that lost down counts flow 3 by (auto simp: tc_down_def down_rest_def tc_counts_def tc_flow_ok_def c_def split: if_splits)
    qed (use 3 base up down fin in \<open>auto simp: tc_base_def tc_down_def\<close>)
    ultimately show ?thesis by (simp add: c_def)
  qed
qed

section \<open>Events\<close>

definition quiet :: "tc_out list \<Rightarrow> bool" where
  \<comment> \<open>actions that carry no data\<close>
  "quiet os \<longleftrightarrow> list_all (\<lambda>a. case a of Tcp_write _ \<Rightarrow> False | Tcp_recved _ \<Rightarrow> False | Socks_took _ \<Rightarrow> False | _ \<Rightarrow> True) os"

lemma quiet_data: "quiet os \<Longrightarrow> written os = [] \<and> took os = [] \<and> recved os = 0"
  by (induction os rule: written.induct) (auto simp: quiet_def)

abbreviation teardown_acts :: "tc_out set" where
  "teardown_acts \<equiv> {Socks_free, Dealloc, Tcp_close, Tcp_abort}"

lemma quiet_subset: "set os \<subseteq> teardown_acts \<Longrightarrow> quiet os"
  by (auto simp: quiet_def list_all_iff)

lemma quiet_simps [simp]: "quiet []" "quiet (os @ os') \<longleftrightarrow> quiet os \<and> quiet os'" "quiet (Returned e # os) = quiet os" "quiet (Pbuf_free # os) = quiet os"
  "quiet (Syncing # os) = quiet os" "quiet (Tcp_close # os) = quiet os" "quiet (Tcp_abort # os) = quiet os"
  by (simp_all add: quiet_def)

lemma apply_quiet: "quiet os \<Longrightarrow> tc_apply s (os, c) = (os, s\<lparr>ts_client := c\<rparr>)"
  by (simp add: tc_apply_def quiet_data)

lemma tc_inv_note:
  assumes "tc_inv s evs out" "set os \<subseteq> {Pbuf_free, Syncing} \<union> range Returned"
  shows "tc_inv s evs (out @ os)"
proof -
  have "quiet os" using assms(2) by (auto simp: quiet_def list_all_iff)
  moreover have "Socks_free \<notin> set os" "Dealloc \<notin> set os" "Tcp_close \<notin> set os" "Tcp_abort \<notin> set os" using assms(2) by auto
  then have "count_list os Socks_free = 0" "count_list os Dealloc = 0" "count_list os Tcp_close = 0" "count_list os Tcp_abort = 0"
      "Socks_free \<notin> set os" "Tcp_close \<notin> set os"
    by (simp_all add: count_list_0_iff)
  ultimately show ?thesis using assms(1) quiet_data by (simp add: tc_inv_def Let_def tc_closed_def tc_flushed_def)
qed

lemma tc_inv_history:
  assumes "tc_inv s evs out" "delivered_data [ev] = []" "socks_data [ev] = []" "\<not> is_tcp_err ev"
  shows "tc_inv s (evs @ [ev]) out"
  using assms by (auto simp: tc_inv_def Let_def tc_closed_def tc_flushed_def tc_down_def)

lemma tc_open:
  assumes "tc_inv s evs out"
  shows "tc_err_cb (ts_client s) \<Longrightarrow> \<not> tc_client_closed (ts_client s)" "tc_recv_cb (ts_client s) \<Longrightarrow> \<not> tc_client_closed (ts_client s) \<and> \<not> tc_socks_closed (ts_client s)"
    "tc_sent_cb (ts_client s) \<Longrightarrow> \<not> tc_client_closed (ts_client s) \<and> tc_socks_up (ts_client s)"
    "\<not> tc_client_closed (ts_client s) \<Longrightarrow> \<not> tc_freed (ts_client s)" "\<not> tc_socks_closed (ts_client s) \<Longrightarrow> \<not> tc_freed (ts_client s)"
  using assms by (auto simp: tc_inv_def Let_def tc_shape_def split: if_splits)

lemma callbacks_frame [simp]:
  "tc_base (c\<lparr>tc_err_cb := x, tc_recv_cb := y, tc_sent_cb := z\<rparr>) = tc_base c" "tc_send_ok (c\<lparr>tc_err_cb := x, tc_recv_cb := y, tc_sent_cb := z\<rparr>) = tc_send_ok c"
  "tc_recv_if_ok (c\<lparr>tc_err_cb := x, tc_recv_cb := y, tc_sent_cb := z\<rparr>) = tc_recv_if_ok c"
  "tc_up (c\<lparr>tc_err_cb := x, tc_recv_cb := y, tc_sent_cb := z\<rparr>) d t = tc_up c d t"
  by (simp_all add: tc_base_def tc_send_ok_def tc_recv_if_ok_def tc_up_def up_rest_def)

definition client_open :: "tc_sys \<Rightarrow> tcp_client \<Rightarrow> tc_event list \<Rightarrow> tc_out list \<Rightarrow> bool" where
  \<comment> \<open>in the middle of a handler, with the client side still open\<close>
  "client_open s c evs out \<longleftrightarrow>
     \<not> tc_client_closed c \<and> \<not> tc_freed c \<and> tc_base c \<and> tc_send_ok c \<and> tc_recv_if_ok c \<and>
     (tc_dead_client c = (if ts_sync s = None then None else Some False)) \<and>
     tc_up c (delivered_data evs) (took out) \<and> prefix (written out) (socks_data evs) \<and>
     count_list out Socks_free = of_bool (tc_socks_closed c) \<and> count_list out Dealloc = 0 \<and>
     count_list out Tcp_close + count_list out Tcp_abort + length (filter is_tcp_err evs) = 0 \<and>
     (Socks_free \<in> set out \<longrightarrow> list_ex is_socks_end evs)"

lemma inv_client_open:
  assumes "tc_inv s evs out" "\<not> tc_client_closed (ts_client s)"
  shows "client_open s (ts_client s) evs out"
  using assms by (auto simp: client_open_def tc_inv_def Let_def tc_shape_def tc_down_def tc_closed_def tc_flushed_def tc_sync_ok_def)

lemma client_open_gone:
  assumes "client_open s c evs out"
    and a: "a = Tcp_close \<and> (list_ex is_eof evs \<or> tc_socks_closed c \<and> (\<not> list_ex is_socks_error evs \<longrightarrow> written out = socks_data evs \<and> ts_unacked s = 0))
      \<or> a = Tcp_abort"
  shows "client_gone s (c\<lparr>tc_err_cb := False, tc_recv_cb := False, tc_sent_cb := False\<rparr>) evs (out @ [a])"
proof -
  have "Tcp_close \<notin> set out" using assms(1) by (simp add: client_open_def count_list_0_iff)
  then show ?thesis using assms by (elim disjE) (simp_all add: client_open_def client_gone_def, blast)
qed

lemma free_client_inv:
  assumes opn: "client_open s c evs out"
    and why: "list_ex is_eof evs \<or> tc_socks_closed c \<and> (\<not> list_ex is_socks_error evs \<longrightarrow> written out = socks_data evs \<and> ts_unacked s = 0)"
  shows "\<exists>o' c'. client_free_client close_ok c = Some (o', c') \<and> tc_inv (s\<lparr>ts_client := c'\<rparr>) evs (out @ o') \<and> set o' \<subseteq> teardown_acts \<and> tc_client_closed c'"
proof -
  let ?c = "c\<lparr>tc_err_cb := False, tc_recv_cb := False, tc_sent_cb := False\<rparr>" and ?a = "if close_ok then Tcp_close else Tcp_abort"
  have c: "\<not> tc_freed c" "\<not> tc_client_closed c" using opn by (simp_all add: client_open_def)
  have "client_gone s ?c evs (out @ [?a])" using why by (intro client_open_gone [OF opn]) auto
  then obtain o' c' where h: "client_handle_freed_client close_ok ?c = Some (o', c')" "tc_inv (s\<lparr>ts_client := c'\<rparr>) evs ((out @ [?a]) @ o')"
      "set o' \<subseteq> {Socks_free, Dealloc}" "tc_client_closed c'"
    using handle_freed_inv [of ?c s evs "out @ [?a]" close_ok] c by auto
  have "client_free_client close_ok c = Some (?a # o', c')" using c h(1) by (simp add: client_free_client.simps)
  moreover have "set (?a # o') \<subseteq> teardown_acts" using h(3) by auto
  ultimately show ?thesis using h(2,4) by auto
qed

lemma abort_client_inv:
  assumes opn: "client_open s c evs out"
  shows "\<exists>o' c'. client_abort_client c = Some (o', c') \<and> tc_inv (s\<lparr>ts_client := c'\<rparr>) evs (out @ o') \<and> set o' \<subseteq> teardown_acts \<and> tc_client_closed c'"
proof -
  let ?c = "c\<lparr>tc_err_cb := False, tc_recv_cb := False, tc_sent_cb := False\<rparr>"
  have c: "\<not> tc_freed c" "\<not> tc_client_closed c" using opn by (simp_all add: client_open_def)
  have "client_gone s ?c evs (out @ [Tcp_abort])" by (intro client_open_gone [OF opn]) auto
  then obtain o' c' where h: "client_handle_freed_client True ?c = Some (o', c')" "tc_inv (s\<lparr>ts_client := c'\<rparr>) evs ((out @ [Tcp_abort]) @ o')"
      "set o' \<subseteq> {Socks_free, Dealloc}" "tc_client_closed c'"
    using handle_freed_inv [of ?c s evs "out @ [Tcp_abort]" True] c by auto
  then show ?thesis using c by (auto simp: client_abort_client_def)
qed

lemma tc_err_event:
  assumes inv: "tc_inv s evs out" and en: "tc_enabled s (Tcp_err close_ok)"
  shows "\<exists>o' s'. tcp_client_event (Tcp_err close_ok) s = Some (o', s') \<and> tc_inv s' (evs @ [Tcp_err close_ok]) (out @ o')"
proof -
  let ?c = "(ts_client s)\<lparr>tc_err_cb := False, tc_recv_cb := False, tc_sent_cb := False\<rparr>"
  have st: "\<not> tc_client_closed (ts_client s)" using tc_open(1) [OF inv] en by (simp add: tc_enabled_def Let_def)
  note opn = inv_client_open [OF inv st]
  have "Tcp_close \<notin> set out" using opn by (simp add: client_open_def count_list_0_iff)
  then have "client_gone s ?c (evs @ [Tcp_err close_ok]) out" using opn by (simp add: client_open_def client_gone_def)
  then obtain o' c' where h: "client_handle_freed_client close_ok ?c = Some (o', c')" "tc_inv (s\<lparr>ts_client := c'\<rparr>) (evs @ [Tcp_err close_ok]) (out @ o')"
      "set o' \<subseteq> {Socks_free, Dealloc}"
    using handle_freed_inv [of ?c s "evs @ [Tcp_err close_ok]" out close_ok] opn by (auto simp: client_open_def)
  have "quiet o'" using h(3) by (intro quiet_subset) auto
  then show ?thesis using h(1,2) opn by (simp add: tcp_client_event_def client_err_func_def apply_quiet client_open_def)
qed

lemma tc_eof_event:
  assumes inv: "tc_inv s evs out" and en: "tc_enabled s (Tcp_recv close_ok None)"
  shows "\<exists>o' s'. tcp_client_event (Tcp_recv close_ok None) s = Some (o', s') \<and> tc_inv s' (evs @ [Tcp_recv close_ok None]) (out @ o')"
proof -
  let ?evs = "evs @ [Tcp_recv close_ok None]"
  have st: "\<not> tc_client_closed (ts_client s)" using tc_open(2) [OF inv] en by (simp add: tc_enabled_def Let_def)
  have "tc_inv s ?evs out" using inv by (rule tc_inv_history) simp_all
  note opn = inv_client_open [OF this st]
  obtain o' c' where h: "client_free_client close_ok (ts_client s) = Some (o', c')" "tc_inv (s\<lparr>ts_client := c'\<rparr>) ?evs (out @ o')" "set o' \<subseteq> teardown_acts"
    using free_client_inv [OF opn] by fastforce
  have "tc_inv (s\<lparr>ts_client := c'\<rparr>) ?evs ((out @ o') @ [Returned ERR_ABRT])" by (rule tc_inv_note [OF h(2)]) simp
  moreover have "Syncing \<notin> set o'" "quiet o'" using h(3) quiet_subset by auto
  ultimately show ?thesis using h(1) opn
    by (simp add: tcp_client_event_def client_recv_func_def apply_quiet tc_callback_def client_open_def)
qed

lemma recv_side_frame [simp]:
  "tc_recv_if_ok (c\<lparr>tc_buf := x1\<rparr>) = tc_recv_if_ok c"
  "tc_recv_if_ok (c\<lparr>tc_buf_used := x2\<rparr>) = tc_recv_if_ok c"
  "tc_recv_if_ok (c\<lparr>tc_send_if := x3\<rparr>) = tc_recv_if_ok c"
  "tc_recv_if_ok (c\<lparr>tc_dead_client := x4\<rparr>) = tc_recv_if_ok c"
  "tc_flow_ok (c\<lparr>tc_buf := x1\<rparr>) = tc_flow_ok c"
  "tc_flow_ok (c\<lparr>tc_buf_used := x2\<rparr>) = tc_flow_ok c"
  "tc_flow_ok (c\<lparr>tc_send_if := x3\<rparr>) = tc_flow_ok c"
  "tc_flow_ok (c\<lparr>tc_dead_client := x4\<rparr>) = tc_flow_ok c"
  "tc_down (c\<lparr>tc_buf := x1\<rparr>) e r w = tc_down c e r w"
  "tc_down (c\<lparr>tc_buf_used := x2\<rparr>) e r w = tc_down c e r w"
  "tc_down (c\<lparr>tc_send_if := x3\<rparr>) e r w = tc_down c e r w"
  "tc_down (c\<lparr>tc_dead_client := x4\<rparr>) e r w = tc_down c e r w"
  by (simp_all add: tc_recv_if_ok_def tc_flow_ok_def tc_down_def down_rest_def)

lemma send_side_frame [simp]:
  "tc_send_ok (c\<lparr>tc_recv_buf := x5\<rparr>) = tc_send_ok c"
  "tc_send_ok (c\<lparr>tc_recv_buf_used := x6\<rparr>) = tc_send_ok c"
  "tc_send_ok (c\<lparr>tc_recv_buf_sent := x7\<rparr>) = tc_send_ok c"
  "tc_send_ok (c\<lparr>tc_recv_waiting := x8\<rparr>) = tc_send_ok c"
  "tc_send_ok (c\<lparr>tc_recv_tcp_pending := x9\<rparr>) = tc_send_ok c"
  "tc_send_ok (c\<lparr>tc_recv_if := x10\<rparr>) = tc_send_ok c"
  "tc_send_ok (c\<lparr>tc_dead_client := x4\<rparr>) = tc_send_ok c"
  "tc_up (c\<lparr>tc_recv_buf := x5\<rparr>) d t = tc_up c d t"
  "tc_up (c\<lparr>tc_recv_buf_used := x6\<rparr>) d t = tc_up c d t"
  "tc_up (c\<lparr>tc_recv_buf_sent := x7\<rparr>) d t = tc_up c d t"
  "tc_up (c\<lparr>tc_recv_waiting := x8\<rparr>) d t = tc_up c d t"
  "tc_up (c\<lparr>tc_recv_tcp_pending := x9\<rparr>) d t = tc_up c d t"
  "tc_up (c\<lparr>tc_recv_if := x10\<rparr>) d t = tc_up c d t"
  "tc_up (c\<lparr>tc_dead_client := x4\<rparr>) d t = tc_up c d t"
  by (simp_all add: tc_send_ok_def tc_up_def up_rest_def)

lemma closed_frame [simp]:
  "tc_closed (c\<lparr>tc_buf := x1\<rparr>) evs out = tc_closed c evs out"
  "tc_closed (c\<lparr>tc_buf_used := x2\<rparr>) evs out = tc_closed c evs out"
  "tc_closed (c\<lparr>tc_send_if := x3\<rparr>) evs out = tc_closed c evs out"
  "tc_closed (c\<lparr>tc_recv_buf := x5\<rparr>) evs out = tc_closed c evs out"
  "tc_closed (c\<lparr>tc_recv_buf_used := x6\<rparr>) evs out = tc_closed c evs out"
  "tc_closed (c\<lparr>tc_recv_buf_sent := x7\<rparr>) evs out = tc_closed c evs out"
  "tc_closed (c\<lparr>tc_recv_waiting := x8\<rparr>) evs out = tc_closed c evs out"
  "tc_closed (c\<lparr>tc_recv_tcp_pending := x9\<rparr>) evs out = tc_closed c evs out"
  "tc_closed (c\<lparr>tc_recv_if := x10\<rparr>) evs out = tc_closed c evs out"
  "tc_closed (c\<lparr>tc_dead_client := x4\<rparr>) evs out = tc_closed c evs out"
  "tc_closed (c\<lparr>tc_recv_cb := x11\<rparr>) evs out = tc_closed c evs out"
  "tc_closed (c\<lparr>tc_sent_cb := x12\<rparr>) evs out = tc_closed c evs out"
  "tc_closed (c\<lparr>tc_socks_up := x13\<rparr>) evs out = tc_closed c evs out"
  by (simp_all add: tc_closed_def)

lemma shape_frame [simp]:
  "tc_shape (c\<lparr>tc_send_if := x3\<rparr>) = tc_shape c"
  "tc_shape (c\<lparr>tc_recv_buf_used := x6\<rparr>) = tc_shape c"
  "tc_shape (c\<lparr>tc_recv_buf_sent := x7\<rparr>) = tc_shape c"
  "tc_shape (c\<lparr>tc_recv_waiting := x8\<rparr>) = tc_shape c"
  "tc_shape (c\<lparr>tc_recv_tcp_pending := x9\<rparr>) = tc_shape c"
  "tc_shape (c\<lparr>tc_recv_if := x10\<rparr>) = tc_shape c"
  "tc_shape (c\<lparr>tc_dead_client := x4\<rparr>) = tc_shape c"
  by (simp_all add: tc_shape_def tc_base_def)

lemma up_rest_recv:
  assumes "tc_base c" "tc_send_ok c" "\<not> tc_socks_closed c" "overwrite (tc_buf c) (nat (tc_buf_used c)) d = Some b'"
  shows "up_rest (c\<lparr>tc_buf := b', tc_buf_used := tc_buf_used c + int (length d)\<rparr>) = up_rest c @ d"
proof -
  have "0 \<le> tc_buf_used c" "length (tc_buf c) \<ge> nat (tc_buf_used c)" using assms(1) by (auto simp: tc_base_def nat_le_iff)
  then have t: "take (nat (tc_buf_used c + int (length d))) b' = take (nat (tc_buf_used c)) (tc_buf c) @ d" "length (take (nat (tc_buf_used c)) (tc_buf c)) = nat (tc_buf_used c)"
    using take_overwrite [OF assms(4)] by (simp_all add: nat_add_distrib)
  have "si_done_len (tc_send_if c) \<le> tc_buf_used c" if "tc_socks_up c" "si_state (tc_send_if c) = State_done_pending"
    using assms(2,3) that by (auto simp: tc_send_ok_def si_inv_def)
  then show ?thesis using t by (auto simp: up_rest_def)
qed

lemma tc_data_event:
  assumes inv: "tc_inv s evs out" and en: "tc_enabled s (Tcp_recv close_ok (Some d))"
  shows "\<exists>o' s'. tcp_client_event (Tcp_recv close_ok (Some d)) s = Some (o', s') \<and> tc_inv s' (evs @ [Tcp_recv close_ok (Some d)]) (out @ o')"
proof -
  define c where "c = ts_client s"
  have en': "ts_sync s = None" "tc_recv_cb c" "d \<noteq> []" "ts_unread s + length d \<le> TCP_WND" using en by (auto simp: tc_enabled_def Let_def c_def)
  then have st: "\<not> tc_client_closed c" "\<not> tc_socks_closed c" "\<not> tc_freed c" using tc_open [OF inv] by (auto simp: c_def)
  have i: "tc_shape c" "tc_send_ok c" "tc_recv_if_ok c" "tc_flow_ok c" "tc_counts s" "tc_sync_ok None c" "tc_up c (delivered_data evs) (took out)"
      "tc_down c (list_ex is_socks_error evs) (socks_data evs) (written out)" "tc_closed c evs out" "tc_flushed s evs out"
    using inv en'(1) by (simp_all add: tc_inv_def Let_def c_def)
  have base: "tc_base c" using i(1) by (simp add: tc_shape_def)
  have used: "tc_buf_used c + int (length d) \<le> int TCP_WND" "0 \<le> tc_buf_used c" "length (tc_buf c) = TCP_WND"
    using i(5) st en'(4) base by (auto simp: tc_counts_def c_def tc_base_def)
  then obtain b' where b': "overwrite (tc_buf c) (nat (tc_buf_used c)) d = Some b'" by (simp add: overwrite_total)
  let ?ev = "Tcp_recv close_ok (Some d)" and ?c = "c\<lparr>tc_buf := b', tc_buf_used := tc_buf_used c + int (length d)\<rparr>"
  let ?s = "s\<lparr>ts_unread := ts_unread s + length d\<rparr>"
  have shape: "tc_shape ?c" using i(1) st used overwrite_length [OF b'] by (simp add: tc_shape_def tc_base_def)
  have up: "delivered_data (evs @ [?ev]) = took out @ up_rest ?c" using i(7) st up_rest_recv [OF base i(2) st(2) b'] by (simp add: tc_up_def)
  have closed: "tc_closed c (evs @ [?ev]) out" using i(9) by (simp add: tc_closed_def)
  have free: "Socks_free \<in> set out \<longrightarrow> list_ex is_socks_end evs" "Tcp_close \<in> set out \<longrightarrow> list_ex is_eof evs"
    using i(10) st by (auto simp: tc_flushed_def c_def)
  show ?thesis
  proof (cases "tc_buf_used c = 0 \<and> tc_socks_up c")
    case True
    then have none: "si_state (tc_send_if c) = State_none" "si_done_handler (tc_send_if c)" "si_inv (tc_send_if c)"
      using i(2) st by (auto simp: tc_send_ok_def)
    let ?i = "(tc_send_if c)\<lparr>si_data := Some 0, si_len := int (length d), si_job_operation := True, si_state := State_operation_pending\<rparr>"
    let ?c' = "?c\<lparr>tc_send_if := ?i, tc_dead_client := Some False\<rparr>"
    have "client_recv_func close_ok (Some d) c = Some ([Syncing], ?c')"
      using True st en'(3) used b' none by (simp add: client_recv_func_def client_send_to_socks_def StreamPassInterface_Sender_Send_def)
    then have ev: "tcp_client_event ?ev s = Some ([Syncing], ?s\<lparr>ts_client := ?c', ts_sync := Some In_recv\<rparr>)"
      by (simp add: tcp_client_event_def apply_quiet tc_callback_def c_def)
    have "tc_send_ok ?c'" using True en'(3) none st by (simp add: tc_send_ok_def si_inv_def)
    moreover have "up_rest ?c' = up_rest ?c" using none by (simp add: up_rest_def)
    then have "tc_up ?c' (delivered_data (evs @ [?ev])) (took out)" using up by (simp add: tc_up_def)
    ultimately have "tc_inv (?s\<lparr>ts_client := ?c', ts_sync := Some In_recv\<rparr>) (evs @ [?ev]) out"
      using shape i st free closed by (auto simp: tc_inv_def tc_counts_def tc_sync_ok_def tc_flushed_def c_def)
    then show ?thesis using ev tc_inv_note by auto
  next
    case False
    have "client_recv_func close_ok (Some d) c = Some ([Pbuf_free, Returned ERR_OK], ?c)"
      using False st en'(3) used b' by (auto simp: client_recv_func_def)
    then have ev: "tcp_client_event ?ev s = Some ([Pbuf_free, Returned ERR_OK], ?s\<lparr>ts_client := ?c\<rparr>)"
      by (simp add: tcp_client_event_def apply_quiet tc_callback_def c_def)
    have "tc_send_ok ?c" using False i(2) st used by (auto simp: tc_send_ok_def)
    moreover have "tc_up ?c (delivered_data (evs @ [?ev])) (took out)" using up by (simp add: tc_up_def)
    moreover have "tc_sync_ok None ?c" using i(6) by (simp add: tc_sync_ok_def)
    ultimately have "tc_inv (?s\<lparr>ts_client := ?c\<rparr>) (evs @ [?ev]) out"
      using shape i st free closed en'(1) by (auto simp: tc_inv_def tc_counts_def tc_flushed_def c_def)
    then show ?thesis using ev tc_inv_note by auto
  qed
qed

lemma tc_inv_parts:
  assumes "tc_inv s evs out" "c = ts_client s"
  shows "tc_shape c" "tc_send_ok c" "tc_recv_if_ok c" "tc_flow_ok c" "tc_counts s" "tc_sync_ok (ts_sync s) c" "tc_up c (delivered_data evs) (took out)"
    "tc_down c (list_ex is_socks_error evs) (socks_data evs) (written out)" "tc_closed c evs out" "tc_flushed s evs out"
  using assms by (simp_all add: tc_inv_def Let_def)

lemma not_flushed:
  assumes "tc_flushed s evs out" "\<not> tc_freed (ts_client s)"
  shows "Socks_free \<in> set out \<longrightarrow> list_ex is_socks_end evs" "Tcp_close \<in> set out \<longrightarrow> list_ex is_eof evs"
  using assms by (auto simp: tc_flushed_def)

lemma sync_frame [simp]:
  "tc_sync_ok cb (c\<lparr>tc_send_if := x1\<rparr>) = tc_sync_ok cb c" "tc_sync_ok cb (c\<lparr>tc_recv_if := x2\<rparr>) = tc_sync_ok cb c"
  "tc_sync_ok cb (c\<lparr>tc_buf := x3\<rparr>) = tc_sync_ok cb c" "tc_sync_ok cb (c\<lparr>tc_buf_used := x4\<rparr>) = tc_sync_ok cb c"
  "tc_sync_ok cb (c\<lparr>tc_recv_buf := x5\<rparr>) = tc_sync_ok cb c" "tc_sync_ok cb (c\<lparr>tc_recv_buf_used := x6\<rparr>) = tc_sync_ok cb c"
  "tc_sync_ok cb (c\<lparr>tc_recv_buf_sent := x7\<rparr>) = tc_sync_ok cb c" "tc_sync_ok cb (c\<lparr>tc_recv_waiting := x8\<rparr>) = tc_sync_ok cb c"
  "tc_sync_ok cb (c\<lparr>tc_recv_tcp_pending := x9\<rparr>) = tc_sync_ok cb c"
  by (simp_all add: tc_sync_ok_def)

lemma tc_invI:
  assumes "tc_shape c" "tc_send_ok c" "tc_recv_if_ok c" "tc_flow_ok c" "tc_counts (s\<lparr>ts_client := c\<rparr>)" "tc_sync_ok (ts_sync s) c"
    and "tc_up c (delivered_data evs) (took out)" "tc_down c (list_ex is_socks_error evs) (socks_data evs) (written out)" "tc_closed c evs out"
    and "\<not> tc_freed c" "Socks_free \<in> set out \<longrightarrow> list_ex is_socks_end evs" "Tcp_close \<in> set out \<longrightarrow> list_ex is_eof evs"
  shows "tc_inv (s\<lparr>ts_client := c\<rparr>) evs out"
  using assms by (auto simp: tc_inv_def tc_flushed_def)

lemma send_op_event:
  assumes inv: "tc_inv s evs out" and en: "tc_enabled s Socks_send_op"
  shows "\<exists>o' s'. tcp_client_event Socks_send_op s = Some (o', s') \<and> tc_inv s' (evs @ [Socks_send_op]) (out @ o')"
proof -
  define c where "c = ts_client s"
  note i = tc_inv_parts [OF tc_inv_history [OF inv, of Socks_send_op, simplified] c_def]
  have st: "tc_socks_up c" "\<not> tc_socks_closed c" "si_state (tc_send_if c) = State_operation_pending"
    using en i(2) by (auto simp: tc_enabled_def Let_def c_def tc_send_ok_def si_inv_def)
  let ?i = "(tc_send_if c)\<lparr>si_job_operation := False, si_state := State_busy\<rparr>"
  have "tc_send_ok (c\<lparr>tc_send_if := ?i\<rparr>)" using i(2) st by (auto simp: tc_send_ok_def si_inv_def)
  moreover have "tc_up (c\<lparr>tc_send_if := ?i\<rparr>) (delivered_data (evs @ [Socks_send_op])) (took out)"
    using i(7) st by (simp add: tc_up_def up_rest_def)
  ultimately have "tc_inv (s\<lparr>ts_client := c\<lparr>tc_send_if := ?i\<rparr>\<rparr>) (evs @ [Socks_send_op]) out"
    using i by (simp add: tc_inv_def Let_def tc_counts_def tc_flushed_def c_def)
  moreover have "tcp_client_event Socks_send_op s = Some ([], s\<lparr>ts_client := c\<lparr>tc_send_if := ?i\<rparr>\<rparr>)"
    using st by (simp add: tcp_client_event_def Let_def StreamPassInterface_job_operation_def apply_quiet c_def)
  ultimately show ?thesis by simp
qed

lemma send_took_event:
  assumes inv: "tc_inv s evs out" and en: "tc_enabled s (Socks_send_took n)"
  shows "\<exists>o' s'. tcp_client_event (Socks_send_took n) s = Some (o', s') \<and> tc_inv s' (evs @ [Socks_send_took n]) (out @ o')"
proof -
  define c where "c = ts_client s"
  note i = tc_inv_parts [OF tc_inv_history [OF inv, of "Socks_send_took n", simplified] c_def]
  have st: "tc_socks_up c" "\<not> tc_socks_closed c" "si_state (tc_send_if c) = State_busy" "0 < n" "int n \<le> si_len (tc_send_if c)"
    using en by (auto simp: tc_enabled_def Let_def c_def)
  have fr: "\<not> tc_freed c" using i(1) st by (simp add: tc_shape_def)
  have len: "n \<le> nat (tc_buf_used c)" "nat (tc_buf_used c) \<le> length (tc_buf c)" "si_data (tc_send_if c) = Some 0"
    using i(1,2) st by (auto simp: tc_send_ok_def tc_shape_def tc_base_def)
  let ?i = "(tc_send_if c)\<lparr>si_done_len := int n, si_job_done := True, si_state := State_done_pending\<rparr>" and ?d = "take n (tc_buf c)"
  let ?c = "c\<lparr>tc_send_if := ?i\<rparr>"
  have eq: "take (nat (tc_buf_used c)) (tc_buf c) = ?d @ drop n (take (nat (tc_buf_used c)) (tc_buf c))"
    using len(1) by (metis append_take_drop_id min_absorb1 take_take)
  then have "tc_up ?c (delivered_data (evs @ [Socks_send_took n])) (took (out @ [Socks_took ?d]))"
    using i(7) st prefixI [OF eq] by (simp add: tc_up_def up_rest_def)
  moreover have "tc_send_ok ?c" using i(2) st by (auto simp: tc_send_ok_def si_inv_def)
  ultimately have "tc_inv (s\<lparr>ts_client := ?c\<rparr>) (evs @ [Socks_send_took n]) (out @ [Socks_took ?d])"
    using i fr not_flushed [OF i(10)] by (simp add: tc_inv_def Let_def tc_counts_def tc_flushed_def tc_closed_def c_def)
  moreover have "tcp_client_event (Socks_send_took n) s = Some ([Socks_took ?d], s\<lparr>ts_client := ?c\<rparr>)"
    using st len fr by (simp add: tcp_client_event_def Let_def StreamPassInterface_Done_def tc_apply_def subbytes_def c_def)
  ultimately show ?thesis by simp
qed

lemma move_down:
  assumes "u \<le> length b"
  shows "\<exists>b'. overwrite b 0 (take (u - n) (drop n b)) = Some b' \<and> take (u - n) b' = take (u - n) (drop n b) \<and> length b' = length b"
proof -
  let ?r = "take (u - n) (drop n b)"
  have len: "length ?r = u - n" "u - n \<le> length b" using assms by auto
  then have o': "overwrite b 0 ?r = Some (?r @ drop (u - n) b)" by (simp add: overwrite_def)
  then show ?thesis using len by (intro exI [of _ "?r @ drop (u - n) b"]) simp
qed

lemma send_done_event:
  assumes inv: "tc_inv s evs out" and en: "tc_enabled s (Socks_send_done close_ok)"
  shows "\<exists>o' s'. tcp_client_event (Socks_send_done close_ok) s = Some (o', s') \<and> tc_inv s' (evs @ [Socks_send_done close_ok]) (out @ o')"
proof -
  define c where "c = ts_client s"
  let ?ev = "Socks_send_done close_ok"
  note i = tc_inv_parts [OF tc_inv_history [OF inv, of ?ev, simplified] c_def]
  have st: "tc_socks_up c" "\<not> tc_socks_closed c" "si_state (tc_send_if c) = State_done_pending" "0 < si_done_len (tc_send_if c)"
      "si_done_len (tc_send_if c) \<le> tc_buf_used c" "si_inv (tc_send_if c)" "si_done_handler (tc_send_if c)"
    using en i(2) by (auto simp: tc_enabled_def Let_def c_def tc_send_ok_def si_inv_def)
  have fr: "\<not> tc_freed c" using i(1) st by (simp add: tc_shape_def)
  let ?n = "nat (si_done_len (tc_send_if c))" and ?u = "nat (tc_buf_used c)" and ?used = "tc_buf_used c - si_done_len (tc_send_if c)"
  let ?i = "(tc_send_if c)\<lparr>si_job_done := False, si_state := State_none\<rparr>"
  have base: "?u \<le> length (tc_buf c)" "length (tc_buf c) = TCP_WND" "?n \<le> ?u" "nat ?used = ?u - ?n"
    using i(1) st by (auto simp: tc_shape_def tc_base_def)
  let ?rest = "take (?u - ?n) (drop ?n (tc_buf c))"
  obtain b' where b': "overwrite (tc_buf c) 0 ?rest = Some b'" "take (?u - ?n) b' = ?rest" "length b' = TCP_WND"
    using move_down [OF base(1), of ?n] base(2) by auto
  let ?c = "c\<lparr>tc_send_if := ?i, tc_buf := b', tc_buf_used := ?used\<rparr>"
  define rv where "rv = (if \<not> tc_client_closed c then [Tcp_recved ?n] else [])"
  have sub: "subbytes (tc_buf c) ?n (nat ?used) = Some ?rest" using base by (simp add: subbytes_def)
  have handler: "tcp_client_event ?ev s = do { r \<leftarrow> (if ?used > 0
       then do { i \<leftarrow> StreamPassInterface_Sender_Send ?i (Some 0) ?used; Some (rv, ?c\<lparr>tc_send_if := i\<rparr>) }
       else if tc_client_closed c then do { (out', c) \<leftarrow> client_free_socks close_ok ?c; Some (rv @ out', c) }
       else Some (rv, ?c)); Some (tc_apply s r) }"
    using st fr sub b'(1)
    by (simp add: tcp_client_event_def Let_def client_socks_send_handler_done_def StreamPassInterface_job_done_def c_def [symmetric] rv_def)
  have rest: "up_rest c = ?rest" using st base by (simp add: up_rest_def drop_take)
  have shape: "tc_shape ?c" using i(1) st base b'(3) by (simp add: tc_shape_def tc_base_def)
  have wrt: "written rv = []" "took rv = []" "tc_closed c (evs @ [?ev]) (out @ rv)" "Socks_free \<notin> set rv" "Tcp_close \<notin> set rv"
    using i(9) by (auto simp: tc_closed_def rv_def)
  note nf = not_flushed [OF i(10), folded c_def, OF fr]
  let ?s = "s\<lparr>ts_unread := ts_unread s - recved rv\<rparr>"
  have counts: "tc_counts (?s\<lparr>ts_client := c'\<rparr>)" 
      if "tc_client_closed c' = tc_client_closed c" "tc_buf_used c' = ?used" "tc_socks_up c' = tc_socks_up c" "tc_recv_tcp_pending c' = tc_recv_tcp_pending c" for c'
    using i(5) st that by (auto simp: tc_counts_def c_def rv_def)
  show ?thesis
  proof (cases "?used > 0")
    case True
    let ?j = "?i\<lparr>si_data := Some 0, si_len := ?used, si_job_operation := True, si_state := State_operation_pending\<rparr>"
    let ?c' = "?c\<lparr>tc_send_if := ?j\<rparr>"
    have ev: "tcp_client_event ?ev s = Some (rv, ?s\<lparr>ts_client := ?c'\<rparr>)"
      unfolding handler using True st wrt(1) by (simp add: StreamPassInterface_Sender_Send_def tc_apply_def)
    moreover have "tc_send_ok ?c'" using True st i(2) by (simp add: tc_send_ok_def si_inv_def)
    moreover have "up_rest ?c' = ?rest" using base b'(2) by (simp add: up_rest_def)
    then have "tc_up ?c' (delivered_data (evs @ [?ev])) (took out)" using i(7) rest by (simp add: tc_up_def)
    moreover have "tc_shape ?c'" using shape by (simp add: tc_shape_def tc_base_def cong: if_cong)
    ultimately have "tc_inv (?s\<lparr>ts_client := ?c'\<rparr>) (evs @ [?ev]) (out @ rv)"
      by (intro tc_invI counts) (use i(3,4,6,8) fr nf wrt in simp_all)
    with ev show ?thesis by blast
  next
    case False
    then have u: "?rest = []" "?used = 0" using base st by simp_all
    then have eq: "delivered_data (evs @ [?ev]) = took out" using i(7) rest st by (simp add: tc_up_def)
    show ?thesis
    proof (cases "tc_client_closed c")
      case True
      let ?c' = "?c\<lparr>tc_socks_closed := True, tc_freed := True\<rparr>"
      have "tcp_client_event ?ev s = Some ([Socks_free, Dealloc], s\<lparr>ts_client := ?c'\<rparr>)"
        unfolding handler using True False st fr by (simp add: free_socks_eq tc_apply_def rv_def)
      moreover have "tc_inv (s\<lparr>ts_client := ?c'\<rparr>) (evs @ [?ev]) (out @ [Socks_free, Dealloc])"
        by (rule freed_inv) (use True shape i(6,8,9) fr st nf eq in \<open>auto simp: tc_shape_def tc_base_def tc_down_def tc_closed_def\<close>)
      ultimately show ?thesis by blast
    next
      case opn: False
      have ev: "tcp_client_event ?ev s = Some (rv, ?s\<lparr>ts_client := ?c\<rparr>)"
        unfolding handler using opn False wrt(1) by (simp add: tc_apply_def)
      have "tc_send_ok ?c" using opn st u i(2) by (simp add: tc_send_ok_def si_inv_def)
      moreover have "tc_up ?c (delivered_data (evs @ [?ev])) (took out)" using eq u by (simp add: tc_up_def up_rest_def)
      ultimately have "tc_inv (?s\<lparr>ts_client := ?c\<rparr>) (evs @ [?ev]) (out @ rv)"
        by (intro tc_invI counts shape) (use i(3,4,6,8) fr nf wrt in simp_all)
      with ev show ?thesis by blast
    qed
  qed
qed

lemma queue_data_ok:
  assumes "0 \<le> tc_recv_buf_sent c" "tc_recv_buf_sent c < tc_recv_buf_used c" "nat (tc_recv_buf_used c) \<le> length (tc_recv_buf c)"
  shows "\<exists>os n failed. queue_data ws c =
      Some (os, c\<lparr>tc_recv_buf_sent := tc_recv_buf_sent c + int n, tc_recv_tcp_pending := tc_recv_tcp_pending c + int n\<rparr>, failed) \<and>
    tc_recv_buf_sent c + int n \<le> tc_recv_buf_used c \<and> written os = take n (drop (nat (tc_recv_buf_sent c)) (tc_recv_buf c)) \<and> set os \<subseteq> range Tcp_write"
  using assms
proof (induction ws arbitrary: c)
  case Nil
  then show ?case by (intro exI [of _ "[]"] exI [of _ 0] exI [of _ False]) simp
next
  case (Cons w ws)
  obtain sndbuf err where w: "w = (sndbuf, err)" by (cases w)
  define k where "k = nat (min (tc_recv_buf_used c - tc_recv_buf_sent c) (int sndbuf))"
  have k: "int k = min (tc_recv_buf_used c - tc_recv_buf_sent c) (int sndbuf)" using Cons.prems by (simp add: k_def)
  have stop: ?case if "queue_data (w # ws) c = Some ([], c, failed)" for failed
    using that Cons.prems by (intro exI [of _ "[]"] exI [of _ 0] exI [of _ failed]) simp
  consider "k = 0" | "k > 0" "err = ERR_MEM" | "k > 0" "err \<noteq> ERR_MEM" "err \<noteq> ERR_OK" | "k > 0" "err = ERR_OK" by blast
  then show ?case
  proof cases
    case 4
    let ?n = "nat (tc_recv_buf_sent c)"
    let ?d = "take k (drop ?n (tc_recv_buf c))"
    let ?c = "c\<lparr>tc_recv_buf_sent := tc_recv_buf_sent c + int k, tc_recv_tcp_pending := tc_recv_tcp_pending c + int k\<rparr>"
    have le: "tc_recv_buf_sent c + int k \<le> tc_recv_buf_used c" using k by simp
    then have sub: "subbytes (tc_recv_buf c) ?n k = Some (take k (drop ?n (tc_recv_buf c)))" using Cons.prems by (simp add: subbytes_def)
    have eq: "queue_data (w # ws) c =
       do { (out, c, failed) \<leftarrow> (if tc_recv_buf_sent ?c < tc_recv_buf_used ?c then queue_data ws ?c else Some ([], ?c, False));
            Some (Tcp_write ?d # out, c, failed) }"
      using 4 k sub by (simp add: w Let_def flip: k)
    show ?thesis
    proof (cases "tc_recv_buf_sent ?c < tc_recv_buf_used ?c")
      case True
      then obtain os n failed where r: "queue_data ws ?c =
           Some (os, ?c\<lparr>tc_recv_buf_sent := tc_recv_buf_sent ?c + int n, tc_recv_tcp_pending := tc_recv_tcp_pending ?c + int n\<rparr>, failed)"
          "tc_recv_buf_sent ?c + int n \<le> tc_recv_buf_used ?c" "written os = take n (drop (nat (tc_recv_buf_sent ?c)) (tc_recv_buf ?c))" "set os \<subseteq> range Tcp_write"
        using Cons.IH [of ?c] Cons.prems by auto
      have "take (k + n) (drop ?n (tc_recv_buf c)) = take k (drop ?n (tc_recv_buf c)) @ written os"
        using r(3) Cons.prems(1) by (simp add: take_add nat_add_distrib add.commute)
      then show ?thesis unfolding eq using True r
        by (intro exI [of _ "Tcp_write ?d # os"] exI [of _ "k + n"] exI [of _ failed]) (simp add: ac_simps)
    next
      case False
      then show ?thesis unfolding eq using le
        by (intro exI [of _ "[Tcp_write ?d]"] exI [of _ k] exI [of _ False]) simp
    qed
  next
    case 1
    then have "queue_data (w # ws) c = Some ([], c, False)" using k by (simp add: w Let_def)
    then show ?thesis by (rule stop)
  next
    case 2
    then have "queue_data (w # ws) c = Some ([], c, False)" using k by (simp add: w Let_def flip: k)
    then show ?thesis by (rule stop)
  next
    case 3
    then have "queue_data (w # ws) c = Some ([], c, True)" using k by (simp add: w Let_def flip: k)
    then show ?thesis by (rule stop)
  qed
qed

lemma only_writes:
  assumes "set os \<subseteq> range Tcp_write"
  shows "took os = []" "recved os = 0" "Socks_free \<notin> set os" "Dealloc \<notin> set os" "Tcp_close \<notin> set os" "Tcp_abort \<notin> set os" "Syncing \<notin> set os"
    "count_list os Socks_free = 0" "count_list os Dealloc = 0" "count_list os Tcp_close = 0" "count_list os Tcp_abort = 0"
proof -
  show "took os = []" "recved os = 0" using assms by (induction os) auto
  show "Socks_free \<notin> set os" "Dealloc \<notin> set os" "Tcp_close \<notin> set os" "Tcp_abort \<notin> set os" "Syncing \<notin> set os" using assms by auto
  then show "count_list os Socks_free = 0" "count_list os Dealloc = 0" "count_list os Tcp_close = 0" "count_list os Tcp_abort = 0"
    by (simp_all add: count_list_0_iff)
qed

text \<open>In the middle of a handler, with data to be queued.\<close>

definition sending_out :: "tc_sys \<Rightarrow> tcp_client \<Rightarrow> tc_event list \<Rightarrow> tc_out list \<Rightarrow> bool" where
  "sending_out s c evs out \<longleftrightarrow>
     client_open s c evs out \<and> tc_shape c \<and> tc_socks_up c \<and> \<not> tc_recv_waiting c \<and> 0 \<le> tc_recv_buf_sent c \<and> tc_recv_buf_sent c < tc_recv_buf_used c \<and>
     tc_recv_buf_used c \<le> int CLIENT_SOCKS_RECV_BUF_SIZE \<and> 0 \<le> tc_recv_tcp_pending c \<and>
     (\<not> tc_socks_closed c \<longrightarrow> si_state (tc_recv_if c) = State_none) \<and>
     tc_down c (list_ex is_socks_error evs) (socks_data evs) (written out) \<and>
     int (ts_unread s) = tc_buf_used c \<and> int (ts_unacked s) = tc_recv_tcp_pending c"

lemma tc_down_written:
  assumes d: "tc_down c e r w" and c: "\<not> tc_client_closed c" "tc_socks_up c" "0 \<le> tc_recv_buf_sent c" "tc_recv_buf_used c \<noteq> -1"
    "tc_recv_buf_sent c + int n \<le> tc_recv_buf_used c"
  shows "tc_down (c\<lparr>tc_recv_buf_sent := tc_recv_buf_sent c + int n\<rparr>) e r (w @ take n (drop (nat (tc_recv_buf_sent c)) (tc_recv_buf c)))"
proof -
  let ?n = "nat (tc_recv_buf_sent c)" and ?u = "nat (tc_recv_buf_used c)" and ?b = "tc_recv_buf c"
  have le: "n \<le> ?u - ?n" using c by linarith
  have "drop ?n (take ?u ?b) = take n (drop ?n (take ?u ?b)) @ drop (?n + n) (take ?u ?b)" by (metis append_take_drop_id drop_drop add.commute)
  also have "take n (drop ?n (take ?u ?b)) = take n (drop ?n ?b)" using le by (simp add: drop_take min_absorb1)
  finally have eq: "down_rest c = take n (drop ?n ?b) @ down_rest (c\<lparr>tc_recv_buf_sent := tc_recv_buf_sent c + int n\<rparr>)"
    using c by (simp add: down_rest_def nat_add_distrib)
  then have "prefix ((w @ take n (drop ?n ?b)) @ down_rest (c\<lparr>tc_recv_buf_sent := tc_recv_buf_sent c + int n\<rparr>)) r" using d c(1) by (simp add: tc_down_def)
  note append_prefixD [OF this]
  then show ?thesis using d c(1) eq by (auto simp: tc_down_def)
qed

lemma client_open_cong:
  assumes "client_open s c evs out" "set os \<subseteq> range Tcp_write" "prefix (written (out @ os)) (socks_data evs)"
    and "c' = c\<lparr>tc_recv_buf_sent := x, tc_recv_tcp_pending := y\<rparr>"
  shows "client_open (s\<lparr>ts_unacked := z\<rparr>) c' evs (out @ os)"
proof -
  have "tc_recv_if_ok c' = tc_recv_if_ok c" "tc_base c' = tc_base c" by (simp_all add: assms(4) tc_recv_if_ok_def tc_base_def)
  then show ?thesis using assms only_writes [OF assms(2)] by (simp add: client_open_def)
qed

lemma send_out_cases:
  assumes so: "sending_out s c evs out"
  obtains (failed) o' c' where "client_socks_recv_send_out ws outp c = Some (o', c', -1)" "recved o' = 0" "Syncing \<notin> set o'" "tc_client_closed c'"
      "tc_inv (s\<lparr>ts_unacked := ts_unacked s + length (written o'), ts_client := c'\<rparr>) evs (out @ o')"
    | (queued) os n c' where "client_socks_recv_send_out ws outp c = Some (os, c', 0)" "set os \<subseteq> range Tcp_write"
      "c' = c\<lparr>tc_recv_buf_sent := tc_recv_buf_sent c + int n, tc_recv_tcp_pending := tc_recv_tcp_pending c + int n, tc_recv_waiting := True\<rparr> \<and>
         tc_recv_buf_sent c + int n < tc_recv_buf_used c \<or>
       c' = c\<lparr>tc_recv_buf_sent := tc_recv_buf_sent c + int n, tc_recv_tcp_pending := tc_recv_tcp_pending c + int n, tc_recv_buf_used := -1\<rparr> \<and>
         tc_recv_buf_sent c + int n = tc_recv_buf_used c"
      "tc_recv_tcp_pending c + int n > 0" "length (written os) = n" "client_open (s\<lparr>ts_unacked := ts_unacked s + length (written os)\<rparr>) c' evs (out @ os)"
      "tc_down (c\<lparr>tc_recv_buf_sent := tc_recv_buf_sent c + int n\<rparr>) (list_ex is_socks_error evs) (socks_data evs) (written (out @ os))"
proof -
  have c: "\<not> tc_freed c" "\<not> tc_client_closed c" "tc_socks_up c" "\<not> tc_recv_waiting c" "0 \<le> tc_recv_buf_sent c" "tc_recv_buf_sent c < tc_recv_buf_used c"
      "tc_recv_buf_used c \<le> int CLIENT_SOCKS_RECV_BUF_SIZE" "length (tc_recv_buf c) = CLIENT_SOCKS_RECV_BUF_SIZE" "0 \<le> tc_recv_tcp_pending c"
    and opn: "client_open s c evs out" and down: "tc_down c (list_ex is_socks_error evs) (socks_data evs) (written out)"
    using so by (auto simp: sending_out_def client_open_def tc_base_def)
  obtain os n fl where q: "queue_data ws c =
      Some (os, c\<lparr>tc_recv_buf_sent := tc_recv_buf_sent c + int n, tc_recv_tcp_pending := tc_recv_tcp_pending c + int n\<rparr>, fl)"
    "tc_recv_buf_sent c + int n \<le> tc_recv_buf_used c" "written os = take n (drop (nat (tc_recv_buf_sent c)) (tc_recv_buf c))" "set os \<subseteq> range Tcp_write"
    using queue_data_ok [OF c(5,6), of ws] c by (auto simp: nat_le_iff)
  let ?c = "c\<lparr>tc_recv_buf_sent := tc_recv_buf_sent c + int n, tc_recv_tcp_pending := tc_recv_tcp_pending c + int n\<rparr>"
  have len: "length (written os) = n" using q(2,3) c by (simp add: min_absorb2)
  have down': "tc_down (c\<lparr>tc_recv_buf_sent := tc_recv_buf_sent c + int n\<rparr>) (list_ex is_socks_error evs) (socks_data evs) (written (out @ os))"
    using tc_down_written [OF down c(2,3,5) _ q(2)] c q(3) by simp
  then have "prefix (written (out @ os)) (socks_data evs)" by (simp add: tc_down_def)
  note opn' = client_open_cong [OF opn q(4) this refl, where x = "tc_recv_buf_sent c + int n" and y = "tc_recv_tcp_pending c + int n"]
  show thesis
  proof (cases "fl \<or> outp \<noteq> ERR_OK \<or> tc_recv_buf_sent ?c < tc_recv_buf_used ?c \<and> tc_recv_tcp_pending ?c = 0")
    case True
    obtain o' c' where a: "client_abort_client ?c = Some (o', c')"
        "tc_inv (s\<lparr>ts_unacked := ts_unacked s + length (written os), ts_client := c'\<rparr>) evs ((out @ os) @ o')" "set o' \<subseteq> teardown_acts" "tc_client_closed c'"
      using abort_client_inv [OF opn' [of "ts_unacked s + length (written os)"]] by auto
    have "written o' = []" "recved o' = 0" "Syncing \<notin> set o'" using quiet_data [OF quiet_subset [OF a(3)]] a(3) by auto
    then show thesis
      using a True q(1) c only_writes [OF q(4)] by (intro failed [of "os @ o'" c']) (simp_all add: client_socks_recv_send_out_def)
  next
    case False
    then consider "tc_recv_buf_sent c + int n < tc_recv_buf_used c" "tc_recv_tcp_pending c + int n > 0" | "tc_recv_buf_sent c + int n = tc_recv_buf_used c"
      using q(2) c by fastforce
    then show thesis
    proof cases
      case 1
      have "client_open (s\<lparr>ts_unacked := ts_unacked s + length (written os)\<rparr>) (?c\<lparr>tc_recv_waiting := True\<rparr>) evs (out @ os)"
        using opn' [of z] by (simp add: client_open_def tc_recv_if_ok_def tc_base_def)
      moreover have "client_socks_recv_send_out ws outp c = Some (os, ?c\<lparr>tc_recv_waiting := True\<rparr>, 0)"
        using False 1 q(1) c by (simp add: client_socks_recv_send_out_def)
      ultimately show thesis using 1 queued [OF _ q(4) disjI1 _ len _ down'] by blast
    next
      case 2
      have "client_open (s\<lparr>ts_unacked := ts_unacked s + length (written os)\<rparr>) (?c\<lparr>tc_recv_buf_used := -1\<rparr>) evs (out @ os)"
        using opn' [of z] by (simp add: client_open_def tc_recv_if_ok_def tc_base_def)
      moreover have "client_socks_recv_send_out ws outp c = Some (os, ?c\<lparr>tc_recv_buf_used := -1\<rparr>, 0)"
        using False 2 q(1) c by (simp add: client_socks_recv_send_out_def)
      moreover have "tc_recv_tcp_pending c + int n > 0" using 2 c by linarith
      ultimately show thesis using 2 queued [OF _ q(4) disjI2 _ len _ down'] by blast
    qed
  qed
qed

lemma client_open_inv:
  assumes opn: "client_open s c evs out" and c: "tc_shape c" "tc_flow_ok c" "tc_down c (list_ex is_socks_error evs) (socks_data evs) (written out)"
    and cnt: "int (ts_unread s) = tc_buf_used c" "int (ts_unacked s) = (if tc_socks_up c then tc_recv_tcp_pending c else 0)"
  shows "tc_inv (s\<lparr>ts_client := c\<rparr>) evs out"
proof (rule tc_invI)
  have no: "Tcp_close \<notin> set out" using opn by (simp add: client_open_def count_list_0_iff)
  show "tc_send_ok c" "tc_recv_if_ok c" "tc_up c (delivered_data evs) (took out)" "\<not> tc_freed c" "Socks_free \<in> set out \<longrightarrow> list_ex is_socks_end evs"
      "tc_closed c evs out" "Tcp_close \<in> set out \<longrightarrow> list_ex is_eof evs" "tc_sync_ok (ts_sync s) c"
    using opn no by (simp_all add: client_open_def tc_closed_def tc_sync_ok_def)
  show "tc_counts (s\<lparr>ts_client := c\<rparr>)" using cnt by (simp add: tc_counts_def)
qed (use c in simp_all)

lemma client_open_if: "client_open s c evs out \<Longrightarrow> tc_recv_if_ok (c\<lparr>tc_recv_if := i\<rparr>) \<Longrightarrow> client_open s (c\<lparr>tc_recv_if := i\<rparr>) evs out"
  by (simp add: client_open_def tc_base_def)

lemma send_out_ok:
  assumes so: "sending_out s c evs out"
  shows "\<exists>o' c' r. client_socks_recv_send_out ws output c = Some (o', c', r) \<and> recved o' = 0 \<and> Syncing \<notin> set o' \<and>
    (let s' = s\<lparr>ts_unacked := ts_unacked s + length (written o')\<rparr> in
     r < 0 \<and> tc_client_closed c' \<and> tc_inv (s'\<lparr>ts_client := c'\<rparr>) evs (out @ o')
     \<or> r = 0 \<and> \<not> tc_client_closed c' \<and> \<not> tc_freed c' \<and> tc_recv_tcp_pending c' > 0 \<and> tc_socks_closed c' = tc_socks_closed c \<and>
       (if tc_recv_buf_used c' = -1 \<and> \<not> tc_socks_closed c'
        then \<exists>c''. client_socks_recv_initiate c' = Some c'' \<and> tc_dead_client c'' = tc_dead_client c \<and> \<not> tc_client_closed c'' \<and>
          tc_inv (s'\<lparr>ts_client := c''\<rparr>) evs (out @ o')
        else tc_inv (s'\<lparr>ts_client := c'\<rparr>) evs (out @ o')))"
proof (rule send_out_cases [OF so, where ws = ws and outp = "output"])
  fix o' c'
  assume "client_socks_recv_send_out ws output c = Some (o', c', -1)" "recved o' = 0" "Syncing \<notin> set o'" "tc_client_closed c'"
      "tc_inv (s\<lparr>ts_unacked := ts_unacked s + length (written o'), ts_client := c'\<rparr>) evs (out @ o')"
  then show ?thesis by (intro exI [of _ o'] exI [of _ c'] exI [of _ "-1"]) simp
next
  fix os n c'
  let ?s = "s\<lparr>ts_unacked := ts_unacked s + length (written os)\<rparr>"
  assume q: "client_socks_recv_send_out ws output c = Some (os, c', 0)" "set os \<subseteq> range Tcp_write"
      "c' = c\<lparr>tc_recv_buf_sent := tc_recv_buf_sent c + int n, tc_recv_tcp_pending := tc_recv_tcp_pending c + int n, tc_recv_waiting := True\<rparr> \<and>
         tc_recv_buf_sent c + int n < tc_recv_buf_used c \<or>
       c' = c\<lparr>tc_recv_buf_sent := tc_recv_buf_sent c + int n, tc_recv_tcp_pending := tc_recv_tcp_pending c + int n, tc_recv_buf_used := -1\<rparr> \<and>
         tc_recv_buf_sent c + int n = tc_recv_buf_used c"
      "tc_recv_tcp_pending c + int n > 0" "length (written os) = n" "client_open (s\<lparr>ts_unacked := ts_unacked s + length (written os)\<rparr>) c' evs (out @ os)"
      "tc_down (c\<lparr>tc_recv_buf_sent := tc_recv_buf_sent c + int n\<rparr>) (list_ex is_socks_error evs) (socks_data evs) (written (out @ os))"
  have c: "tc_shape c" "tc_socks_up c" "0 \<le> tc_recv_buf_sent c" "tc_recv_buf_used c \<le> int CLIENT_SOCKS_RECV_BUF_SIZE" "tc_recv_buf_sent c < tc_recv_buf_used c"
      "\<not> tc_socks_closed c \<longrightarrow> si_state (tc_recv_if c) = State_none" "int (ts_unread s) = tc_buf_used c" "int (ts_unacked s) = tc_recv_tcp_pending c"
      "\<not> tc_client_closed c" "\<not> tc_freed c" "tc_recv_if_ok c"
    using so by (auto simp: sending_out_def client_open_def)
  have c': "tc_shape c'" "\<not> tc_client_closed c'" "\<not> tc_freed c'" "tc_recv_tcp_pending c' > 0" "tc_socks_closed c' = tc_socks_closed c"
      "int (ts_unread ?s) = tc_buf_used c'" "int (ts_unacked ?s) = (if tc_socks_up c' then tc_recv_tcp_pending c' else 0)"
      "tc_dead_client c' = tc_dead_client c" "tc_socks_up c'" "tc_recv_if c' = tc_recv_if c"
    using q(3-5) c by auto
  have down: "tc_down c' (list_ex is_socks_error evs) (socks_data evs) (written (out @ os))"
    using q(3,7) c by (auto simp: tc_down_def down_rest_def)
  show ?thesis
  proof (cases "tc_recv_buf_used c' = -1 \<and> \<not> tc_socks_closed c'")
    case True
    let ?i = "(tc_recv_if c)\<lparr>si_data := Some 0, si_len := int CLIENT_SOCKS_RECV_BUF_SIZE, si_job_operation := True, si_state := State_operation_pending\<rparr>"
    have if_ok: "si_state (tc_recv_if c) = State_none" "si_done_handler (tc_recv_if c)" "si_inv (tc_recv_if c)"
      using c True c'(5) by (auto simp: tc_recv_if_ok_def)
    have "client_socks_recv_initiate c' = Some (c'\<lparr>tc_recv_if := ?i\<rparr>)"
      using c' True if_ok by (simp add: client_socks_recv_initiate_def StreamRecvInterface_Receiver_Recv_def)
    moreover have "tc_inv (?s\<lparr>ts_client := c'\<lparr>tc_recv_if := ?i\<rparr>\<rparr>) evs (out @ os)"
    proof (rule client_open_inv)
      show "client_open ?s (c'\<lparr>tc_recv_if := ?i\<rparr>) evs (out @ os)"
        by (rule client_open_if [OF q(6)]) (use True if_ok in \<open>simp add: tc_recv_if_ok_def si_inv_def\<close>)
      show "tc_flow_ok (c'\<lparr>tc_recv_if := ?i\<rparr>)" using True c' by (simp add: tc_flow_ok_def)
      show "tc_down (c'\<lparr>tc_recv_if := ?i\<rparr>) (list_ex is_socks_error evs) (socks_data evs) (written (out @ os))"
        using down True c' if_ok by (simp add: tc_down_def down_rest_def)
    qed (use c' in simp_all)
    ultimately show ?thesis using q(1) c' True only_writes [OF q(2)]
      by (intro exI [of _ os] exI [of _ c'] exI [of _ 0]) simp
  next
    case False
    have "tc_flow_ok c'" using False q(3) c c'(4) by (auto simp: tc_flow_ok_def)
    then have "tc_inv (?s\<lparr>ts_client := c'\<rparr>) evs (out @ os)" using client_open_inv [OF q(6) c'(1) _ down c'(6,7)] by blast
    then show ?thesis using q(1) c' False only_writes [OF q(2)]
      by (intro exI [of _ os] exI [of _ c'] exI [of _ 0]) (simp, blast)
  qed
qed

lemma tc_recv_op_event:
  assumes inv: "tc_inv s evs out" and en: "tc_enabled s Socks_recv_op"
  shows "\<exists>o' s'. tcp_client_event Socks_recv_op s = Some (o', s') \<and> tc_inv s' (evs @ [Socks_recv_op]) (out @ o')"
proof -
  define c where "c = ts_client s"
  note i = tc_inv_parts [OF tc_inv_history [OF inv, of Socks_recv_op, simplified] c_def]
  have st: "tc_socks_up c" "\<not> tc_socks_closed c" "si_state (tc_recv_if c) = State_operation_pending"
    using en i(3) by (auto simp: tc_enabled_def Let_def c_def tc_recv_if_ok_def si_inv_def)
  have fr: "\<not> tc_freed c" using i(1) st by (simp add: tc_shape_def)
  let ?i = "(tc_recv_if c)\<lparr>si_job_operation := False, si_state := State_busy\<rparr>"
  have "tc_recv_if_ok (c\<lparr>tc_recv_if := ?i\<rparr>)" using i(3) st by (auto simp: tc_recv_if_ok_def si_inv_def)
  moreover have "tc_flow_ok (c\<lparr>tc_recv_if := ?i\<rparr>)" using i(4) st by (auto simp: tc_flow_ok_def)
  moreover have "down_rest (c\<lparr>tc_recv_if := ?i\<rparr>) = down_rest c" using st by (simp add: down_rest_def)
  then have "tc_down (c\<lparr>tc_recv_if := ?i\<rparr>) (list_ex is_socks_error (evs @ [Socks_recv_op])) (socks_data (evs @ [Socks_recv_op])) (written out)"
    using i(8) by (simp add: tc_down_def)
  moreover have "tc_counts (s\<lparr>ts_client := c\<lparr>tc_recv_if := ?i\<rparr>\<rparr>)" using i(5) by (simp add: tc_counts_def c_def)
  ultimately have "tc_inv (s\<lparr>ts_client := c\<lparr>tc_recv_if := ?i\<rparr>\<rparr>) (evs @ [Socks_recv_op]) out"
    by (intro tc_invI) (use i not_flushed [OF i(10), folded c_def, OF fr] fr in simp_all)
  moreover have "tcp_client_event Socks_recv_op s = Some ([], s\<lparr>ts_client := c\<lparr>tc_recv_if := ?i\<rparr>\<rparr>)"
    using st by (simp add: tcp_client_event_def Let_def StreamRecvInterface_job_operation_def apply_quiet c_def)
  ultimately show ?thesis by simp
qed

lemma tc_recv_data_event:
  assumes inv: "tc_inv s evs out" and en: "tc_enabled s (Socks_recv_data d)"
  shows "\<exists>o' s'. tcp_client_event (Socks_recv_data d) s = Some (o', s') \<and> tc_inv s' (evs @ [Socks_recv_data d]) (out @ o')"
proof -
  define c where "c = ts_client s"
  let ?evs = "evs @ [Socks_recv_data d]"
  note i = tc_inv_parts [OF inv c_def]
  have st: "tc_socks_up c" "\<not> tc_socks_closed c" "si_state (tc_recv_if c) = State_busy" "d \<noteq> []" "int (length d) \<le> si_len (tc_recv_if c)"
    using en by (auto simp: tc_enabled_def Let_def c_def)
  have rif: "si_inv (tc_recv_if c)" "si_done_handler (tc_recv_if c)" "si_data (tc_recv_if c) = Some 0" "si_len (tc_recv_if c) = int CLIENT_SOCKS_RECV_BUF_SIZE"
      "tc_recv_buf_used c = -1"
    using i(3) st by (simp_all add: tc_recv_if_ok_def)
  have fr: "\<not> tc_freed c" using i(1) st by (simp add: tc_shape_def)
  have base: "length (tc_recv_buf c) = CLIENT_SOCKS_RECV_BUF_SIZE" using i(1) by (simp add: tc_shape_def tc_base_def)
  let ?b = "d @ drop (length d) (tc_recv_buf c)"
  let ?i = "(tc_recv_if c)\<lparr>si_done_len := int (length d), si_job_done := True, si_state := State_done_pending\<rparr>"
  let ?c = "c\<lparr>tc_recv_buf := ?b, tc_recv_if := ?i\<rparr>"
  have ow: "overwrite (tc_recv_buf c) 0 d = Some ?b" using st rif base by (simp add: overwrite_def)
  have "tc_shape ?c" using i(1) st rif base by (simp add: tc_shape_def tc_base_def)
  moreover have "tc_recv_if_ok ?c" using st rif by (simp add: tc_recv_if_ok_def si_inv_def)
  moreover have "tc_flow_ok ?c" using i(4) st rif by (simp add: tc_flow_ok_def)
  moreover have "down_rest c = []" "down_rest ?c = d" using st rif by (simp_all add: down_rest_def)
  then have "tc_down ?c (list_ex is_socks_error ?evs) (socks_data ?evs) (written out)"
    using i(8) st by (auto simp: tc_down_def)
  moreover have "tc_counts (s\<lparr>ts_client := ?c\<rparr>)" using i(5) by (simp add: tc_counts_def c_def)
  ultimately have "tc_inv (s\<lparr>ts_client := ?c\<rparr>) ?evs out"
    by (intro tc_invI) (use i not_flushed [OF i(10), folded c_def, OF fr] fr in \<open>simp_all add: tc_closed_def\<close>)
  moreover have "tcp_client_event (Socks_recv_data d) s = Some ([], s\<lparr>ts_client := ?c\<rparr>)"
    using st rif fr ow by (simp add: tcp_client_event_def Let_def StreamRecvInterface_Done_def apply_quiet c_def [symmetric])
  ultimately show ?thesis by simp
qed

lemma apply_no_recved: "recved os = 0 \<Longrightarrow> tc_apply s (os, c) = (os, s\<lparr>ts_unacked := ts_unacked s + length (written os), ts_client := c\<rparr>)"
  by (simp add: tc_apply_def)

lemma client_open_recv:
  assumes "client_open s c evs out" "tc_recv_if_ok (c\<lparr>tc_recv_if := i, tc_recv_buf_used := u, tc_recv_buf_sent := n, tc_recv_waiting := w, tc_recv_tcp_pending := p\<rparr>)"
  shows "client_open (s\<lparr>ts_unacked := z\<rparr>) (c\<lparr>tc_recv_if := i, tc_recv_buf_used := u, tc_recv_buf_sent := n, tc_recv_waiting := w, tc_recv_tcp_pending := p\<rparr>) evs out"
  using assms by (simp add: client_open_def tc_base_def)

lemma tc_recv_done_event:
  assumes inv: "tc_inv s evs out" and en: "tc_enabled s (Socks_recv_done ws output)"
  shows "\<exists>o' s'. tcp_client_event (Socks_recv_done ws output) s = Some (o', s') \<and> tc_inv s' (evs @ [Socks_recv_done ws output]) (out @ o')"
proof -
  define c where "c = ts_client s"
  let ?ev = "Socks_recv_done ws output"
  note inv' = tc_inv_history [OF inv, of ?ev, simplified]
  note i = tc_inv_parts [OF inv' c_def]
  have st: "tc_socks_up c" "\<not> tc_socks_closed c" "si_state (tc_recv_if c) = State_done_pending" "0 < si_done_len (tc_recv_if c)"
      "si_done_len (tc_recv_if c) \<le> int CLIENT_SOCKS_RECV_BUF_SIZE" "si_inv (tc_recv_if c)" "si_done_handler (tc_recv_if c)" "tc_recv_buf_used c = -1"
    using en i(3) by (auto simp: tc_enabled_def Let_def c_def tc_recv_if_ok_def si_inv_def)
  have fr: "\<not> tc_freed c" using i(1) st by (simp add: tc_shape_def)
  let ?i = "(tc_recv_if c)\<lparr>si_job_done := False, si_state := State_none\<rparr>"
  have job: "StreamRecvInterface_job_done (tc_recv_if c) = Some ?i" using st by (simp add: StreamRecvInterface_job_done_def)
  show ?thesis
  proof (cases "tc_client_closed c")
    case True
    let ?c = "c\<lparr>tc_recv_if := ?i\<rparr>"
    have "tcp_client_event ?ev s = Some ([], s\<lparr>ts_client := ?c\<rparr>)"
      using job st fr True by (simp add: tcp_client_event_def Let_def client_socks_recv_handler_done_def apply_quiet c_def [symmetric])
    moreover have "tc_recv_if_ok ?c" using st by (simp add: tc_recv_if_ok_def si_inv_def)
    moreover have "tc_flow_ok ?c" using True by (simp add: tc_flow_ok_def)
    moreover have "tc_down ?c (list_ex is_socks_error (evs @ [?ev])) (socks_data (evs @ [?ev])) (written out)"
      using i(8) True by (simp add: tc_down_def)
    moreover have "tc_counts (s\<lparr>ts_client := ?c\<rparr>)" using True by (simp add: tc_counts_def)
    ultimately have "tc_inv (s\<lparr>ts_client := ?c\<rparr>) (evs @ [?ev]) out"
      by (intro tc_invI) (use i not_flushed [OF i(10), folded c_def, OF fr] fr in simp_all)
    then show ?thesis using \<open>tcp_client_event ?ev s = _\<close> by simp
  next
    case False
    let ?c = "c\<lparr>tc_recv_if := ?i, tc_recv_buf_used := si_done_len (tc_recv_if c), tc_recv_buf_sent := 0, tc_recv_waiting := False\<rparr>"
    have rif: "tc_recv_if_ok ?c" using st by (simp add: tc_recv_if_ok_def si_inv_def)
    have "client_open s ?c (evs @ [?ev]) out"
      using client_open_recv [OF inv_client_open [OF inv', folded c_def, OF False], where z = "ts_unacked s" and p = "tc_recv_tcp_pending c"] rif by simp
    moreover have "tc_shape ?c" using i(1) by (simp add: tc_shape_def tc_base_def)
    moreover have "down_rest ?c = down_rest c" using st by (simp add: down_rest_def)
    then have "tc_down ?c (list_ex is_socks_error (evs @ [?ev])) (socks_data (evs @ [?ev])) (written out)" using i(8) by (simp add: tc_down_def)
    ultimately have so: "sending_out s ?c (evs @ [?ev]) out"
      using st i(4,5) False by (simp add: sending_out_def tc_flow_ok_def tc_counts_def c_def [symmetric])
    obtain o' c' r where h: "client_socks_recv_send_out ws output ?c = Some (o', c', r)" "recved o' = 0"
      and res: "r < 0 \<and> tc_inv (s\<lparr>ts_unacked := ts_unacked s + length (written o'), ts_client := c'\<rparr>) (evs @ [?ev]) (out @ o')
        \<or> r = 0 \<and> \<not> tc_freed c' \<and> (if tc_recv_buf_used c' = -1
            then \<exists>c''. client_socks_recv_initiate c' = Some c'' \<and> tc_inv (s\<lparr>ts_unacked := ts_unacked s + length (written o'), ts_client := c''\<rparr>) (evs @ [?ev]) (out @ o')
            else tc_inv (s\<lparr>ts_unacked := ts_unacked s + length (written o'), ts_client := c'\<rparr>) (evs @ [?ev]) (out @ o'))"
      using send_out_ok [OF so, of ws "output"] st by (auto simp: Let_def split: if_splits)
    have "tcp_client_event ?ev s = do { r \<leftarrow> (if r < 0 then Some (o', c') else do { cassert (\<not> tc_freed c');
        if tc_recv_buf_used c' = -1 then do { c \<leftarrow> client_socks_recv_initiate c'; Some (o', c) } else Some (o', c') }); Some (tc_apply s r) }"
      using job st fr False h(1) by (simp add: tcp_client_event_def Let_def client_socks_recv_handler_done_def c_def [symmetric])
    then show ?thesis using res apply_no_recved [OF h(2)] by (auto split: if_splits)
  qed
qed

lemma sync_inv:
  assumes "tc_inv (s\<lparr>ts_client := c\<rparr>) evs out" "\<not> tc_client_closed c"
  shows "tc_inv (s\<lparr>ts_client := c\<lparr>tc_dead_client := Some False\<rparr>, ts_sync := Some cb\<rparr>) evs out"
  using assms by (simp add: tc_inv_def tc_counts_def tc_sync_ok_def tc_flushed_def)

lemma sent_open:
  assumes inv: "tc_inv s evs out" and en: "tc_enabled s (Tcp_sent ws output close_ok len)"
  shows "ts_sync s = None" "\<not> tc_client_closed (ts_client s)" "\<not> tc_freed (ts_client s)" "tc_socks_up (ts_client s)" "0 < len"
    "int len \<le> tc_recv_tcp_pending (ts_client s)" "int (ts_unacked s) = tc_recv_tcp_pending (ts_client s)" "int (ts_unread s) = tc_buf_used (ts_client s)"
  using en tc_inv_parts [OF inv refl] by (auto simp: tc_enabled_def Let_def tc_shape_def tc_counts_def split: if_splits)

lemma tc_sent_waiting:
  assumes inv: "tc_inv s evs out" and en: "tc_enabled s (Tcp_sent ws output close_ok len)" and wait: "tc_recv_buf_used (ts_client s) > 0"
    and ev: "ev = Tcp_sent ws output close_ok len"
  shows "\<exists>o' s'. tcp_client_event ev s = Some (o', s') \<and> tc_inv s' (evs @ [ev]) (out @ o')"
proof -
  define c where "c = ts_client s"
  have inv': "tc_inv s (evs @ [ev]) out" using inv by (rule tc_inv_history) (simp_all add: ev)
  note i = tc_inv_parts [OF inv' c_def]
  note st = sent_open [OF inv en, folded c_def]
  have w: "tc_recv_buf_used c > 0" "tc_recv_buf_used c \<noteq> -1" using wait by (simp_all add: c_def)
  have fl: "tc_recv_waiting c" "0 \<le> tc_recv_buf_sent c" "tc_recv_buf_sent c < tc_recv_buf_used c" "tc_recv_buf_used c \<le> int CLIENT_SOCKS_RECV_BUF_SIZE"
    using i(4) st w by (simp_all add: tc_flow_ok_def)
  let ?s = "s\<lparr>ts_unacked := ts_unacked s - len\<rparr>"
  let ?c = "c\<lparr>tc_recv_tcp_pending := tc_recv_tcp_pending c - int len, tc_recv_waiting := False\<rparr>"
  have "client_open ?s ?c (evs @ [ev]) out"
    using inv_client_open [OF inv', folded c_def, OF st(2)] by (simp add: client_open_def tc_base_def tc_recv_if_ok_def)
  moreover have "tc_shape ?c" using i(1) by (simp add: tc_shape_def tc_base_def)
  moreover have rest: "down_rest ?c = down_rest c" by (simp add: down_rest_def)
  have "tc_down ?c (list_ex is_socks_error (evs @ [ev])) (socks_data (evs @ [ev])) (written out)"
    using i(8) by (simp add: tc_down_def rest)
  moreover have "\<not> tc_socks_closed c \<longrightarrow> si_state (tc_recv_if c) = State_none" using i(3) st w by (auto simp: tc_recv_if_ok_def)
  ultimately have "sending_out ?s ?c (evs @ [ev]) out" using st fl by (simp add: sending_out_def)
  then obtain o' c' r where h: "client_socks_recv_send_out ws output ?c = Some (o', c', r)" "recved o' = 0" "Syncing \<notin> set o'"
      and res: "r < 0 \<and> tc_inv (?s\<lparr>ts_unacked := ts_unacked ?s + length (written o'), ts_client := c'\<rparr>) (evs @ [ev]) (out @ o')
        \<or> r = 0 \<and> \<not> tc_freed c' \<and> tc_recv_tcp_pending c' > 0 \<and> (if tc_recv_buf_used c' = -1 \<and> \<not> tc_socks_closed c'
            then \<exists>c''. client_socks_recv_initiate c' = Some c'' \<and> \<not> tc_client_closed c'' \<and>
              tc_inv (?s\<lparr>ts_unacked := ts_unacked ?s + length (written o'), ts_client := c''\<rparr>) (evs @ [ev]) (out @ o')
            else tc_inv (?s\<lparr>ts_unacked := ts_unacked ?s + length (written o'), ts_client := c'\<rparr>) (evs @ [ev]) (out @ o'))"
    using send_out_ok [of ?s ?c "evs @ [ev]" out ws "output"] by (auto simp: Let_def split: if_splits)
  let ?r = "if r < 0 then Some (o' @ [Returned ERR_ABRT], c')
     else do { cassert (\<not> tc_freed c'); cassert (tc_recv_tcp_pending c' > 0);
       if tc_recv_buf_used c' = -1 \<and> \<not> tc_socks_closed c'
       then do { c \<leftarrow> client_socks_recv_initiate c'; Some (o' @ [Syncing], c\<lparr>tc_dead_client := Some False\<rparr>) }
       else Some (o' @ [Returned ERR_OK], c') }"
  have run: "tcp_client_event ev s = do { r \<leftarrow> ?r; Some (tc_callback In_sent (tc_apply ?s r)) }"
    using st w fl h(1) by (simp add: tcp_client_event_def ev client_sent_func_def c_def [symmetric])
  have ap: "tc_callback In_sent (tc_apply ?s (o' @ os, c)) = (o' @ os,
      if Syncing \<in> set os then ?s\<lparr>ts_unacked := ts_unacked ?s + length (written o'), ts_client := c, ts_sync := Some In_sent\<rparr>
      else ?s\<lparr>ts_unacked := ts_unacked ?s + length (written o'), ts_client := c\<rparr>)" if "quiet os" for os c
    using h(2,3) quiet_data [OF that] by (simp add: tc_callback_def tc_apply_def)
  consider "r < 0" | "r = 0" "tc_recv_buf_used c' = -1 \<and> \<not> tc_socks_closed c'" | "r = 0" "\<not> (tc_recv_buf_used c' = -1 \<and> \<not> tc_socks_closed c')"
    using res by auto
  then show ?thesis
  proof cases
    case 1
    then show ?thesis using run res tc_inv_note [of _ "evs @ [ev]" "out @ o'" "[Returned ERR_ABRT]"] by (simp add: ap)
  next
    case 2
    then obtain c'' where c'': "client_socks_recv_initiate c' = Some c''" "\<not> tc_client_closed c''"
        "tc_inv (?s\<lparr>ts_unacked := ts_unacked ?s + length (written o'), ts_client := c''\<rparr>) (evs @ [ev]) (out @ o')" using res by auto
    show ?thesis using run res 2 c''(1) tc_inv_note [OF sync_inv [OF c''(3,2), of In_sent], of "[Syncing]"] by (simp add: ap)
  next
    case 3
    then show ?thesis using run res tc_inv_note [of _ "evs @ [ev]" "out @ o'" "[Returned ERR_OK]"] by (auto simp: ap)
  qed
qed

lemma tc_sent_event:
  assumes inv: "tc_inv s evs out" and en: "tc_enabled s (Tcp_sent ws output close_ok len)" and ev: "ev = Tcp_sent ws output close_ok len"
  shows "\<exists>o' s'. tcp_client_event ev s = Some (o', s') \<and> tc_inv s' (evs @ [ev]) (out @ o')"
proof (cases "tc_recv_buf_used (ts_client s) > 0")
  case True
  then show ?thesis using tc_sent_waiting [OF inv en _ ev] by blast
next
  case False
  define c where "c = ts_client s"
  have inv': "tc_inv s (evs @ [ev]) out" using inv by (rule tc_inv_history) (simp_all add: ev)
  note i = tc_inv_parts [OF inv' c_def]
  note st = sent_open [OF inv en, folded c_def]
  let ?s = "s\<lparr>ts_unacked := ts_unacked s - len\<rparr>" and ?c = "c\<lparr>tc_recv_tcp_pending := tc_recv_tcp_pending c - int len\<rparr>"
  have used: "tc_recv_buf_used c = -1" using i(4) st False by (auto simp: tc_flow_ok_def c_def split: if_splits)
  have opn: "client_open ?s ?c (evs @ [ev]) out"
    using inv_client_open [OF inv', folded c_def, OF st(2)] by (simp add: client_open_def tc_base_def tc_recv_if_ok_def)
  show ?thesis
  proof (cases "tc_socks_closed c \<and> tc_recv_tcp_pending c = int len")
    case True
    then have "list_ex is_eof (evs @ [ev]) \<or> tc_socks_closed ?c \<and>
        (\<not> list_ex is_socks_error (evs @ [ev]) \<longrightarrow> written out = socks_data (evs @ [ev]) \<and> ts_unacked ?s = 0)"
      using i(8) st used by (simp add: tc_down_def down_rest_def)
    then obtain o' c' where h: "client_free_client close_ok ?c = Some (o', c')" "tc_inv (?s\<lparr>ts_client := c'\<rparr>) (evs @ [ev]) (out @ o')" "set o' \<subseteq> teardown_acts"
      using free_client_inv [OF opn, of close_ok] by blast
    have "Syncing \<notin> set o'" "quiet o'" using h(3) quiet_subset by auto
    then have "tcp_client_event ev s = Some (o' @ [Returned ERR_ABRT], ?s\<lparr>ts_client := c'\<rparr>)"
      using st used True h(1) by (simp add: tcp_client_event_def ev client_sent_func_def apply_quiet tc_callback_def c_def [symmetric])
    then show ?thesis using tc_inv_note [OF h(2), of "[Returned ERR_ABRT]"] by simp
  next
    case False
    have shape: "tc_shape ?c" using i(1) by (simp add: tc_shape_def tc_base_def)
    have flow: "tc_flow_ok ?c" using i(4) False st used by (auto simp: tc_flow_ok_def)
    have rest: "down_rest ?c = down_rest c" by (simp add: down_rest_def)
    have down: "tc_down ?c (list_ex is_socks_error (evs @ [ev])) (socks_data (evs @ [ev])) (written out)" using i(8) rest by (simp add: tc_down_def)
    have "tc_inv (?s\<lparr>ts_client := ?c\<rparr>) (evs @ [ev]) out" by (rule client_open_inv [OF opn shape flow down]) (use st in simp_all)
    moreover have "tcp_client_event ev s = Some ([Returned ERR_OK], ?s\<lparr>ts_client := ?c\<rparr>)"
      using st used False by (auto simp: tcp_client_event_def ev client_sent_func_def apply_quiet tc_callback_def c_def [symmetric])
    ultimately show ?thesis using tc_inv_note [of _ "evs @ [ev]" out "[Returned ERR_OK]"] by simp
  qed
qed

lemma tc_callback_end_event:
  assumes inv: "tc_inv s evs out" and en: "tc_enabled s Callback_end"
  shows "\<exists>o' s'. tcp_client_event Callback_end s = Some (o', s') \<and> tc_inv s' (evs @ [Callback_end]) (out @ o')"
proof -
  define c where "c = ts_client s"
  obtain cb where cb: "ts_sync s = Some cb" using en by (auto simp: tc_enabled_def)
  note i = tc_inv_parts [OF tc_inv_history [OF inv, of Callback_end, simplified] c_def]
  have dead: "tc_dead_client c = Some (tc_client_closed c)" using i(6) cb by (simp add: tc_sync_ok_def)
  define os where "os = (if tc_client_closed c then [Returned ERR_ABRT] else if cb = In_recv then [Pbuf_free, Returned ERR_OK] else [Returned ERR_OK])"
  let ?c = "if tc_client_closed c then c else c\<lparr>tc_dead_client := None\<rparr>"
  have "\<not> tc_client_closed c \<longrightarrow> \<not> tc_freed c" using i(1) by (simp add: tc_shape_def)
  then have "tcp_client_event Callback_end s = Some (os, s\<lparr>ts_sync := None, ts_client := ?c\<rparr>)"
    using cb dead by (simp add: tcp_client_event_def client_recv_func_end_def client_sent_func_end_def os_def apply_quiet c_def [symmetric])
  moreover have "tc_inv (s\<lparr>ts_sync := None, ts_client := ?c\<rparr>) (evs @ [Callback_end]) out"
  proof (cases "tc_client_closed c")
    case True
    then show ?thesis using i by (simp add: tc_inv_def tc_counts_def tc_sync_ok_def tc_flushed_def c_def)
  next
    case False
    then show ?thesis using i by (simp add: tc_inv_def tc_counts_def tc_sync_ok_def tc_flushed_def c_def)
  qed
  ultimately show ?thesis using tc_inv_note [of _ "evs @ [Callback_end]" out os] by (auto simp: os_def)
qed

lemma tc_socks_gone_event:
  assumes inv: "tc_inv s evs out" and en: "tc_enabled s (Socks_event close_ok event)" and up: "event \<noteq> BSOCKSCLIENT_EVENT_UP"
    and ev: "ev = Socks_event close_ok event"
  shows "\<exists>o' s'. tcp_client_event ev s = Some (o', s') \<and> tc_inv s' (evs @ [ev]) (out @ o')"
proof -
  have inv': "tc_inv s (evs @ [ev]) out" using inv by (rule tc_inv_history) (simp_all add: ev)
  have st: "\<not> tc_socks_closed (ts_client s)" "event = BSOCKSCLIENT_EVENT_ERROR_CLOSED \<longrightarrow> tc_socks_up (ts_client s) \<and> si_state (tc_recv_if (ts_client s)) = State_busy"
    using en by (auto simp: tc_enabled_def Let_def)
  then have fr: "\<not> tc_freed (ts_client s)" using tc_inv_parts(1) [OF inv refl] by (simp add: tc_shape_def)
  have "list_ex is_socks_end (evs @ [ev])" "list_ex is_socks_error (evs @ [ev]) \<or> tc_socks_up (ts_client s) \<and> si_state (tc_recv_if (ts_client s)) \<noteq> State_done_pending"
    using up st by (cases event; simp add: ev)+
  then obtain o' c' where h: "client_free_socks close_ok (ts_client s) = Some (o', c')" "tc_inv (s\<lparr>ts_client := c'\<rparr>) (evs @ [ev]) (out @ o')"
      "set o' \<subseteq> teardown_acts"
    using socks_end_inv [OF inv' st(1), of close_ok] by blast
  have "quiet o'" using h(3) by (rule quiet_subset)
  then have "tcp_client_event ev s = Some (o', s\<lparr>ts_client := c'\<rparr>)"
    using up st fr h(1) by (cases event) (simp_all add: tcp_client_event_def ev client_socks_handler_def apply_quiet)
  then show ?thesis using h(2) by blast
qed

lemma tc_socks_up_event:
  assumes inv: "tc_inv s evs out" and en: "tc_enabled s (Socks_event close_ok BSOCKSCLIENT_EVENT_UP)" and ev: "ev = Socks_event close_ok BSOCKSCLIENT_EVENT_UP"
  shows "\<exists>o' s'. tcp_client_event ev s = Some (o', s') \<and> tc_inv s' (evs @ [ev]) (out @ o')"
proof -
  define c where "c = ts_client s"
  have "tc_inv s (evs @ [ev]) out" using inv by (rule tc_inv_history) (simp_all add: ev)
  note i = tc_inv_parts [OF this c_def]
  have st: "\<not> tc_socks_closed c" "\<not> tc_socks_up c" using en by (auto simp: tc_enabled_def Let_def c_def)
  have fr: "\<not> tc_freed c" using i(1) st by (simp add: tc_shape_def)
  let ?new = "StreamPassInterface_Init\<lparr>si_done_handler := True\<rparr>"
  define si where "si = (if tc_buf_used c > 0
    then ?new\<lparr>si_data := Some 0, si_len := tc_buf_used c, si_job_operation := True, si_state := State_operation_pending\<rparr> else ?new)"
  define ri where "ri = (if tc_client_closed c then StreamRecvInterface_Init\<lparr>si_done_handler := True\<rparr>
    else StreamRecvInterface_Init\<lparr>si_done_handler := True, si_data := Some 0, si_len := int CLIENT_SOCKS_RECV_BUF_SIZE,
      si_job_operation := True, si_state := State_operation_pending\<rparr>)"
  define sent where "sent = (tc_sent_cb c \<or> \<not> tc_client_closed c)"
  let ?c = "c\<lparr>tc_send_if := si, tc_recv_if := ri, tc_recv_buf_used := -1, tc_recv_tcp_pending := 0, tc_sent_cb := sent, tc_socks_up := True\<rparr>"
  note defs = StreamPassInterface_Init_def StreamRecvInterface_Init_def StreamPassInterface_Sender_Init_def StreamRecvInterface_Receiver_Init_def
  have "tcp_client_event ev s = Some ([], s\<lparr>ts_client := ?c\<rparr>)"
    using st fr by (simp add: tcp_client_event_def ev client_socks_handler_def defs client_send_to_socks_def client_socks_recv_initiate_def
        StreamPassInterface_Sender_Send_def StreamRecvInterface_Receiver_Recv_def apply_quiet si_def ri_def sent_def c_def [symmetric])
  moreover have "tc_shape ?c" using i(1) st by (cases "tc_client_closed c") (simp_all add: tc_shape_def tc_base_def sent_def)
  moreover have "0 \<le> tc_buf_used c" "tc_client_closed c \<longrightarrow> tc_buf_used c > 0" using i(1,2) st by (simp_all add: tc_shape_def tc_base_def tc_send_ok_def)
  then have "tc_send_ok ?c" by (cases "tc_buf_used c > 0") (simp_all add: tc_send_ok_def si_def si_inv_def defs)
  moreover have "tc_recv_if_ok ?c" by (cases "tc_client_closed c") (simp_all add: tc_recv_if_ok_def ri_def si_inv_def defs)
  moreover have "tc_flow_ok ?c" using st by (simp add: tc_flow_ok_def ri_def)
  moreover have "up_rest ?c = up_rest c" using st by (simp add: up_rest_def si_def defs)
  then have "tc_up ?c (delivered_data (evs @ [ev])) (took out)" using i(7) by (simp add: tc_up_def)
  moreover have "down_rest ?c = down_rest c" using st by (simp add: down_rest_def ri_def defs)
  then have "tc_down ?c (list_ex is_socks_error (evs @ [ev])) (socks_data (evs @ [ev])) (written out)" using i(8) by (simp add: tc_down_def)
  moreover have "tc_counts (s\<lparr>ts_client := ?c\<rparr>)" using i(5) st by (simp add: tc_counts_def c_def)
  moreover have "tc_sync_ok (ts_sync s) ?c" using i(6) by (simp add: tc_sync_ok_def)
  moreover have "tc_closed ?c (evs @ [ev]) out" using i(9) by (simp add: tc_closed_def)
  ultimately show ?thesis using not_flushed [OF i(10), folded c_def, OF fr] fr tc_invI [of ?c s "evs @ [ev]" out] by simp
qed

interpretation tcpc: event_system tc_enabled tcp_client_event tc_inv
proof
  fix s evs out ev
  assume inv: "tc_inv s evs out" and en: "tc_enabled s ev"
  show "\<exists>o' s'. tcp_client_event ev s = Some (o', s') \<and> tc_inv s' (evs @ [ev]) (out @ o')"
  proof (cases ev)
    case (Tcp_recv close_ok p)
    then show ?thesis using inv en tc_eof_event tc_data_event by (cases p) blast+
  next
    case (Socks_event close_ok event)
    then show ?thesis using inv en tc_socks_up_event tc_socks_gone_event by (cases event) blast+
  qed (use inv en in \<open>blast intro: tc_err_event tc_sent_event tc_callback_end_event send_op_event send_took_event send_done_event
         tc_recv_op_event tc_recv_data_event tc_recv_done_event\<close>)+
qed

lemma accepted_inv:
  assumes "length (tc_buf mem) = TCP_WND" "length (tc_recv_buf mem) = CLIENT_SOCKS_RECV_BUF_SIZE"
  shows "tc_inv (accepted mem) [] []"
  using assms by (simp add: accepted_def tc_inv_def tc_shape_def tc_base_def tc_send_ok_def tc_recv_if_ok_def tc_flow_ok_def tc_counts_def tc_sync_ok_def
      tc_up_def up_rest_def tc_down_def down_rest_def tc_closed_def tc_flushed_def)

lemma tcp_client_run:
  assumes "length (tc_buf mem) = TCP_WND" "length (tc_recv_buf mem) = CLIENT_SOCKS_RECV_BUF_SIZE"
    and "legal_events tc_enabled tcp_client_event evs (accepted mem)"
  shows "\<exists>out s'. run_events tcp_client_event evs (accepted mem) = Some (out, s') \<and> tc_inv s' evs out"
  using tcpc.run_inv [OF accepted_inv [OF assms(1,2)] assms(3)] .

section \<open>Properties\<close>

definition tc_example_memory :: tcp_client where
  "tc_example_memory = \<lparr>tc_err_cb = False, tc_recv_cb = False, tc_sent_cb = False, tc_client_closed = True, tc_buf = replicate TCP_WND 0, tc_buf_used = 9,
     tc_socks_up = True, tc_socks_closed = True, tc_send_if = StreamPassInterface_Init, tc_recv_if = StreamRecvInterface_Init,
     tc_recv_buf = replicate CLIENT_SOCKS_RECV_BUF_SIZE 0, tc_recv_buf_used = 0, tc_recv_buf_sent = 0, tc_recv_waiting = False, tc_recv_tcp_pending = 0,
     tc_dead_client = None, tc_freed = True\<rparr>"

definition tc_example_up :: "tc_event list" where
  "tc_example_up = [Callback_end, Socks_event True BSOCKSCLIENT_EVENT_UP, Tcp_recv True (Some [1, 2])]"

definition tc_example_end :: "tc_event list" where
  "tc_example_end = tc_example_up @ [Callback_end, Socks_send_op, Socks_send_took 2, Socks_send_done True, Socks_recv_op, Socks_recv_data [7],
     Socks_recv_done [(100, ERR_OK)] ERR_OK, Socks_recv_op, Socks_event True BSOCKSCLIENT_EVENT_ERROR_CLOSED, Tcp_sent [] ERR_OK True 1]"

lemmas tc_eval = accepted_def tc_example_memory_def tc_enabled_def tcp_client_event_def tc_apply_def tc_callback_def Let_def overwrite_def subbytes_def
  StreamPassInterface_Init_def StreamPassInterface_Sender_Init_def StreamPassInterface_Sender_Send_def StreamPassInterface_job_operation_def
  StreamPassInterface_Done_def StreamPassInterface_job_done_def
  StreamRecvInterface_Init_def StreamRecvInterface_Receiver_Init_def StreamRecvInterface_Receiver_Recv_def StreamRecvInterface_job_operation_def
  StreamRecvInterface_Done_def StreamRecvInterface_job_done_def
  client_recv_func_def client_recv_func_end_def client_send_to_socks_def client_socks_send_handler_done_def client_socks_handler_def
  client_socks_recv_initiate_def client_socks_recv_handler_done_def client_socks_recv_send_out_def client_sent_func_def client_sent_func_end_def
  handle_freed_eq free_client_eq free_socks_eq tc_example_up_def tc_example_end_def

lemma tc_example_legal:
  "legal_events tc_enabled tcp_client_event tc_example_up (accepted tc_example_memory)"
  "legal_events tc_enabled tcp_client_event tc_example_end (accepted tc_example_memory)"
  by (simp_all add: tc_eval)

lemma tc_example_buffers [simp]:
  "length (tc_buf tc_example_memory) = TCP_WND" "length (tc_recv_buf tc_example_memory) = CLIENT_SOCKS_RECV_BUF_SIZE"
  by (simp_all add: tc_example_memory_def)

text \<open>
  C1. A TCP client of the tunnel is relayed faithfully: whatever the order in which the network stack calls back, the jobs run, the SOCKS
  connection takes and delivers bytes and both sides fail or close, no assertion fails, no access leaves a buffer and nothing is used after it was
  freed. What SOCKS took is a prefix of what the client sent, and the rest is in the buffer until SOCKS is closed; what was written to
  the client is a prefix of what SOCKS delivered, and the rest is in the buffer until the client is closed or SOCKS reports an error.
\<close>

theorem tcp_client_relays:
  assumes "length (tc_buf mem) = TCP_WND" "length (tc_recv_buf mem) = CLIENT_SOCKS_RECV_BUF_SIZE"
    and "legal_events tc_enabled tcp_client_event evs (accepted mem)"
  shows "\<exists>out s'. run_events tcp_client_event evs (accepted mem) = Some (out, s') \<and>
    prefix (took out) (delivered_data evs) \<and> prefix (written out) (socks_data evs) \<and>
    (\<not> tc_socks_closed (ts_client s') \<longrightarrow> delivered_data evs = took out @ up_rest (ts_client s')) \<and>
    (\<not> tc_client_closed (ts_client s') \<and> \<not> list_ex is_socks_error evs \<longrightarrow> socks_data evs = written out @ down_rest (ts_client s'))"
proof -
  obtain out s' where r: "run_events tcp_client_event evs (accepted mem) = Some (out, s')" "tc_inv s' evs out"
    using tcp_client_run [OF assms] by blast
  note i = tc_inv_parts [OF r(2) refl]
  show ?thesis using r(1) i(7,8) by (intro exI [of _ out] exI [of _ s']) (simp add: tc_up_def tc_down_def)
qed

theorem tcp_client_relays_witness:
  "\<exists>out s'. run_events tcp_client_event tc_example_up (accepted tc_example_memory) = Some (out, s') \<and> delivered_data tc_example_up = took out @ up_rest (ts_client s') \<and>
     up_rest (ts_client s') = [1, 2]"
proof -
  have "case run_events tcp_client_event tc_example_up (accepted tc_example_memory) of None \<Rightarrow> False
      | Some (out, s) \<Rightarrow> \<not> tc_socks_closed (ts_client s) \<and> took out = []"
    by (simp add: tc_eval)
  then show ?thesis using tcp_client_relays [OF tc_example_buffers tc_example_legal(1)] by (auto simp: tc_example_up_def)
qed

text \<open>
  C4. Both sides of a TCP client are released exactly once: the control block is closed, aborted or lost once, SOCKS is freed once, and
  the client itself is freed when both are gone and not before. If SOCKS is freed although it did not end, then because the client closed and SOCKS has taken every
  byte the client sent; if the control block is closed although the client did not close, then because SOCKS ended, and unless it ended with an error every byte it delivered was written to
  the client and acknowledged. As long as the client is not freed, \<^term>\<open>client_murder\<close> releases what is left.
\<close>

theorem tcp_client_closes:
  assumes "length (tc_buf mem) = TCP_WND" "length (tc_recv_buf mem) = CLIENT_SOCKS_RECV_BUF_SIZE"
    and "legal_events tc_enabled tcp_client_event evs (accepted mem)" "run_events tcp_client_event evs (accepted mem) = Some (out, s')" "c = ts_client s'"
  shows "(tc_freed c \<longleftrightarrow> tc_client_closed c \<and> tc_socks_closed c) \<and>
    count_list out Socks_free = of_bool (tc_socks_closed c) \<and> count_list out Dealloc = of_bool (tc_freed c) \<and>
    count_list out Tcp_close + count_list out Tcp_abort + length (filter is_tcp_err evs) = of_bool (tc_client_closed c) \<and>
    (Socks_free \<in> set out \<and> \<not> list_ex is_socks_end evs \<longrightarrow> tc_freed c \<and> took out = delivered_data evs) \<and>
    (Tcp_close \<in> set out \<and> \<not> list_ex is_eof evs \<longrightarrow> tc_freed c \<and> (\<not> list_ex is_socks_error evs \<longrightarrow> written out = socks_data evs \<and> ts_unacked s' = 0)) \<and>
    (\<not> tc_freed c \<longrightarrow> (\<exists>o' c'. client_murder c = Some (o', c') \<and> tc_freed c' \<and> count_list (out @ o') Socks_free = 1 \<and> count_list (out @ o') Dealloc = 1 \<and>
       count_list (out @ o') Tcp_close + count_list (out @ o') Tcp_abort + length (filter is_tcp_err evs) = 1))"
proof -
  have "tc_inv s' evs out" using tcp_client_run [OF assms(1-3)] assms(4) by auto
  note i = tc_inv_parts [OF this assms(5)]
  have "\<exists>o' c'. client_murder c = Some (o', c') \<and> tc_freed c' \<and> count_list (out @ o') Socks_free = 1 \<and> count_list (out @ o') Dealloc = 1 \<and>
       count_list (out @ o') Tcp_close + count_list (out @ o') Tcp_abort + length (filter is_tcp_err evs) = 1" if "\<not> tc_freed c"
    using that i(9) by (simp add: client_murder_def client_dealloc_def tc_closed_def)
  then show ?thesis using i(1,9,10) assms(5) by (simp add: tc_shape_def tc_closed_def tc_flushed_def)
qed

theorem tcp_client_closes_witness:
  "\<exists>out s'. run_events tcp_client_event tc_example_end (accepted tc_example_memory) = Some (out, s') \<and> tc_freed (ts_client s') \<and>
     count_list out Dealloc = 1 \<and> Tcp_close \<in> set out \<and> written out = socks_data tc_example_end \<and> ts_unacked s' = 0"
proof -
  have "case run_events tcp_client_event tc_example_end (accepted tc_example_memory) of None \<Rightarrow> False
      | Some (out, s) \<Rightarrow> tc_freed (ts_client s) \<and> Tcp_close \<in> set out"
    by (simp add: tc_eval)
  then obtain out s' where "run_events tcp_client_event tc_example_end (accepted tc_example_memory) = Some (out, s')" "tc_freed (ts_client s')" "Tcp_close \<in> set out"
    by (auto split: option.splits)
  moreover have "\<not> list_ex is_eof tc_example_end" "\<not> list_ex is_socks_error tc_example_end" by (simp_all add: tc_example_end_def tc_example_up_def)
  ultimately show ?thesis using tcp_client_closes [OF tc_example_buffers tc_example_legal(2) _ refl] by (intro exI [of _ out] exI [of _ s']) auto
qed

text \<open>
  C8. No wake-up is lost between the two sides of a TCP client. Data from the client that waits is being sent to SOCKS as soon as it is up;
  data from SOCKS that waits is about to be written or an acknowledgement from the client is outstanding that will be reported; otherwise
  more is being received from SOCKS. A client of which one side is gone remains only for the sake of such data.
\<close>

theorem tcp_client_never_stuck:
  assumes "length (tc_buf mem) = TCP_WND" "length (tc_recv_buf mem) = CLIENT_SOCKS_RECV_BUF_SIZE"
    and "legal_events tc_enabled tcp_client_event evs (accepted mem)" "run_events tcp_client_event evs (accepted mem) = Some (out, s')" "c = ts_client s'"
    and "\<not> tc_freed c"
  shows "(tc_socks_up c \<and> \<not> tc_socks_closed c \<and> tc_buf_used c > 0 \<longrightarrow>
      tc_enabled s' Socks_send_op \<or> tc_enabled s' (Socks_send_took 1) \<or> tc_enabled s' (Socks_send_done close_ok)) \<and>
    (tc_socks_up c \<and> \<not> tc_client_closed c \<and> down_rest c \<noteq> [] \<longrightarrow> tc_enabled s' (Socks_recv_done ws output) \<or> 0 < ts_unacked s' \<and> tc_sent_cb c) \<and>
    (tc_socks_up c \<and> \<not> tc_client_closed c \<and> \<not> tc_socks_closed c \<and> down_rest c = [] \<longrightarrow> tc_enabled s' Socks_recv_op \<or> tc_enabled s' (Socks_recv_data [x])) \<and>
    (tc_client_closed c \<longrightarrow> \<not> tc_socks_closed c \<and> tc_buf_used c > 0) \<and> (tc_socks_closed c \<longrightarrow> 0 < ts_unacked s' \<and> tc_sent_cb c)"
proof -
  have "tc_inv s' evs out" using tcp_client_run [OF assms(1-3)] assms(4) by auto
  note i = tc_inv_parts [OF this assms(5)]
  have send: "tc_enabled s' Socks_send_op \<or> tc_enabled s' (Socks_send_took 1) \<or> tc_enabled s' (Socks_send_done close_ok)"
    if "tc_socks_up c" "\<not> tc_socks_closed c" "tc_buf_used c > 0"
    using that i(2) assms(5) by (cases "si_state (tc_send_if c)") (auto simp: tc_enabled_def tc_send_ok_def si_inv_def)
  have len: "length (tc_recv_buf c) = CLIENT_SOCKS_RECV_BUF_SIZE" using i(1) by (simp add: tc_shape_def tc_base_def)
  have unacked: "0 < ts_unacked s' \<and> tc_sent_cb c" if "tc_socks_up c" "\<not> tc_client_closed c" "tc_recv_tcp_pending c > 0"
    using that i(1,5) assms(5) by (simp add: tc_shape_def tc_counts_def)
  have wait: "tc_enabled s' (Socks_recv_done ws output) \<or> tc_recv_tcp_pending c > 0" if "tc_socks_up c" "\<not> tc_client_closed c" "down_rest c \<noteq> []"
    using that i(3,4) assms(5) by (auto simp: down_rest_def tc_enabled_def tc_flow_ok_def tc_recv_if_ok_def si_inv_def split: if_splits)
  have recv: "tc_enabled s' Socks_recv_op \<or> tc_enabled s' (Socks_recv_data [x])"
    if "tc_socks_up c" "\<not> tc_client_closed c" "\<not> tc_socks_closed c" "down_rest c = []"
    using that i(3,4) assms(5) len
    by (cases "si_state (tc_recv_if c)") (auto simp: down_rest_def tc_enabled_def tc_flow_ok_def tc_recv_if_ok_def si_inv_def split: if_splits)
  have "tc_client_closed c \<longrightarrow> \<not> tc_socks_closed c \<and> tc_buf_used c > 0" using i(1,2) assms(6) by (auto simp: tc_shape_def tc_send_ok_def)
  moreover have "tc_socks_closed c \<longrightarrow> tc_socks_up c \<and> \<not> tc_client_closed c \<and> tc_recv_tcp_pending c > 0" using i(1,4) assms(6) by (auto simp: tc_shape_def tc_flow_ok_def)
  ultimately show ?thesis using send wait recv unacked by blast
qed

theorem tcp_client_never_stuck_witness:
  "\<exists>out s'. run_events tcp_client_event tc_example_up (accepted tc_example_memory) = Some (out, s') \<and> tc_buf_used (ts_client s') = 2 \<and>
     (tc_enabled s' Socks_send_op \<or> tc_enabled s' (Socks_send_took 1) \<or> tc_enabled s' (Socks_send_done True))"
proof -
  have "case run_events tcp_client_event tc_example_up (accepted tc_example_memory) of None \<Rightarrow> False
      | Some (out, s) \<Rightarrow> \<not> tc_freed (ts_client s) \<and> \<not> tc_socks_closed (ts_client s) \<and> tc_socks_up (ts_client s) \<and> tc_buf_used (ts_client s) = 2"
    by (simp add: tc_eval)
  then obtain out s' where s: "run_events tcp_client_event tc_example_up (accepted tc_example_memory) = Some (out, s')"
      "\<not> tc_freed (ts_client s')" "\<not> tc_socks_closed (ts_client s')" "tc_socks_up (ts_client s')" "tc_buf_used (ts_client s') = 2"
    by (auto split: option.splits)
  have "0 < (2 :: int)" by simp
  then show ?thesis using tcp_client_never_stuck [OF tc_example_buffers tc_example_legal(1) s(1) refl s(2), where close_ok = True and ws = "[]" and x = 0] s by auto
qed








end
