(* ===== verification/Options.thy ===== *)
theory Options
  imports Socket_Address Socks_Client
begin

text \<open>
  The command line of \<open>tun2socks\<close> (\<open>tun2socks/tun2socks.c\<close>, \<open>misc/loglevel.h\<close>): \<open>parse_arguments\<close> and
  \<open>process_arguments\<close>. A command line is the list of its words; the names of the log channels and the functions
  \<open>getaddrinfo\<close> and \<open>read_file\<close> are parameters. The command lines are specified by a type of options, each with
  the words that denote it and its effect: exactly the sequences of valid options are accepted, and they mean the
  effects of their options one after the other.
\<close>

section \<open>Log levels and channels\<close>

abbreviation BLOG_ERROR :: int where "BLOG_ERROR \<equiv> 1"
abbreviation BLOG_WARNING :: int where "BLOG_WARNING \<equiv> 2"
abbreviation BLOG_NOTICE :: int where "BLOG_NOTICE \<equiv> 3"
abbreviation BLOG_INFO :: int where "BLOG_INFO \<equiv> 4"
abbreviation BLOG_DEBUG :: int where "BLOG_DEBUG \<equiv> 5"

definition parse_loglevel :: "string \<Rightarrow> int" where
  "parse_loglevel str =
     (if str = ''none'' then 0
      else if str = ''error'' then BLOG_ERROR
      else if str = ''warning'' then BLOG_WARNING
      else if str = ''notice'' then BLOG_NOTICE
      else if str = ''info'' then BLOG_INFO
      else if str = ''debug'' then BLOG_DEBUG
      else case strtol str of (res, endptr) \<Rightarrow> if str \<noteq> [] \<and> endptr = [] \<and> res \<ge> 0 \<and> res \<le> BLOG_DEBUG then res else -1)"

fun BLogGlobal_GetChannelByName :: "string list \<Rightarrow> string \<Rightarrow> nat option" where
  \<comment> \<open>the index of the first channel with the name; \<^term>\<open>None\<close> is \<open>-1\<close>\<close>
  "BLogGlobal_GetChannelByName [] name = None"
| "BLogGlobal_GetChannelByName (c # cs) name = (if c = name then Some 0 else map_option Suc (BLogGlobal_GetChannelByName cs name))"

section \<open>Parsing\<close>

datatype logger = LOGGER_STDOUT | LOGGER_SYSLOG

record t2s_options =
  op_help :: bool
  op_version :: bool
  op_logger :: logger
  op_logger_syslog_facility :: string
  op_logger_syslog_ident :: string
  op_loglevel :: int
  op_loglevels :: "int list"
  op_tundev :: "string option"
  op_netif_ipaddr :: "string option"
  op_netif_netmask :: "string option"
  op_netif_ip6addr :: "string option"
  op_socks_server_addr :: "string option"
  op_username :: "string option"
  op_password :: "string option"
  op_password_file :: "string option"
  op_append_source_to_username :: bool

definition default_options :: "string list \<Rightarrow> string \<Rightarrow> t2s_options" where
  "default_options channels argv0 =
     \<lparr>op_help = False, op_version = False, op_logger = LOGGER_STDOUT, op_logger_syslog_facility = ''daemon'',
      op_logger_syslog_ident = argv0, op_loglevel = -1, op_loglevels = replicate (length channels) (-1), op_tundev = None,
      op_netif_ipaddr = None, op_netif_netmask = None, op_netif_ip6addr = None, op_socks_server_addr = None,
      op_username = None, op_password = None, op_password_file = None, op_append_source_to_username = False\<rparr>"

definition with_argument :: "string list \<Rightarrow> (string \<Rightarrow> t2s_options) \<Rightarrow> (t2s_options \<times> string list) option" where
  \<comment> \<open>an option that stores its argument\<close>
  "with_argument args f = (case args of [] \<Rightarrow> None | arg2 # args \<Rightarrow> Some (f arg2, args))"

definition parse_option :: "string list \<Rightarrow> string \<Rightarrow> string list \<Rightarrow> t2s_options \<Rightarrow> (t2s_options \<times> string list) option" where
  \<comment> \<open>one round of the loop: the word \<open>arg\<close> and the words \<open>args\<close> after it; the result has the words that remain\<close>
  "parse_option channels arg args opts =
     (if arg = ''--help'' then Some (opts\<lparr>op_help := True\<rparr>, args)
      else if arg = ''--version'' then Some (opts\<lparr>op_version := True\<rparr>, args)
      else if arg = ''--logger'' then
        (case args of
           [] \<Rightarrow> None
         | arg2 # args \<Rightarrow>
             if arg2 = ''stdout'' then Some (opts\<lparr>op_logger := LOGGER_STDOUT\<rparr>, args)
             else if arg2 = ''syslog'' then Some (opts\<lparr>op_logger := LOGGER_SYSLOG\<rparr>, args)
             else None)
      else if arg = ''--syslog-facility'' then with_argument args (\<lambda>a. opts\<lparr>op_logger_syslog_facility := a\<rparr>)
      else if arg = ''--syslog-ident'' then with_argument args (\<lambda>a. opts\<lparr>op_logger_syslog_ident := a\<rparr>)
      else if arg = ''--loglevel'' then
        (case args of
           [] \<Rightarrow> None
         | arg2 # args \<Rightarrow> if parse_loglevel arg2 < 0 then None else Some (opts\<lparr>op_loglevel := parse_loglevel arg2\<rparr>, args))
      else if arg = ''--channel-loglevel'' then
        (case args of
           arg2 # arg3 # args \<Rightarrow>
             (case BLogGlobal_GetChannelByName channels arg2 of
                None \<Rightarrow> None
              | Some channel \<Rightarrow>
                  if parse_loglevel arg3 < 0 then None
                  else Some (opts\<lparr>op_loglevels := (op_loglevels opts)[channel := parse_loglevel arg3]\<rparr>, args))
         | _ \<Rightarrow> None)
      else if arg = ''--tundev'' then with_argument args (\<lambda>a. opts\<lparr>op_tundev := Some a\<rparr>)
      else if arg = ''--netif-ipaddr'' then with_argument args (\<lambda>a. opts\<lparr>op_netif_ipaddr := Some a\<rparr>)
      else if arg = ''--netif-netmask'' then with_argument args (\<lambda>a. opts\<lparr>op_netif_netmask := Some a\<rparr>)
      else if arg = ''--netif-ip6addr'' then with_argument args (\<lambda>a. opts\<lparr>op_netif_ip6addr := Some a\<rparr>)
      else if arg = ''--socks-server-addr'' then with_argument args (\<lambda>a. opts\<lparr>op_socks_server_addr := Some a\<rparr>)
      else if arg = ''--username'' then with_argument args (\<lambda>a. opts\<lparr>op_username := Some a\<rparr>)
      else if arg = ''--password'' then with_argument args (\<lambda>a. opts\<lparr>op_password := Some a\<rparr>)
      else if arg = ''--password-file'' then with_argument args (\<lambda>a. opts\<lparr>op_password_file := Some a\<rparr>)
      else if arg = ''--append-source-to-username'' then Some (opts\<lparr>op_append_source_to_username := True\<rparr>, args)
      else None)"

lemma parse_option_shorter: "parse_option channels arg args opts = Some (opts', args') \<Longrightarrow> length args' \<le> length args"
  by (auto simp: parse_option_def with_argument_def split: if_splits list.splits option.splits)

function parse_options :: "string list \<Rightarrow> string list \<Rightarrow> t2s_options \<Rightarrow> t2s_options option" where
  "parse_options channels [] opts = Some opts"
| "parse_options channels (arg # args) opts =
     (case parse_option channels arg args opts of None \<Rightarrow> None | Some (opts, args) \<Rightarrow> parse_options channels args opts)"
  by pat_completeness auto
termination
  by (relation "measure (\<lambda>(_, args, _). length args)") (auto dest!: parse_option_shorter)

definition parse_arguments :: "string list \<Rightarrow> string list \<Rightarrow> t2s_options option" where
  "parse_arguments channels argv =
     (case argv of
        [] \<Rightarrow> None
      | argv0 # args \<Rightarrow>
          (case parse_options channels args (default_options channels argv0) of
             None \<Rightarrow> None
           | Some opts \<Rightarrow>
               if op_help opts \<or> op_version opts then Some opts
               else if op_netif_ipaddr opts = None then None
               else if op_netif_netmask opts = None then None
               else if op_socks_server_addr opts = None then None
               else if op_username opts \<noteq> None \<and> op_password opts = None \<and> op_password_file opts = None then None
               else if op_username opts \<noteq> None \<and> op_password opts \<noteq> None \<and> op_password_file opts \<noteq> None then None
               else Some opts))"

section \<open>Reading a file\<close>

text \<open>
  \<open>misc/read_file.h\<close>: the successive results of \<open>fread\<close> are a list, its end is a result of 0 bytes, and \<open>eof\<close> is what
  \<open>feof\<close> says then. The block of memory is the list of its bytes.
\<close>

fun read_more :: "(bytes \<Rightarrow> nat \<Rightarrow> bytes option) \<Rightarrow> bool \<Rightarrow> bytes list \<Rightarrow> bytes \<Rightarrow> nat \<Rightarrow> (bytes \<times> nat) option option" where
  "read_more realloc eof chunks buf buf_len =
     (case (if buf_len = length buf
            then if 2 > unat SIZE_MAX div length buf then None else realloc buf (2 * length buf)
            else Some buf) of
        None \<Rightarrow> Some None
      | Some buf \<Rightarrow>
          (case chunks of
             [] \<Rightarrow> Some (if eof then Some (buf, buf_len) else None)
           | c # cs \<Rightarrow>
               do { cassert (c \<noteq> [] \<and> length c \<le> length buf - buf_len);
                    buf \<leftarrow> overwrite buf buf_len c;
                    read_more realloc eof cs buf (buf_len + length c) }))"

declare read_more.simps [simp del]

definition read_file :: "(bytes \<Rightarrow> nat \<Rightarrow> bytes option) \<Rightarrow> bytes option \<Rightarrow> (bytes list \<times> bool) option \<Rightarrow> (bytes \<times> nat) option option" where
  \<comment> \<open>\<open>mem\<close> is the result of \<open>malloc\<close>, \<open>file\<close> is what can be read if the file was opened; the result is the block and the number of bytes in it\<close>
  "read_file realloc mem file =
     (case file of
        None \<Rightarrow> Some None
      | Some (chunks, eof) \<Rightarrow>
          (case mem of
             None \<Rightarrow> Some None
           | Some buf \<Rightarrow> do { cassert (length buf = 128); read_more realloc eof chunks buf 0 }))"

section \<open>Processing\<close>

record t2s_config =
  cf_netif_ipaddr :: BIPAddr
  cf_netif_netmask :: BIPAddr
  cf_netif_ip6addr :: "bytes option"
  cf_socks_server_addr :: BAddr
  cf_socks_auth_info :: "BSocksClient_auth_info list"
  cf_password_file_contents :: "bytes option"

definition cstr_bytes :: "string \<Rightarrow> bytes" where
  "cstr_bytes str = map of_char str"

definition resolve_ipv4 :: "getaddrinfo \<Rightarrow> string option \<Rightarrow> BIPAddr option option" where
  "resolve_ipv4 gai str =
     do { str \<leftarrow> str;
          r \<leftarrow> BIPAddr_Resolve gai (str @ [NUL]) False;
          Some (case r of Some (BIPAddr_IPv4 ip) \<Rightarrow> Some (BIPAddr_IPv4 ip) | _ \<Rightarrow> None) }"

definition process_auth :: "(string \<Rightarrow> (bytes \<times> nat) option option) \<Rightarrow> t2s_options \<Rightarrow> (BSocksClient_auth_info list \<times> bytes option) option option" where
  \<comment> \<open>the authentication methods and the allocated contents of the password file\<close>
  "process_auth read opts =
     (case op_username opts of
        None \<Rightarrow> Some (Some ([BSocksClient_auth_none], None))
      | Some username \<Rightarrow>
          (case op_password opts of
             Some password \<Rightarrow> Some (Some ([BSocksClient_auth_none, BSocksClient_auth_password (cstr_bytes username) (cstr_bytes password)], None))
           | None \<Rightarrow>
               do { file \<leftarrow> op_password_file opts;
                    r \<leftarrow> read file;
                    case r of
                      None \<Rightarrow> Some None
                    | Some (buf, len) \<Rightarrow>
                        do { password \<leftarrow> subbytes buf 0 len;
                             Some (Some ([BSocksClient_auth_none, BSocksClient_auth_password (cstr_bytes username) password], Some buf)) } }))"

definition process_arguments ::
  "endian \<Rightarrow> getaddrinfo \<Rightarrow> (string \<Rightarrow> (bytes \<times> nat) option option) \<Rightarrow> bytes \<Rightarrow> t2s_options \<Rightarrow> t2s_config option option" where
  \<comment> \<open>\<open>mem\<close> is the contents of the global variable for the IPv6 address; a missing option that is read is a failure\<close>
  "process_arguments e gai read mem opts =
     do { ipaddr \<leftarrow> resolve_ipv4 gai (op_netif_ipaddr opts);
          if ipaddr = None then Some None
          else do {
            netmask \<leftarrow> resolve_ipv4 gai (op_netif_netmask opts);
            if netmask = None then Some None
            else do {
              ip6 \<leftarrow> (case op_netif_ip6addr opts of None \<Rightarrow> Some (Some mem) | Some str \<Rightarrow> ipaddr6_parse_ipv6_addr str mem);
              if ip6 = None then Some None
              else do {
                server \<leftarrow> op_socks_server_addr opts;
                server \<leftarrow> BAddr_Parse2 e gai (server @ [NUL]) None False;
                if server = None then Some None
                else do {
                  auth \<leftarrow> process_auth read opts;
                  Some (map_option (\<lambda>(auth, contents).
                    \<lparr>cf_netif_ipaddr = the ipaddr, cf_netif_netmask = the netmask,
                     cf_netif_ip6addr = (if op_netif_ip6addr opts = None then None else ip6),
                     cf_socks_server_addr = fst (the server), cf_socks_auth_info = auth, cf_password_file_contents = contents\<rparr>) auth) } } } } }"

section \<open>What a command line means\<close>

datatype t2s_option =
    Help | Version | Logger logger | Syslog_facility string | Syslog_ident string | Loglevel string | Channel_loglevel string string
  | Tundev string | Netif_ipaddr string | Netif_netmask string | Netif_ip6addr string | Socks_server_addr string
  | Username string | Password string | Password_file string | Append_source_to_username

fun option_words :: "t2s_option \<Rightarrow> string list" where
  "option_words Help = [''--help'']"
| "option_words Version = [''--version'']"
| "option_words (Logger LOGGER_STDOUT) = [''--logger'', ''stdout'']"
| "option_words (Logger LOGGER_SYSLOG) = [''--logger'', ''syslog'']"
| "option_words (Syslog_facility a) = [''--syslog-facility'', a]"
| "option_words (Syslog_ident a) = [''--syslog-ident'', a]"
| "option_words (Loglevel a) = [''--loglevel'', a]"
| "option_words (Channel_loglevel c a) = [''--channel-loglevel'', c, a]"
| "option_words (Tundev a) = [''--tundev'', a]"
| "option_words (Netif_ipaddr a) = [''--netif-ipaddr'', a]"
| "option_words (Netif_netmask a) = [''--netif-netmask'', a]"
| "option_words (Netif_ip6addr a) = [''--netif-ip6addr'', a]"
| "option_words (Socks_server_addr a) = [''--socks-server-addr'', a]"
| "option_words (Username a) = [''--username'', a]"
| "option_words (Password a) = [''--password'', a]"
| "option_words (Password_file a) = [''--password-file'', a]"
| "option_words Append_source_to_username = [''--append-source-to-username'']"

fun channel_index :: "string list \<Rightarrow> string \<Rightarrow> nat" where
  "channel_index channels c = length (takeWhile (\<lambda>x. x \<noteq> c) channels)"

fun option_valid :: "string list \<Rightarrow> t2s_option \<Rightarrow> bool" where
  "option_valid channels (Loglevel a) \<longleftrightarrow> parse_loglevel a \<ge> 0"
| "option_valid channels (Channel_loglevel c a) \<longleftrightarrow> c \<in> set channels \<and> parse_loglevel a \<ge> 0"
| "option_valid channels _ \<longleftrightarrow> True"

fun option_effect :: "string list \<Rightarrow> t2s_option \<Rightarrow> t2s_options \<Rightarrow> t2s_options" where
  "option_effect channels Help opts = opts\<lparr>op_help := True\<rparr>"
| "option_effect channels Version opts = opts\<lparr>op_version := True\<rparr>"
| "option_effect channels (Logger l) opts = opts\<lparr>op_logger := l\<rparr>"
| "option_effect channels (Syslog_facility a) opts = opts\<lparr>op_logger_syslog_facility := a\<rparr>"
| "option_effect channels (Syslog_ident a) opts = opts\<lparr>op_logger_syslog_ident := a\<rparr>"
| "option_effect channels (Loglevel a) opts = opts\<lparr>op_loglevel := parse_loglevel a\<rparr>"
| "option_effect channels (Channel_loglevel c a) opts = opts\<lparr>op_loglevels := (op_loglevels opts)[channel_index channels c := parse_loglevel a]\<rparr>"
| "option_effect channels (Tundev a) opts = opts\<lparr>op_tundev := Some a\<rparr>"
| "option_effect channels (Netif_ipaddr a) opts = opts\<lparr>op_netif_ipaddr := Some a\<rparr>"
| "option_effect channels (Netif_netmask a) opts = opts\<lparr>op_netif_netmask := Some a\<rparr>"
| "option_effect channels (Netif_ip6addr a) opts = opts\<lparr>op_netif_ip6addr := Some a\<rparr>"
| "option_effect channels (Socks_server_addr a) opts = opts\<lparr>op_socks_server_addr := Some a\<rparr>"
| "option_effect channels (Username a) opts = opts\<lparr>op_username := Some a\<rparr>"
| "option_effect channels (Password a) opts = opts\<lparr>op_password := Some a\<rparr>"
| "option_effect channels (Password_file a) opts = opts\<lparr>op_password_file := Some a\<rparr>"
| "option_effect channels Append_source_to_username opts = opts\<lparr>op_append_source_to_username := True\<rparr>"

definition complete_options :: "t2s_options \<Rightarrow> bool" where
  \<comment> \<open>what the documentation requires of a command line\<close>
  "complete_options opts \<longleftrightarrow> op_help opts \<or> op_version opts \<or>
     op_netif_ipaddr opts \<noteq> None \<and> op_netif_netmask opts \<noteq> None \<and> op_socks_server_addr opts \<noteq> None \<and>
     (op_username opts \<noteq> None \<longrightarrow> (op_password opts = None) \<noteq> (op_password_file opts = None))"

lemma channel_by_name: "BLogGlobal_GetChannelByName channels c = (if c \<in> set channels then Some (channel_index channels c) else None)"
  by (induction channels) auto

lemma parse_option_words:
  assumes "option_valid channels x"
  shows "\<exists>arg args. option_words x = arg # args \<and> parse_option channels arg (args @ rest) opts = Some (option_effect channels x opts, rest)"
  using assms
proof (cases x)
  case (Logger l)
  then show ?thesis by (cases l) (simp_all add: parse_option_def)
qed (simp_all add: parse_option_def with_argument_def channel_by_name)

definition option_names :: "string list" where
  "option_names = [''--help'', ''--version'', ''--logger'', ''--syslog-facility'', ''--syslog-ident'', ''--loglevel'', ''--channel-loglevel'', ''--tundev'', ''--netif-ipaddr'', ''--netif-netmask'',
     ''--netif-ip6addr'', ''--socks-server-addr'', ''--username'', ''--password'', ''--password-file'', ''--append-source-to-username'']"

lemma with_argumentE: "with_argument args f = Some (opts', rest) \<Longrightarrow> (\<And>a. args = a # rest \<Longrightarrow> opts' = f a \<Longrightarrow> P) \<Longrightarrow> P"
  by (auto simp: with_argument_def split: list.splits)

lemma parse_option_Some:
  assumes p: "parse_option channels arg args opts = Some (opts', rest)"
  shows "\<exists>x. option_valid channels x \<and> arg # args = option_words x @ rest \<and> opts' = option_effect channels x opts"
proof -
  have "arg \<in> set option_names"
    by (rule ccontr) (use p in \<open>simp add: parse_option_def option_names_def\<close>)
  then show ?thesis using p unfolding option_names_def list.set
  proof (elim insertE)
    assume a: "arg = ''--logger''"
    obtain l where "arg # args = option_words (Logger l) @ rest" "opts' = opts\<lparr>op_logger := l\<rparr>" using p a
      by (auto simp: parse_option_def split: list.splits if_splits intro: that [of LOGGER_STDOUT] that [of LOGGER_SYSLOG])
    then show ?thesis by (intro exI [of _ "Logger l"]) simp
  next
    assume a: "arg = ''--loglevel''"
    then obtain x where "args = x # rest" "\<not> parse_loglevel x < 0" "opts' = opts\<lparr>op_loglevel := parse_loglevel x\<rparr>" using p
      by (auto simp: parse_option_def split: list.splits if_splits)
    then show ?thesis using a by (intro exI [of _ "Loglevel x"]) simp
  next
    assume a: "arg = ''--channel-loglevel''"
    then obtain c x where "args = c # x # rest" "c \<in> set channels" "\<not> parse_loglevel x < 0"
        "opts' = opts\<lparr>op_loglevels := (op_loglevels opts)[channel_index channels c := parse_loglevel x]\<rparr>" using p
      by (auto simp: parse_option_def channel_by_name split: list.splits if_splits)
    then show ?thesis using a by (intro exI [of _ "Channel_loglevel c x"]) simp
  qed (use p in \<open>auto simp: parse_option_def elim!: with_argumentE 
      intro: exI [of _ Help] exI [of _ Version] exI [of _ Append_source_to_username] exI [of _ "Syslog_facility _"] exI [of _ "Syslog_ident _"] exI [of _ "Tundev _"]
      exI [of _ "Netif_ipaddr _"] exI [of _ "Netif_netmask _"] exI [of _ "Netif_ip6addr _"] exI [of _ "Socks_server_addr _"]
      exI [of _ "Username _"] exI [of _ "Password _"] exI [of _ "Password_file _"]\<close>)
qed

lemma parse_options_iff:
  "parse_options channels args opts = Some opts' \<longleftrightarrow>
   (\<exists>xs. list_all (option_valid channels) xs \<and> args = concat (map option_words xs) \<and> opts' = fold (option_effect channels) xs opts)"
proof
  show "parse_options channels args opts = Some opts' \<Longrightarrow>
    \<exists>xs. list_all (option_valid channels) xs \<and> args = concat (map option_words xs) \<and> opts' = fold (option_effect channels) xs opts"
  proof (induction channels args opts rule: parse_options.induct)
    case (1 channels opts)
    then show ?case by (intro exI [of _ "[]"]) simp
  next
    case (2 channels arg args opts)
    then obtain opts1 rest where p: "parse_option channels arg args opts = Some (opts1, rest)" "parse_options channels rest opts1 = Some opts'"
      by (auto split: option.splits)
    obtain x where x: "option_valid channels x" "arg # args = option_words x @ rest" "opts1 = option_effect channels x opts"
      using parse_option_Some [OF p(1)] by blast
    obtain xs where "list_all (option_valid channels) xs" "rest = concat (map option_words xs)" "opts' = fold (option_effect channels) xs opts1"
      using 2(1) [OF p(1) refl p(2)] by blast
    then show ?case using x by (intro exI [of _ "x # xs"]) simp
  qed
next
  show "\<exists>xs. list_all (option_valid channels) xs \<and> args = concat (map option_words xs) \<and> opts' = fold (option_effect channels) xs opts \<Longrightarrow>
    parse_options channels args opts = Some opts'"
  proof (elim exE conjE)
    fix xs
    show "parse_options channels args opts = Some opts'"
      if "list_all (option_valid channels) xs" "args = concat (map option_words xs)" "opts' = fold (option_effect channels) xs opts"
      using that
    proof (induction xs arbitrary: args opts)
      case (Cons x xs)
      then obtain arg as where "option_words x = arg # as"
          "parse_option channels arg (as @ concat (map option_words xs)) opts = Some (option_effect channels x opts, concat (map option_words xs))"
        using parse_option_words [of channels x] by fastforce
      then show ?case using Cons by simp
    qed simp
  qed
qed

lemma read_more_contents:
  assumes realloc: "\<And>b n b'. realloc b n = Some b' \<Longrightarrow> length b' = n \<and> (length b \<le> n \<longrightarrow> take (length b) b' = b)"
    and "read_more realloc eof chunks buf n = Some (Some (buf', n'))" "n \<le> length buf"
  shows "n' \<le> length buf' \<and> take n' buf' = take n buf @ concat chunks \<and> eof"
  using assms(2,3)
proof (induction chunks arbitrary: buf n)
  case Nil
  then obtain b where "(if n = length buf then if 2 > unat SIZE_MAX div length buf then None else realloc buf (2 * length buf) else Some buf) = Some b"
      "buf' = b" "n' = n" eof by (auto simp: read_more.simps [of realloc eof "[]"] split: option.splits if_splits)
  then show ?case using Nil.prems realloc [of buf _ b] by (auto split: if_splits)
next
  case (Cons c cs)
  then obtain b b' where b: "(if n = length buf then if 2 > unat SIZE_MAX div length buf then None else realloc buf (2 * length buf) else Some buf) = Some b"
      "overwrite b n c = Some b'" "read_more realloc eof cs b' (n + length c) = Some (Some (buf', n'))" "length c \<le> length b - n"
    by (auto simp: read_more.simps [of realloc eof "c # cs"] bind_Some_iff split: option.splits)
  have "take n b = take n buf" "n \<le> length b" using b(1) Cons.prems realloc [of buf _ b] by (auto split: if_splits)
  then have "n + length c \<le> length b'" "take (n + length c) b' = take n buf @ c"
    using b(2,4) overwrite_length [OF b(2)] take_overwrite [OF b(2)] by auto
  then show ?case using Cons.IH [OF b(3)] by simp
qed

lemma read_file_contents:
  assumes "\<And>b n b'. realloc b n = Some b' \<Longrightarrow> length b' = n \<and> (length b \<le> n \<longrightarrow> take (length b) b' = b)"
    and "read_file realloc mem (Some (chunks, eof)) = Some (Some (buf, len))"
  shows "subbytes buf 0 len = Some (concat chunks)" "eof"
proof -
  obtain b where "read_more realloc eof chunks b 0 = Some (Some (buf, len))"
    using assms(2) by (auto simp: read_file_def bind_Some_iff split: option.splits)
  then show "subbytes buf 0 len = Some (concat chunks)" "eof" using read_more_contents [OF assms(1)] by (fastforce simp: subbytes_def)+
qed

lemma parse_arguments_iff:
  "parse_arguments channels argv = Some opts \<longleftrightarrow>
   (\<exists>name xs. argv = name # concat (map option_words xs) \<and> list_all (option_valid channels) xs \<and>
      opts = fold (option_effect channels) xs (default_options channels name) \<and> complete_options opts)"
proof -
  have "parse_arguments channels argv = Some opts \<longleftrightarrow>
      (\<exists>name args. argv = name # args \<and> parse_options channels args (default_options channels name) = Some opts \<and> complete_options opts)"
    by (auto simp: parse_arguments_def complete_options_def split: list.splits option.splits if_splits)
  then show ?thesis by (auto simp: parse_options_iff)
qed

abbreviation clean_values :: "string option set" where
  "clean_values \<equiv> {v. NUL \<notin> \<Union> (set ` set_option v)}"

definition clean_options :: "t2s_options \<Rightarrow> bool" where
  \<comment> \<open>the addresses are C strings\<close>
  "clean_options opts \<longleftrightarrow>
     op_netif_ipaddr opts \<in> clean_values \<and> op_netif_netmask opts \<in> clean_values \<and> op_socks_server_addr opts \<in> clean_values"

lemma clean_effect:
  "clean_options opts \<Longrightarrow> list_all (\<lambda>w. NUL \<notin> set w) (option_words x) \<Longrightarrow> clean_options (option_effect channels x opts)"
  by (cases x) (auto simp: clean_options_def)

lemma clean_fold:
  "clean_options opts \<Longrightarrow> list_all (\<lambda>w. NUL \<notin> set w) (concat (map option_words xs)) \<Longrightarrow> clean_options (fold (option_effect channels) xs opts)"
  by (induction xs arbitrary: opts) (simp_all add: clean_effect)

lemma resolve_ipv4_total:
  assumes "gai_well_typed gai" "NUL \<notin> set a"
  obtains "resolve_ipv4 gai (Some a) = Some None" | ip where "resolve_ipv4 gai (Some a) = Some (Some (BIPAddr_IPv4 ip))"
proof -
  obtain r where "BIPAddr_Resolve gai (a @ [NUL]) False = Some r" using BIPAddr_Resolve_total [OF assms] by blast
  then show thesis using that by (cases r; cases "the r") (auto simp: resolve_ipv4_def)
qed

lemma process_auth_total:
  assumes "complete_options opts" "\<not> op_help opts" "\<not> op_version opts"
    and "\<And>f. \<exists>r. read f = Some r \<and> (\<forall>buf len. r = Some (buf, len) \<longrightarrow> len \<le> length buf)"
  shows "\<exists>r. process_auth read opts = Some r \<and> (\<forall>auth c. r = Some (auth, c) \<longrightarrow> types_ok auth \<and> length auth = (if op_username opts = None then 1 else 2))"
proof -
  have types: "types_ok [BSocksClient_auth_none]" "types_ok [BSocksClient_auth_none, BSocksClient_auth_password u p]" for u p
    by (simp_all add: types_ok_def BSocksClient_auth_none_def BSocksClient_auth_password_def)
  show ?thesis
  proof (cases "op_username opts = None \<or> op_password opts \<noteq> None")
    case True
    then show ?thesis using types by (auto simp: process_auth_def split: option.splits)
  next
    case False
    then obtain u f where o: "op_username opts = Some u" "op_password opts = None" "op_password_file opts = Some f"
      using assms(1-3) by (auto simp: complete_options_def)
    obtain r where "read f = Some r" "\<And>buf len. r = Some (buf, len) \<Longrightarrow> len \<le> length buf" using assms(4) by blast
    then show ?thesis using o types by (cases r) (auto simp: process_auth_def subbytes_def)
  qed
qed

section \<open>Properties\<close>

text \<open>
  C24. \<^term>\<open>parse_arguments\<close> accepts exactly the command lines that consist of a program name and the words of valid options and that are
  complete: an address, a netmask and a server are given, with a user name either a password or a password file, unless help or
  version is asked for. The result is the effect of the options one after the other.
\<close>

theorem parse_arguments_exact:
  "parse_arguments channels argv = Some opts \<longleftrightarrow>
   (\<exists>name xs. argv = name # concat (map option_words xs) \<and> list_all (option_valid channels) xs \<and>
      opts = fold (option_effect channels) xs (default_options channels name) \<and> complete_options opts)"
  by (rule parse_arguments_iff)

text \<open>
  C27. The arguments of an accepted command line can be processed: no option that is read is missing, no access leaves a string or a buffer, and if
  processing succeeds then the interface has IPv4 addresses, as its set-up asserts, an IPv6 address has 16 bytes, and the address of the server and the authentication methods
  are ones that a SOCKS client accepts.
\<close>

theorem arguments_processed:
  assumes "parse_arguments channels argv = Some opts" "\<not> op_help opts" "\<not> op_version opts" "list_all (\<lambda>w. NUL \<notin> set w) argv"
    and "gai_well_typed gai" "length mem = 16" "\<And>f. \<exists>r. read f = Some r \<and> (\<forall>buf len. r = Some (buf, len) \<longrightarrow> len \<le> length buf)"
  shows "\<exists>r. process_arguments e gai read mem opts = Some r \<and>
    (\<forall>cf. r = Some cf \<longrightarrow> (\<exists>ip. cf_netif_ipaddr cf = BIPAddr_IPv4 ip) \<and> (\<exists>ip. cf_netif_netmask cf = BIPAddr_IPv4 ip) \<and>
       (\<forall>ip. cf_netif_ip6addr cf = Some ip \<longrightarrow> length ip = 16) \<and> \<not> BAddr_IsInvalid (cf_socks_server_addr cf) \<and>
       types_ok (cf_socks_auth_info cf) \<and> length (cf_socks_auth_info cf) = (if op_username opts = None then 1 else 2))"
proof -
  obtain name xs where xs: "argv = name # concat (map option_words xs)" "opts = fold (option_effect channels) xs (default_options channels name)" "complete_options opts"
    using assms(1) by (auto simp: parse_arguments_iff)
  have "clean_options opts" unfolding xs(2) by (rule clean_fold) (use assms(4) xs(1) in \<open>simp_all add: clean_options_def default_options_def\<close>)
  then obtain a m s where o: "op_netif_ipaddr opts = Some a" "op_netif_netmask opts = Some m" "op_socks_server_addr opts = Some s" "NUL \<notin> set a" "NUL \<notin> set m"
    using xs(3) assms(2,3) by (auto simp: complete_options_def clean_options_def)
  obtain srv where srv: "BAddr_Parse2 e gai (s @ [NUL]) None False = Some srv" "\<And>b n. srv = Some (b, n) \<Longrightarrow> baddr_type b = 1 \<or> baddr_type b = 2"
    using BAddr_Parse2_total [OF assms(5), of "s @ [NUL]" e None False] by auto
  have valid: "\<not> BAddr_IsInvalid b" if "srv = Some (b, n)" for b n using srv(2) [OF that] by (cases b) (simp_all add: BAddr_IsInvalid_def)
  obtain ip6 where ip6: "(case op_netif_ip6addr opts of None \<Rightarrow> Some (Some mem) | Some str \<Rightarrow> ipaddr6_parse_ipv6_addr str mem) = Some ip6"
      "\<And>b. ip6 = Some b \<Longrightarrow> length b = 16"
    using parse_addr_total [OF assms(6)] assms(6) by (cases "op_netif_ip6addr opts") auto
  obtain au where au: "process_auth read opts = Some au" "\<And>auth c. au = Some (auth, c) \<Longrightarrow> types_ok auth \<and> length auth = (if op_username opts = None then 1 else 2)"
    using process_auth_total [OF xs(3) assms(2,3), of read] assms(7) by blast
  show ?thesis
  proof (rule resolve_ipv4_total [OF assms(5) o(4)])
    assume "resolve_ipv4 gai (Some a) = Some None"
    then show ?thesis using o by (simp add: process_arguments_def)
  next
    fix ip assume ip: "resolve_ipv4 gai (Some a) = Some (Some (BIPAddr_IPv4 ip))"
    show ?thesis
    proof (rule resolve_ipv4_total [OF assms(5) o(5)])
      assume "resolve_ipv4 gai (Some m) = Some None"
      then show ?thesis using o ip by (simp add: process_arguments_def)
    next
      fix mask assume "resolve_ipv4 gai (Some m) = Some (Some (BIPAddr_IPv4 mask))"
      then show ?thesis using o ip srv(1) ip6 au valid
        by (cases ip6; cases srv; cases au) (auto simp: process_arguments_def)
    qed
  qed
qed

definition example_argv :: "string list" where
  "example_argv = [''tun2socks'', ''--netif-ipaddr'', ''10.0.0.2'', ''--netif-netmask'', ''255.255.255.0'', ''--socks-server-addr'', ''1.2.3.4:1080'',
     ''--username'', ''me'', ''--password'', ''secret'']"

theorem arguments_processed_witness:
  "\<exists>opts cf. parse_arguments [] example_argv = Some opts \<and>
     process_arguments LittleEndian fixed_gai (\<lambda>_. Some None) (replicate 16 0) opts = Some (Some cf) \<and> length (cf_socks_auth_info cf) = 2"
proof -
  have "case parse_arguments [] example_argv of None \<Rightarrow> False
    | Some opts \<Rightarrow> \<not> op_help opts \<and> \<not> op_version opts \<and> op_username opts \<noteq> None \<and>
        (case process_arguments LittleEndian fixed_gai (\<lambda>_. Some None) (replicate 16 0) opts of Some (Some cf) \<Rightarrow> True | _ \<Rightarrow> False)"
    by code_simp
  then obtain opts cf where o: "parse_arguments [] example_argv = Some opts" "\<not> op_help opts" "\<not> op_version opts" "op_username opts \<noteq> None"
      "process_arguments LittleEndian fixed_gai (\<lambda>_. Some None) (replicate 16 0) opts = Some (Some cf)"
    by (auto split: option.splits)
  have "list_all (\<lambda>w. NUL \<notin> set w) example_argv" by (simp add: example_argv_def)
  moreover have "gai_well_typed fixed_gai" by (simp add: gai_well_typed_def fixed_gai_def)
  ultimately show ?thesis
    using arguments_processed [OF o(1-3), of fixed_gai "replicate 16 0" "\<lambda>_. Some None" LittleEndian] o by auto
qed

end
