(* ===== verification/Tun2socks.thy ===== *)
theory Tun2socks
  imports Tcp_Client Options Linked_List
begin

text \<open>
  The main program of \<open>tun2socks\<close> (\<open>tun2socks/tun2socks.c\<close>): the list of all TCP clients, accepting and shutting down, the network
  interface between the device and the network stack, and the set-up. The clients are those of \<open>Tcp_Client\<close>,
  at addresses that \<open>malloc\<close> returns, and the list is the one of \<open>Linked_List\<close>, through nodes that are part of the clients.
  A client of which the memory was freed while one of its callbacks waits for its jobs remains in the state until the
  callback is over, since the callback has variables of its own.
\<close>

section \<open>The clients\<close>


datatype t2s_out = Client_out nat tc_out | Accepted nat | Accept_returned err_t






datatype t2s_event =
    Accept bool "(nat \<times> lnode \<times> tcp_client) option" bool bool
  | Client nat tc_event



section \<open>The network interface\<close>

text \<open>
  A packet buffer of the network stack is the list of the payloads of its chain. The results of \<open>BTap_GetMTU\<close>, of the allocation and of
  the input functions of the stack are arguments.
\<close>

definition BTap_Send :: "int \<Rightarrow> bytes \<Rightarrow> bytes option" where
  \<comment> \<open>the packet that is written\<close>
  "BTap_Send mtu data = do { cassert (int (length data) \<le> mtu); Some data }"

definition tun2socks_write :: "int \<Rightarrow> bytes \<Rightarrow> bytes option" where
  "tun2socks_write mtu data = BTap_Send mtu data"

fun gather_chain :: "int \<Rightarrow> bytes list \<Rightarrow> bytes \<Rightarrow> int \<Rightarrow> (bytes \<times> int option) option" where
  \<comment> \<open>the loop of \<open>common_netif_output\<close>; no length if there is no space left\<close>
  "gather_chain mtu [] buf len = Some (buf, Some len)"
| "gather_chain mtu (p # ps) buf len =
     (if int (length p) > mtu - len then Some (buf, None)
      else do { buf \<leftarrow> overwrite buf (nat len) p; gather_chain mtu ps buf (len + int (length p)) })"

definition common_netif_output :: "bool \<Rightarrow> int \<Rightarrow> bytes \<Rightarrow> bytes list \<Rightarrow> (bytes option \<times> bytes) option" where
  \<comment> \<open>the packet sent to the device, if any, and the contents of \<open>device_write_buf\<close>\<close>
  "common_netif_output quitting mtu device_write_buf p =
     (if quitting then Some (None, device_write_buf)
      else case p of
        [] \<Rightarrow> None
      | [payload] \<Rightarrow>
          if int (length payload) > mtu then Some (None, device_write_buf)
          else do { sent \<leftarrow> BTap_Send mtu payload; Some (Some sent, device_write_buf) }
      | _ \<Rightarrow>
          do { r \<leftarrow> gather_chain mtu p device_write_buf 0;
               case r of
                 (buf, None) \<Rightarrow> Some (None, buf)
               | (buf, Some len) \<Rightarrow> do { data \<leftarrow> subbytes buf 0 (nat len); sent \<leftarrow> BTap_Send mtu data; Some (Some sent, buf) } })"

datatype input_act = To_tunnel bytes | Packet_accepted | Ip_input bytes | Ip6_input bytes | Chain_freed

definition netif_input_func :: "bool \<Rightarrow> bool \<Rightarrow> bytes list \<Rightarrow> (input_act list \<times> bool) option" where
  \<comment> \<open>whether there is an IPv6 address, whether the input function succeeds, and the packet; the result says whether it is \<open>ERR_OK\<close>\<close>
  "netif_input_func ip6addr input_ok p =
     (case p of
        [] \<Rightarrow> None
      | payload # _ \<Rightarrow>
          let ip_version = (if payload \<noteq> [] then drop_bit 4 (hd payload) else 0) in
          Some (if ip_version = 4 then ([Ip_input (concat p)], input_ok)
                else if ip_version = 6 \<and> ip6addr then ([Ip6_input (concat p)], input_ok)
                else ([Chain_freed], True)))"

definition device_read_handler_send :: "bool \<Rightarrow> bool \<Rightarrow> bool \<Rightarrow> bool \<Rightarrow> bytes list option \<Rightarrow> bytes \<Rightarrow> input_act list option" where
  \<comment> \<open>\<open>p\<close> is the result of \<open>pbuf_alloc\<close> with the packet written to it\<close>
  "device_read_handler_send quitting callback ip6addr input_ok p data =
     do { cassert (\<not> quitting);
          out \<leftarrow> Some ((if callback then [To_tunnel data] else []) @ [Packet_accepted]);
          if length data > 65535 then Some out
          else case p of
            None \<Rightarrow> Some out
          | Some p \<Rightarrow>
              do { cassert (concat p = data);
                   (out', ok) \<leftarrow> netif_input_func ip6addr input_ok p;
                   Some (out @ out' @ (if ok then [] else [Chain_freed])) } }"

section \<open>Set-up and shutdown\<close>

text \<open>
  What is acquired and released: \<open>tun2socks_init\<close>, the job that initialises the network stack, and \<open>tun2socks_run\<close> after the event loop.
  The arguments are the results of the functions that may fail.
\<close>

datatype t2s_resource =
    R_log | R_password | R_reactor | R_signal | R_tap | R_read_interface | R_read_buffer | R_lwip_job | R_write_buf | R_tcp_timer
  | R_netif | R_pcb | R_listener | R_listener_ip6

datatype life = Acquire t2s_resource | Release t2s_resource

record init_calls =
  ic_network :: bool
  ic_arguments :: bool
  ic_password :: bool
  ic_reactor :: bool
  ic_signal :: bool
  ic_tap :: bool
  ic_read_buffer :: bool
  ic_write_buf :: bool

definition fail1 :: "bool \<Rightarrow> life list" where
  "fail1 password = (if password then [Release R_password] else []) @ [Release R_log]"

definition fail2 :: "bool \<Rightarrow> life list" where
  "fail2 password = Release R_reactor # fail1 password"

definition fail3 :: "bool \<Rightarrow> life list" where
  "fail3 password = Release R_signal # fail2 password"

definition fail4 :: "bool \<Rightarrow> life list" where
  "fail4 password = Release R_read_interface # Release R_tap # fail3 password"

definition fail5 :: "bool \<Rightarrow> life list" where
  "fail5 password = Release R_lwip_job # Release R_read_buffer # fail4 password"

definition tun2socks_init :: "init_calls \<Rightarrow> bool \<times> life list" where
  \<comment> \<open>\<open>ic_password\<close>: the processed arguments have the contents of a password file\<close>
  "tun2socks_init ic =
     (let pw = ic_arguments ic \<and> ic_password ic; got_pw = (if pw then [Acquire R_password] else []) in
      if \<not> ic_network ic then (False, [Acquire R_log] @ fail1 False)
      else if \<not> ic_arguments ic then (False, [Acquire R_log] @ fail1 False)
      else if \<not> ic_reactor ic then (False, [Acquire R_log] @ got_pw @ fail1 pw)
      else if \<not> ic_signal ic then (False, [Acquire R_log] @ got_pw @ [Acquire R_reactor] @ fail2 pw)
      else if \<not> ic_tap ic then (False, [Acquire R_log] @ got_pw @ [Acquire R_reactor, Acquire R_signal] @ fail3 pw)
      else if \<not> ic_read_buffer ic
      then (False, [Acquire R_log] @ got_pw @ [Acquire R_reactor, Acquire R_signal, Acquire R_tap, Acquire R_read_interface] @ fail4 pw)
      else if \<not> ic_write_buf ic
      then (False, [Acquire R_log] @ got_pw @ [Acquire R_reactor, Acquire R_signal, Acquire R_tap, Acquire R_read_interface,
              Acquire R_read_buffer, Acquire R_lwip_job] @ fail5 pw)
      else (True, [Acquire R_log] @ got_pw @ [Acquire R_reactor, Acquire R_signal, Acquire R_tap, Acquire R_read_interface,
              Acquire R_read_buffer, Acquire R_lwip_job, Acquire R_write_buf, Acquire R_tcp_timer]))"

record lwip_calls =
  lc_netif_add :: bool
  lc_tcp_new :: bool
  lc_bind :: bool
  lc_listen :: bool
  lc_tcp_new_ip6 :: bool
  lc_bind_ip6 :: bool
  lc_listen_ip6 :: bool

record lwip_state =
  ls_have_netif :: bool
  ls_listener :: bool
  ls_listener_ip6 :: bool

definition start_listener :: "bool \<Rightarrow> bool \<Rightarrow> bool \<Rightarrow> t2s_resource \<Rightarrow> bool \<times> life list" where
  \<comment> \<open>\<open>tcp_listen\<close> replaces the control block if it succeeds\<close>
  "start_listener created bound listening r =
     (if \<not> created then (False, [])
      else if \<not> bound then (False, [Acquire R_pcb, Release R_pcb])
      else if \<not> listening then (False, [Acquire R_pcb, Release R_pcb])
      else (True, [Acquire R_pcb, Release R_pcb, Acquire r]))"

definition lwip_init_job_hadler :: "lwip_calls \<Rightarrow> t2s_config \<Rightarrow> bool \<Rightarrow> lwip_state \<Rightarrow> (life list \<times> lwip_state \<times> bool) option" where
  \<comment> \<open>whether the program is quitting already; the last component of the result is whether it is terminated now\<close>
  "lwip_init_job_hadler lc cf quitting ls =
     do { cassert (\<not> quitting);
          cassert (case cf_netif_ipaddr cf of BIPAddr_IPv4 _ \<Rightarrow> True | _ \<Rightarrow> False);
          cassert (case cf_netif_netmask cf of BIPAddr_IPv4 _ \<Rightarrow> True | _ \<Rightarrow> False);
          cassert (\<not> ls_have_netif ls);
          cassert (\<not> ls_listener ls);
          cassert (\<not> ls_listener_ip6 ls);
          if \<not> lc_netif_add lc then Some ([], ls, True)
          else let (ok, acts) = start_listener (lc_tcp_new lc) (lc_bind lc) (lc_listen lc) R_listener;
                   acts = Acquire R_netif # acts; ls = ls\<lparr>ls_have_netif := True, ls_listener := ok\<rparr> in
            if \<not> ok then Some (acts, ls, True)
            else if cf_netif_ip6addr cf = None then Some (acts, ls, False)
            else let (ok, acts6) = start_listener (lc_tcp_new_ip6 lc) (lc_bind_ip6 lc) (lc_listen_ip6 lc) R_listener_ip6 in
              Some (acts @ acts6, ls\<lparr>ls_listener_ip6 := ok\<rparr>, \<not> ok) }"

definition tun2socks_shutdown :: "bool \<Rightarrow> lwip_state \<Rightarrow> life list" where
  \<comment> \<open>\<open>tun2socks_run\<close> after the clients were freed\<close>
  "tun2socks_shutdown password ls =
     (if ls_listener_ip6 ls then [Release R_listener_ip6] else []) @
     (if ls_listener ls then [Release R_listener] else []) @
     (if ls_have_netif ls then [Release R_netif] else []) @
     [Release R_tcp_timer, Release R_write_buf] @ fail5 password"

fun held :: "life list \<Rightarrow> t2s_resource list \<Rightarrow> t2s_resource list option" where
  \<comment> \<open>what is held after a trace, the last first; a release must be of what was acquired last\<close>
  "held [] rs = Some rs"
| "held (Acquire r # ls) rs = (if r \<in> set rs then None else held ls (r # rs))"
| "held (Release r # ls) rs = (case rs of [] \<Rightarrow> None | r' # rs \<Rightarrow> if r' = r then held ls rs else None)"

section \<open>The history of a client\<close>

definition client_history :: "nat \<Rightarrow> t2s_event list \<Rightarrow> tc_event list" where
  \<comment> \<open>the events of the client that was accepted last at an address\<close>
  "client_history a evs =
     fold (\<lambda>ev h. case ev of
         Accept _ (Some (b, _, _)) _ _ \<Rightarrow> if b = a then [] else h
       | Accept _ None _ _ \<Rightarrow> h
       | Client b e \<Rightarrow> if b = a then h @ [e] else h) evs []"

definition client_output :: "nat \<Rightarrow> t2s_out list \<Rightarrow> tc_out list" where
  "client_output a out =
     fold (\<lambda>x h. case x of
         Accepted b \<Rightarrow> if b = a then [] else h
       | Accept_returned _ \<Rightarrow> h
       | Client_out b y \<Rightarrow> if b = a then h @ [y] else h) out []"

lemma client_history_snoc [simp]:
  "client_history a (evs @ [Client b e]) = client_history a evs @ (if b = a then [e] else [])"
  "client_history a (evs @ [Accept ap None c so]) = client_history a evs"
  "client_history a (evs @ [Accept ap (Some (b, nd, mem)) c so]) = (if b = a then [] else client_history a evs)"
  by (simp_all add: client_history_def)

lemma client_output_map [simp]:
  "client_output a (out @ map (Client_out b) os) = client_output a out @ (if b = a then os else [])"
proof (induction os arbitrary: out)
  case (Cons x os)
  then have "client_output a ((out @ [Client_out b x]) @ map (Client_out b) os) = client_output a (out @ [Client_out b x]) @ (if b = a then os else [])"
    by blast
  then show ?case by (simp add: client_output_def)
qed simp


section \<open>Invariant\<close>













section \<open>The network interface and the set-up\<close>

lemma gather_chain_ok:
  assumes "int (length buf) = mtu" "0 \<le> len"  "len \<le> mtu"
  shows "\<exists>buf'. gather_chain mtu ps buf len = Some (buf', if len + int (length (concat ps)) \<le> mtu then Some (len + int (length (concat ps))) else None) \<and>
    length buf' = length buf \<and> (len + int (length (concat ps)) \<le> mtu \<longrightarrow> take (nat len + length (concat ps)) buf' = take (nat len) buf @ concat ps)"
  using assms
proof (induction ps arbitrary: buf len)
  case (Cons p ps)
  show ?case
  proof (cases "int (length p) > mtu - len")
    case False
    then obtain b where b: "overwrite buf (nat len) p = Some b" using Cons.prems by (auto simp: overwrite_total nat_le_iff)
    have "length b = length buf" "take (nat len + length p) b = take (nat len) buf @ p" using overwrite_length [OF b] take_overwrite [OF b] by simp_all
    then show ?thesis using Cons.IH [of b "len + int (length p)"] Cons.prems False b
      by (auto simp: nat_add_distrib ac_simps split: if_splits)
  qed simp
qed simp

lemma init_held:
  "tun2socks_init ic = (ok, acts) \<Longrightarrow>
   held acts [] = Some (if ok then [R_tcp_timer, R_write_buf, R_lwip_job, R_read_buffer, R_read_interface, R_tap, R_signal, R_reactor] @
     (if ic_password ic then [R_password] else []) @ [R_log] else [])"
  by (auto simp: tun2socks_init_def Let_def fail1_def fail2_def fail3_def fail4_def fail5_def split: if_splits)

lemma held_append: "held (xs @ ys) rs = do { rs \<leftarrow> held xs rs; held ys rs }"
  by (induction xs rs rule: held.induct) (auto split: list.splits)

definition no_lwip :: lwip_state where
  "no_lwip = \<lparr>ls_have_netif = False, ls_listener = False, ls_listener_ip6 = False\<rparr>"

lemma processed_ipv4:
  assumes "process_arguments e gai read mem opts = Some (Some cf)"
  shows "\<exists>ip mask. cf_netif_ipaddr cf = BIPAddr_IPv4 ip \<and> cf_netif_netmask cf = BIPAddr_IPv4 mask"
proof -
  have r: "\<exists>ip. x = BIPAddr_IPv4 ip" if a: "resolve_ipv4 gai str = Some (Some x)" for str x
  proof -
    obtain y where "(case y of Some (BIPAddr_IPv4 ip) \<Rightarrow> Some (BIPAddr_IPv4 ip) | _ \<Rightarrow> None) = Some x" using a by (auto simp: resolve_ipv4_def bind_Some_iff)
    then show ?thesis by (cases y; cases "the y") auto
  qed
  show ?thesis using assms by (auto simp: process_arguments_def bind_Some_iff split: if_splits dest!: r)
qed

section \<open>Properties\<close>







text \<open>
  C25. A packet of the network stack is sent to the device as it is, in one piece, exactly if the program is not quitting and the packet fits the device, and the buffer in which
  a chain is put together is never overrun.
\<close>

theorem netif_output_exact:
  assumes "p \<noteq> []" "int (length buf) = mtu"
  shows "\<exists>buf'. common_netif_output quitting mtu buf p = Some (if quitting \<or> int (length (concat p)) > mtu then None else Some (concat p), buf') \<and>
    int (length buf') = mtu"
proof (cases "quitting \<or> length p = 1")
  case True
  then show ?thesis using assms by (cases p) (auto simp: common_netif_output_def BTap_Send_def)
next
  case False
  then obtain p1 p2 ps where p: "p = p1 # p2 # ps" using assms(1) by (metis One_nat_def length_0_conv length_Suc_conv neq_Nil_conv)
  obtain b where b: "gather_chain mtu p buf 0 = Some (b, if int (length (concat p)) \<le> mtu then Some (int (length (concat p))) else None)" "length b = length buf"
      "int (length (concat p)) \<le> mtu \<longrightarrow> take (length (concat p)) b = concat p"
    using gather_chain_ok [OF assms(2), of 0 p] assms(2) by auto
  have out: "common_netif_output quitting mtu buf p = do { r \<leftarrow> gather_chain mtu p buf 0;
      case r of (buf, None) \<Rightarrow> Some (None, buf)
      | (buf, Some len) \<Rightarrow> do { data \<leftarrow> subbytes buf 0 (nat len); sent \<leftarrow> BTap_Send mtu data; Some (Some sent, buf) } }"
    using False by (simp add: common_netif_output_def p)
  show ?thesis
  proof (cases "int (length (concat p)) \<le> mtu")
    case True
    then have "subbytes b 0 (length (concat p)) = Some (concat p)" using b assms(2) by (simp add: subbytes_def)
    then show ?thesis unfolding out b(1) using True False b(2) assms(2) by (simp add: BTap_Send_def)
  next
    case False
    then show ?thesis unfolding out b(1) using b(2) assms(2) by simp
  qed
qed

theorem netif_output_exact_witness:
  "\<exists>buf'. common_netif_output False 4 [0, 0, 0, 0] [[1], [2, 3]] = Some (Some [1, 2, 3], buf')"
  using netif_output_exact [of "[[1], [2, 3]]" "[0, 0, 0, 0]" 4 False] by auto

text \<open>
  C23. Whatever fails, what was acquired is released in the opposite order: if \<^term>\<open>tun2socks_init\<close> fails, it leaves nothing behind; if it succeeds, then the
  job that initialises the network stack finds its assertions true, and whether that job succeeds, fails or does not run,
  the shutdown releases exactly what is held.
\<close>

theorem tun2socks_resources:
  assumes "tun2socks_init ic = (ok, acts)" "process_arguments e gai read mem opts = Some (Some cf)"
  shows "if ok
    then (\<exists>acts' ls quit. lwip_init_job_hadler lc cf False no_lwip = Some (acts', ls, quit) \<and>
        held (acts @ acts' @ tun2socks_shutdown (ic_password ic) ls) [] = Some []) \<and>
      held (acts @ tun2socks_shutdown (ic_password ic) no_lwip) [] = Some []
    else held acts [] = Some []"
proof (cases ok)
  case True
  then have init: "held acts [] = Some ([R_tcp_timer, R_write_buf, R_lwip_job, R_read_buffer, R_read_interface, R_tap, R_signal, R_reactor] @
      (if ic_password ic then [R_password] else []) @ [R_log])" using init_held [OF assms(1)] by simp
  obtain ip mask where "cf_netif_ipaddr cf = BIPAddr_IPv4 ip" "cf_netif_netmask cf = BIPAddr_IPv4 mask" using processed_ipv4 [OF assms(2)] by blast
  then have "lwip_init_job_hadler lc cf False no_lwip \<noteq> None" by (simp add: lwip_init_job_hadler_def no_lwip_def start_listener_def Let_def del: not_None_eq)
  then obtain acts' ls quit where job: "lwip_init_job_hadler lc cf False no_lwip = Some (acts', ls, quit)" by auto
  show ?thesis using job True init
    by (auto simp: held_append lwip_init_job_hadler_def start_listener_def tun2socks_shutdown_def no_lwip_def fail1_def fail2_def fail3_def fail4_def fail5_def
        bind_Some_iff Let_def split: if_splits)
next
  case False
  then show ?thesis using init_held [OF assms(1)] by simp
qed

definition example_calls :: init_calls where
  "example_calls = \<lparr>ic_network = True, ic_arguments = True, ic_password = True, ic_reactor = True, ic_signal = True, ic_tap = True,
     ic_read_buffer = True, ic_write_buf = False\<rparr>"

theorem tun2socks_resources_witness:
  "\<exists>acts. tun2socks_init example_calls = (False, acts) \<and> length acts = 16 \<and> held acts [] = Some []"
proof -
  have "case parse_arguments [] example_argv of None \<Rightarrow> False
    | Some opts \<Rightarrow> (case process_arguments LittleEndian fixed_gai (\<lambda>_. Some None) (replicate 16 0) opts of Some (Some cf) \<Rightarrow> True | _ \<Rightarrow> False)"
    by code_simp
  then obtain opts cf where "process_arguments LittleEndian fixed_gai (\<lambda>_. Some None) (replicate 16 0) opts = Some (Some cf)"
    by (auto split: option.splits)
  moreover obtain acts where a: "tun2socks_init example_calls = (False, acts)" "length acts = 16"
    by (simp add: tun2socks_init_def example_calls_def fail1_def fail2_def fail3_def fail4_def fail5_def)
  ultimately show ?thesis using tun2socks_resources [OF a(1)] a by fastforce
qed

end
