(* ===== verification/Spec2Isabelle.thy ===== *)
theory Spec2Isabelle
  imports Proxy Size_Arith Inet_Checksum Socket_Address Job_Queue Packet_Buffer Single_Packet_Buffer Tun2socks
begin

text \<open>
  A verification of the measurement proxy of Matador (\<open>src/measurement_proxy\<close>).

  \<^bold>\<open>The program.\<close> The proxy forwards the traffic of a phone to a remote host. On the host, \<open>proxy.c\<close> relays IP packets
  between a raw socket and a UDP tunnel, answers ARP requests and keeps ports busy with sockets of its own; it finds its public
  address with the STUN client \<open>ministun.c\<close> and binds its sockets with \<open>bind_public.c\<close>. Near the phone, \<open>tun2socks\<close> (a
  copy of a part of BadVPN) terminates TCP connections in a network stack and opens one connection per TCP connection
  through a SOCKS server. It is built on an event loop with a queue of pending jobs, on interfaces through which packets and
  bytes flow, and on a small base library.

  \<^bold>\<open>Conventions.\<close> A failed \<open>ASSERT\<close> and an access outside an object are the value \<^term>\<open>None\<close>, so a theorem that an operation
  returns \<open>Some\<close> says that its assertions hold and that it stays inside its objects. Where the code returns 0 or
  \<open>NULL\<close> for a failure, the result has an option inside. Unsigned integers of fixed width are words, C \<open>int\<close>s are integers,
  with \<^const>\<open>int32\<close> where the code may leave their range. The byte order of the host is an argument. System calls, \<open>malloc\<close>,
  \<open>realloc\<close> and \<open>getaddrinfo\<close> are parameters: their results are arguments of the operations, and what is assumed about them is a
  hypothesis of the theorems. Objects reached through pointers of different components (list nodes, job objects) live in
  an explicit heap; a pointer into a buffer is an offset.

  \<^bold>\<open>Theories.\<close>
  \<^item> \<open>Prelude\<close>: machine types, the option monad with \<^const>\<open>cassert\<close>, byte-wise access to buffers, and the locale
    \<open>inductive_invariant\<close> for invariants of step relations.
  \<^item> \<open>Byte_Order\<close>: \<open>misc/byteorder.h\<close>, \<open>misc/read_write_int.h\<close>. Every integer reader and writer is an instance of the
    locale \<open>int_codec\<close>; the lemmas give the bytes on the wire on hosts of either byte order, and the round trips.
  \<^item> \<open>Parse_Number\<close>: \<open>misc/parse_number.h\<close>. The parsers accept exactly the numerals that fit 64 bits; printing round-trips.
  \<^item> \<open>Mem_Ref\<close>, \<open>IPAddr6\<close>, \<open>Socket_Address\<close>: \<open>misc/memref.h\<close>, \<open>misc/ipaddr6.h\<close>, \<open>system/BAddr.h\<close>. Parsers of addresses stay
    inside their input on every text, printers stay inside their buffers and are inverted by the parsers (or are not,
    where the code diverges from its documentation), addresses are totally ordered, masks and prefixes agree.
  \<^item> \<open>IP_Proto\<close>: \<open>misc/ipv4_proto.h\<close>, \<open>misc/ipv6_proto.h\<close>, \<open>misc/udp_proto.h\<close>. The checks of received packets never read
    outside the packet and accept exactly the packets that are well formed; the checksums are the folded sums of the
    standard, with the exception of the value 0.
  \<^item> \<open>Inet_Checksum\<close>: the checksums of the network stack, \<open>lwip/src/core/inet_chksum.c\<close>. The specification is a sum of bytes weighted by
    their positions, reduced in one's complement arithmetic. The three versions of the routine agree, the checksum of a chain of packet
    buffers does not depend on how the bytes are divided, and the checksums with a pseudo header are those of the standard.
  \<^item> \<open>Size_Arith\<close>: \<open>misc/bsize.h\<close>, \<open>misc/balign.h\<close>, \<open>misc/balloc.h\<close>. Sizes are exact or flagged as overflowed.
  \<^item> \<open>Linked_List\<close>, \<open>Job_Queue\<close>: \<open>structure/LinkedList1.h\<close>, \<open>structure/SLinkedList_impl.h\<close>, \<open>base/BPending.c\<close>. Both list
    implementations refine sequences (locale \<open>linked_list\<close>); the job queue refines a stack in which every job occurs once.
  \<^item> \<open>Flow_Interface\<close>: the interfaces of \<open>flow/\<close> and their jobs, with an invariant of every state they reach.
  \<^item> \<open>Event_System\<close>, \<open>Packet_Relay\<close>: the contracts. \<open>event_system\<close> turns a property of single events into one of all runs,
    \<open>metered_system\<close> bounds the length of runs, \<open>packet_relay\<close> and \<open>live_relay\<close> state what a buffer between a packet
    source and a packet sink promises.
  \<^item> \<open>Chunk_Buffer\<close>, \<open>Packet_Buffer\<close>, \<open>Single_Packet_Buffer\<close>: \<open>structure/ChunkBuffer2.h\<close>, \<open>flow/PacketBuffer.c\<close>,
    \<open>flow/SinglePacketBuffer.c\<close>. The ring of packets in memory refines a queue; both buffers are instances of \<open>live_relay\<close>.
  \<^item> \<open>Packet_Stream_Sender\<close>: \<open>flow/PacketStreamSender.c\<close>, an instance of \<open>metered_system\<close>.
  \<^item> \<open>Connection\<close>: \<open>system/BConnection_unix.c\<close> and the part of \<open>system/BReactor_badvpn.c\<close> it relies on, an instance of
    \<open>event_system\<close>: in all interleavings the two streams are faithful and no wake-up is lost, given that the kernel does
    not report an error alone to a waiting sender; without that condition an assertion fails.
  \<^item> \<open>Socks_Client\<close>: \<open>socksclient/BSocksClient.c\<close>, an instance of \<open>event_system\<close> over the connection and the stream sender. The
    protocol is specified by \<open>socks_talk\<close>, from the bytes received to the messages to be sent and the verdict.
  \<^item> \<open>Tcp_Client\<close>: one TCP connection in \<open>tun2socks/tun2socks.c\<close>, between the callbacks of the network stack and its SOCKS client, an
    instance of \<open>event_system\<close>: in all interleavings both streams are faithful, no wake-up is lost, both sides are released exactly
    once, and the callbacks return what the stack must know; a packet buffer is lost when a connection ends inside a callback.
  \<^item> \<open>Options\<close>: the command line of \<open>tun2socks\<close>, \<open>misc/loglevel.h\<close>, \<open>misc/read_file.h\<close>. The command lines that are accepted are
    those of a grammar of options, and their values can be processed.
  \<^item> \<open>Tun2socks\<close>: the rest of \<open>tun2socks.c\<close>, an instance of \<open>event_system\<close> over \<open>Tcp_Client\<close>, \<open>Linked_List\<close> and \<open>Options\<close>: any number of
    clients and their list, the network interface, and what the set-up and the shutdown acquire and release.
  \<^item> \<open>Stun\<close>, \<open>Proxy\<close>: \<open>ministun.c\<close>, \<open>proxy.c\<close>, \<open>bind_public.c\<close>. Replies of any content are handled inside the buffer, requests
    end; packets are relayed exactly under the conditions of the loop; the loop has errors, which are proved.

  \<^bold>\<open>Bounds.\<close> No operation is cut off by fuel: loops are structural recursions over their data, or recursions that are proved to end
  (the loop that frees all clients). The
  number of attempts of a STUN request is the \<open>stuncount\<close> of the code, and the reactor limits of a connection are those
  of the code. Bounds on the length of runs are theorems about the events, not assumptions.

  \<^bold>\<open>Not modelled.\<close> The network stack in \<open>lwip/\<close> except for its checksums; its callbacks and results are the environment of
  \<open>Tcp_Client\<close> and \<open>Tun2socks\<close>; the loop and the timers of the reactor with their trees (\<open>CAvl\<close>), listeners,
  signals, logging and the set-up of the tap device, which consist of system calls; the trees \<open>SAvl\<close>, \<open>BAVL\<close>, the fair queue and
  the packet protocol, which only the UDP gateway of BadVPN uses; \<open>tunnel.c\<close>, which runs shell commands and
  ssh; and the Python and shell programs that control the measurements, which run external programs and edit
  files. The header of each theory says what it leaves out of the files it models.
\<close>

end
